(* ===== verification/C3x_Prelude.thy ===== *)
theory C3x_Prelude
  imports Complex_Main "HOL-Library.AList" "HOL-Library.Char_ord" "HOL-Library.List_Lexorder" "HOL-Library.Code_Target_Nat"
begin

text \<open>
  Shared ground of the development: the lemma collections, the conventions for Go values and the
  generic facts on lists and association lists that the components use.

  \<^item> A Go \<open>int\<close> or \<open>int64\<close> is an \<open>int\<close>; where the width matters the bounds are
    written out. Go's \<open>/\<close> truncates towards zero (\<open>go_div\<close>).
  \<^item> A Go \<open>map[string]string\<close> is an association list. A missing key reads as the zero
    value \<open>''''\<close> (\<open>attr_get\<close>), an assignment replaces or appends (\<open>attr_set\<close>). Go
    iterates over a map in an unspecified order; the order of the association list is that order,
    and as the theorems quantify over all lists they hold for every iteration order.
  \<^item> A result with an error is \<open>'e + 'a\<close>: \<open>Inl\<close> the error, \<open>Inr\<close> the value.
  \<^item> A pointer that may be nil is an \<open>option\<close>.
\<close>

named_theorems store_simps "how the operations of the store act on its tables"
named_theorems inv_intros "operations keep the invariants of their component"
named_theorems go_defs "definitions of the small pure functions, unfolded together"

subsection \<open>Integers\<close>

definition go_div :: "int \<Rightarrow> int \<Rightarrow> int" where
  "go_div a b = sgn a * sgn b * (\<bar>a\<bar> div \<bar>b\<bar>)"

lemma go_div_nonneg: "0 \<le> a \<Longrightarrow> 0 < b \<Longrightarrow> go_div a b = a div b"
  by (cases "a = 0") (simp_all add: go_div_def)

lemma go_div_2 [simp]: "0 \<le> a \<Longrightarrow> go_div a 2 = a div 2"
  by (simp add: go_div_nonneg)

definition max_int64 :: int where "max_int64 = 9223372036854775807"
definition min_int64 :: int where "min_int64 = - 9223372036854775808"

definition in_int64 :: "int \<Rightarrow> bool" where
  "in_int64 n \<longleftrightarrow> min_int64 \<le> n \<and> n \<le> max_int64"

subsection \<open>String maps\<close>

type_synonym attrs = "(string \<times> string) list"

definition attr_get :: "attrs \<Rightarrow> string \<Rightarrow> string" where
  "attr_get a k = (case map_of a k of None \<Rightarrow> '''' | Some v \<Rightarrow> v)"

definition attr_set :: "attrs \<Rightarrow> string \<Rightarrow> string \<Rightarrow> attrs" where
  "attr_set a k v = AList.update k v a"

definition same_map :: "('k \<times> 'v) list \<Rightarrow> ('k \<times> 'v) list \<Rightarrow> bool" where
  "same_map a b \<longleftrightarrow> list_all (\<lambda>k. map_of a k = map_of b k) (map fst a @ map fst b)"

lemma same_map_iff: "same_map a b \<longleftrightarrow> map_of a = map_of b"
proof
  assume *: "same_map a b"
  show "map_of a = map_of b"
  proof
    fix k
    show "map_of a k = map_of b k"
    proof (cases "k \<in> fst ` set a \<union> fst ` set b")
      case True
      with * show ?thesis by (auto simp: same_map_def list_all_iff)
    next
      case False
      then have "map_of a k = None" "map_of b k = None"
        by (auto simp: map_of_eq_None_iff)
      then show ?thesis by simp
    qed
  qed
qed (simp add: same_map_def list_all_iff)

lemma same_map_refl [simp]: "same_map a a"
  by (simp add: same_map_iff)

lemma attr_get_set: "attr_get (attr_set a k v) k' = (if k' = k then v else attr_get a k')"
  by (simp add: attr_get_def attr_set_def update_conv)

lemma attr_get_set_same [simp]: "attr_get (attr_set a k v) k = v"
  by (simp add: attr_get_set)

lemma attr_get_set_other [simp]: "k' \<noteq> k \<Longrightarrow> attr_get (attr_set a k v) k' = attr_get a k'"
  by (simp add: attr_get_set)

lemma map_of_attr_set [simp]: "map_of (attr_set a k v) = (map_of a)(k \<mapsto> v)"
  by (simp add: attr_set_def update_conv')

subsection \<open>Lists\<close>

text \<open>
  The loop that appears in several places of the code: a \<open>seen\<close> set, and an element kept when
  its key was not seen before.
\<close>

fun dedup_from :: "('a \<Rightarrow> 'k) \<Rightarrow> 'k list \<Rightarrow> 'a list \<Rightarrow> 'a list" where
  "dedup_from key seen [] = []"
| "dedup_from key seen (x # xs) =
     (if key x \<in> set seen then dedup_from key seen xs
      else x # dedup_from key (key x # seen) xs)"

lemma dedup_from_keys:
  "key ` set (dedup_from key seen xs) = key ` set xs - set seen"
  by (induction xs arbitrary: seen) auto

lemma dedup_from_subset: "set (dedup_from key seen xs) \<subseteq> set xs"
  by (induction xs arbitrary: seen) auto

lemma dedup_from_distinct: "distinct (map key (dedup_from key seen xs))"
proof (induction xs arbitrary: seen)
  case (Cons x xs)
  have "key x \<notin> key ` set (dedup_from key (key x # seen) xs)"
    by (simp add: dedup_from_keys)
  with Cons show ?case by simp
qed simp

lemma dedup_from_length: "length (dedup_from key seen xs) \<le> length xs"
  by (induction xs arbitrary: seen) (auto simp: le_SucI)

lemma dedup_from_id:
  "distinct (map key xs) \<Longrightarrow> key ` set xs \<inter> set seen = {} \<Longrightarrow> dedup_from key seen xs = xs"
  by (induction xs arbitrary: seen) auto

lemma dedup_from_find:
  "k \<notin> set seen \<Longrightarrow> find (\<lambda>x. key x = k) (dedup_from key seen xs) = find (\<lambda>x. key x = k) xs"
  by (induction xs arbitrary: seen) auto

text \<open>Cutting a list in batches of a fixed size, as the \<open>for i := 0; i < n; i += size\<close> loops do.\<close>

function batches :: "nat \<Rightarrow> 'a list \<Rightarrow> 'a list list" where
  "batches n xs = (if xs = [] \<or> n = 0 then [] else take n xs # batches n (drop n xs))"
  by pat_completeness auto
termination by (relation "measure (\<lambda>(n, xs). length xs)") auto

declare batches.simps [simp del]

lemma batches_Nil [simp]: "batches n [] = []"
  by (simp add: batches.simps)

lemma batches_step: "xs \<noteq> [] \<Longrightarrow> 0 < n \<Longrightarrow> batches n xs = take n xs # batches n (drop n xs)"
  by (subst batches.simps) simp

lemma concat_batches: "0 < n \<Longrightarrow> concat (batches n xs) = xs"
  by (induction n xs rule: batches.induct) (subst batches.simps, auto)

lemma length_in_batches: "b \<in> set (batches n xs) \<Longrightarrow> b \<noteq> [] \<and> length b \<le> n"
proof (induction n xs rule: batches.induct)
  case (1 n xs)
  show ?case
  proof (cases "xs = [] \<or> n = 0")
    case True
    with "1.prems" show ?thesis by (simp add: batches.simps [of n xs])
  next
    case False
    with "1.prems" have "b = take n xs \<or> b \<in> set (batches n (drop n xs))"
      by (simp add: batches.simps [of n xs])
    with False "1.IH" show ?thesis by auto
  qed
qed

lemma find_Some_map_of:
  "find P xs = Some x \<Longrightarrow> P x \<and> x \<in> set xs"
  by (auto simp: find_Some_iff in_set_conv_nth)

lemma find_None: "find P xs = None \<longleftrightarrow> (\<forall>x \<in> set xs. \<not> P x)"
  by (induction xs) auto

lemma sum_list_filter_split:
  fixes f :: "'a \<Rightarrow> 'b :: comm_monoid_add"
  shows "sum_list (map f xs)
     = sum_list (map f (filter P xs)) + sum_list (map f (filter (\<lambda>x. \<not> P x) xs))"
  by (induction xs) (auto simp: algebra_simps)

end
