(* ===== verification/Pricing_Types.thy ===== *)
theory Pricing_Types
  imports Go_Strings
begin

text \<open>
  The data model of \<^verbatim>\<open>internal/db/queries.go\<close>: products, prices and the filters of a lookup. The
  fields keep the order of the Go structs; a \<open>*string\<close> is a \<open>string option\<close>.
\<close>

record price =
  pr_hash :: string
  pr_purchaseOption :: string
  pr_unit :: string
  pr_USD :: string
  pr_startUsage :: string
  pr_endUsage :: string
  pr_description :: string
  pr_termLength :: string
  pr_termPurchaseOption :: string
  pr_termOfferingClass :: string

record product =
  p_hash :: string
  p_sku :: string
  p_vendor :: string
  p_region :: string
  p_service :: string
  p_family :: string
  p_attrs :: attrs
  p_prices :: "price list"

record attributeFilter =
  af_key :: string
  af_value :: "string option"
  af_regex :: "string option"

record productFilter =
  f_vendor :: "string option"
  f_service :: "string option"
  f_family :: "string option"
  f_region :: "string option"
  f_sku :: "string option"
  f_attrs :: "attributeFilter list"
  f_limit :: int
  f_offset :: int
  f_afterHash :: string

record priceFilter =
  pf_purchaseOption :: "string option"
  pf_unit :: "string option"
  pf_description :: "string option"
  pf_descriptionRegex :: "string option"
  pf_startUsage :: "string option"
  pf_endUsage :: "string option"
  pf_termLength :: "string option"
  pf_termPurchaseOption :: "string option"
  pf_termOfferingClass :: "string option"

text \<open>The constants of the file.\<close>

definition maxRegexLength :: nat where "maxRegexLength = 200"
definition defaultProductLimit :: int where "defaultProductLimit = 5000"
definition maxProductLimit :: int where "maxProductLimit = 5000"
definition maxRegexCacheSize :: nat where "maxRegexCacheSize = 1024"
definition maxPostgresParams :: nat where "maxPostgresParams = 65535"
definition colsPerRow :: nat where "colsPerRow = 8"
definition maxBatchSize :: nat where "maxBatchSize = maxPostgresParams div colsPerRow"

text \<open>The zero values a Go \<open>&ProductFilter{}\<close> and \<open>&PriceFilter{}\<close> start from.\<close>

definition empty_productFilter :: productFilter where
  "empty_productFilter =
     \<lparr>f_vendor = None, f_service = None, f_family = None, f_region = None, f_sku = None,
      f_attrs = [], f_limit = 0, f_offset = 0, f_afterHash = ''''\<rparr>"

definition empty_priceFilter :: priceFilter where
  "empty_priceFilter =
     \<lparr>pf_purchaseOption = None, pf_unit = None, pf_description = None, pf_descriptionRegex = None,
      pf_startUsage = None, pf_endUsage = None, pf_termLength = None,
      pf_termPurchaseOption = None, pf_termOfferingClass = None\<rparr>"

text \<open>
  \<open>EffectiveLimit\<close>: the row limit a lookup applies. The bounds hold for every requested value,
  negative and huge ones included.
\<close>

definition EffectiveLimit :: "int \<Rightarrow> int" where
  "EffectiveLimit requested =
     (if requested \<le> 0 \<or> requested > maxProductLimit then defaultProductLimit else requested)"

lemma EffectiveLimit_pos: "1 \<le> EffectiveLimit n"
  by (simp add: EffectiveLimit_def defaultProductLimit_def)

lemma EffectiveLimit_max: "EffectiveLimit n \<le> maxProductLimit"
  by (simp add: EffectiveLimit_def defaultProductLimit_def maxProductLimit_def)

lemma EffectiveLimit_id: "1 \<le> n \<Longrightarrow> n \<le> maxProductLimit \<Longrightarrow> EffectiveLimit n = n"
  by (simp add: EffectiveLimit_def)

lemma EffectiveLimit_idem [simp]: "EffectiveLimit (EffectiveLimit n) = EffectiveLimit n"
  using EffectiveLimit_id EffectiveLimit_max EffectiveLimit_pos by blast

lemma maxBatchSize_eq: "maxBatchSize = 8191"
  by (simp add: maxBatchSize_def maxPostgresParams_def colsPerRow_def)

end
