(* ===== verification/Database.thy ===== *)
theory Database
  imports Pricing_Types
begin

text \<open>
  The PostgreSQL tables of \<^verbatim>\<open>internal/db/schema.sql\<close> and the SQL statements of
  \<^verbatim>\<open>internal/db/db.go\<close>, \<^verbatim>\<open>internal/db/queries.go\<close> and \<^verbatim>\<open>cmd/server/main.go\<close>, each as the change the
  statement's text makes to the tables and the value it returns.

  A statement is atomic. Between two statements of one process anything the other processes do may
  happen, and a statement may fail. Both are in the \<open>script\<close> of the state: its next element
  lists what other processes did before the statement (every action is one of this program's own
  statements, or the passing of time, or a crash recovery of the server) and says whether the
  statement succeeds, is refused, or is executed while its reply is lost. An exhausted script means
  no interference and no failure. A theorem about all states is a theorem about all schedules and
  all failures.
\<close>

record row =
  r_product :: product
  r_updated :: int

record run =
  run_id :: int
  run_vendor :: string
  run_started :: int
  run_finished :: "int option"
  run_status :: string
  run_products :: int
  run_deleted :: int
  run_error :: "string option"

record snapshot =
  sn_hash :: string
  sn_prices :: "price list"
  sn_run :: int

datatype env_action =
    Tick nat                              \<comment> \<open>time passes\<close>
  | CrashRecovery                         \<comment> \<open>the server restarts: UNLOGGED tables are emptied\<close>
  | ReapBefore int                        \<comment> \<open>\<open>ReapStaleScrapeRuns\<close> of a serving process\<close>
  | OtherUpsert "product list"
  | OtherMarkSeen int "string list"
  | OtherClearSeen int
  | OtherDeleteStale string int int
  | OtherStart string int
  | OtherFinish int string int int "string option"
  | OtherPrune int
  | OtherLock string
  | OtherUnlock string

datatype outcome = Executed | Refused string | LostReply string

record db =
  tbl_products :: "(string \<times> row) list"
  tbl_runs :: "run list"
  tbl_seen :: "(int \<times> string) list"
  tbl_snapshots :: "snapshot list"
  next_id :: int
  locks :: "string list"
  now :: int
  script :: "(env_action list \<times> outcome) list"

type_synonym 'a stmt = "db \<Rightarrow> (string + 'a) \<times> db"

text \<open>The tables after the migrations, at time \<open>t\<close>.\<close>

definition fresh_db :: "int \<Rightarrow> (env_action list \<times> outcome) list \<Rightarrow> db" where
  "fresh_db t sc = \<lparr>tbl_products = [], tbl_runs = [], tbl_seen = [], tbl_snapshots = [],
                    next_id = 1, locks = [], now = t, script = sc\<rparr>"

definition lookup_row :: "db \<Rightarrow> string \<Rightarrow> row option" where
  "lookup_row d h = map_of (tbl_products d) h"

subsection \<open>The statements on products\<close>

text \<open>
  \<open>INSERT ... ON CONFLICT (product_hash) DO UPDATE SET sku, attributes, prices, updated_at\<close>
  with the guard \<open>upsertChangedOnly\<close>: a row whose content is the same is left alone. JSONB
  attributes compare as maps.
\<close>

definition row_changed :: "product \<Rightarrow> product \<Rightarrow> bool" where
  "row_changed old excluded \<longleftrightarrow>
     p_prices old \<noteq> p_prices excluded \<or> \<not> same_map (p_attrs old) (p_attrs excluded)
     \<or> p_sku old \<noteq> p_sku excluded"

definition upsert_row :: "int \<Rightarrow> product \<Rightarrow> (string \<times> row) list \<Rightarrow> (string \<times> row) list" where
  "upsert_row t p tbl =
     (case map_of tbl (p_hash p) of
        None \<Rightarrow> tbl @ [(p_hash p, \<lparr>r_product = p, r_updated = t\<rparr>)]
      | Some r \<Rightarrow>
          if row_changed (r_product r) p
          then AList.update (p_hash p)
                 \<lparr>r_product = (r_product r)\<lparr>p_sku := p_sku p, p_attrs := p_attrs p, p_prices := p_prices p\<rparr>,
                  r_updated = t\<rparr> tbl
          else tbl)"

text \<open>PostgreSQL rejects a statement that would touch one row twice.\<close>

definition sql_upsert :: "product list \<Rightarrow> unit stmt" where
  "sql_upsert ps d =
     (if distinct (map p_hash ps)
      then (Inr (), d\<lparr>tbl_products := fold (upsert_row (now d)) ps (tbl_products d)\<rparr>)
      else (Inl ''ON CONFLICT DO UPDATE command cannot affect row a second time'', d))"

definition sql_mark_seen :: "int \<Rightarrow> string list \<Rightarrow> unit stmt" where
  "sql_mark_seen r hs d =
     (Inr (), d\<lparr>tbl_seen := fold (\<lambda>h s. if (r, h) \<in> set s then s else s @ [(r, h)]) hs (tbl_seen d)\<rparr>)"

definition run_is_running :: "db \<Rightarrow> int \<Rightarrow> bool" where
  "run_is_running d r \<longleftrightarrow> list_ex (\<lambda>x. run_id x = r \<and> run_status x = ''running'') (tbl_runs d)"

definition sql_clear_seen :: "int \<Rightarrow> unit stmt" where
  "sql_clear_seen r d =
     (Inr (), d\<lparr>tbl_seen := filter (\<lambda>(r', h). \<not> (r' = r \<or> \<not> run_is_running d r')) (tbl_seen d)\<rparr>)"

definition stale_row :: "db \<Rightarrow> string \<Rightarrow> int \<Rightarrow> int \<Rightarrow> string \<times> row \<Rightarrow> bool" where
  "stale_row d vendor before r = (\<lambda>(h, x).
     p_vendor (r_product x) = vendor \<and> r_updated x < before \<and> (r, h) \<notin> set (tbl_seen d))"

definition sql_delete_stale :: "string \<Rightarrow> int \<Rightarrow> int \<Rightarrow> int stmt" where
  "sql_delete_stale vendor before r d =
     (Inr (int (length (filter (stale_row d vendor before r) (tbl_products d)))),
      d\<lparr>tbl_products := filter (\<lambda>x. \<not> stale_row d vendor before r x) (tbl_products d)\<rparr>)"

definition sql_count_seen :: "int \<Rightarrow> int stmt" where
  "sql_count_seen r d = (Inr (int (length (filter (\<lambda>(r', h). r' = r) (tbl_seen d)))), d)"

definition sql_count_products :: "int stmt" where
  "sql_count_products d = (Inr (int (length (tbl_products d))), d)"

text \<open>\<open>scrape_run_id\<close> references \<open>scrape_runs\<close>.\<close>

definition sql_snapshots :: "snapshot list \<Rightarrow> unit stmt" where
  "sql_snapshots ss d =
     (if list_all (\<lambda>s. sn_run s \<in> set (map run_id (tbl_runs d))) ss
      then (Inr (), d\<lparr>tbl_snapshots := tbl_snapshots d @ ss\<rparr>)
      else (Inl ''insert or update on table price_snapshots violates foreign key constraint'', d))"

subsection \<open>The statements on runs\<close>

definition sql_now :: "int stmt" where
  "sql_now d = (Inr (now d), d)"

definition sql_start_run :: "string \<Rightarrow> int \<Rightarrow> int stmt" where
  "sql_start_run vendor started d =
     (Inr (next_id d),
      d\<lparr>tbl_runs := tbl_runs d @
          [\<lparr>run_id = next_id d, run_vendor = vendor, run_started = started, run_finished = None,
            run_status = ''running'', run_products = 0, run_deleted = 0, run_error = None\<rparr>],
        next_id := next_id d + 1\<rparr>)"

definition finish_row :: "int \<Rightarrow> string \<Rightarrow> int \<Rightarrow> int \<Rightarrow> string option \<Rightarrow> run \<Rightarrow> run" where
  "finish_row t status prods deleted err x =
     x\<lparr>run_finished := Some t, run_status := status, run_products := prods,
       run_deleted := deleted, run_error := err\<rparr>"

definition sql_finish_run :: "int \<Rightarrow> string \<Rightarrow> int \<Rightarrow> int \<Rightarrow> string option \<Rightarrow> unit stmt" where
  "sql_finish_run r status prods deleted err d =
     (Inr (), d\<lparr>tbl_runs := map (\<lambda>x. if run_id x = r
                then finish_row (now d) status prods deleted err x else x) (tbl_runs d)\<rparr>)"

definition prunable :: "int \<Rightarrow> run \<Rightarrow> bool" where
  "prunable cutoff x = (case run_finished x of None \<Rightarrow> False | Some f \<Rightarrow> f < cutoff)"

text \<open>Deleting a run deletes its snapshots (\<open>ON DELETE CASCADE\<close>).\<close>

definition sql_prune_runs :: "int \<Rightarrow> int stmt" where
  "sql_prune_runs cutoff d =
     (Inr (int (length (filter (prunable cutoff) (tbl_runs d)))),
      d\<lparr>tbl_runs := filter (\<lambda>x. \<not> prunable cutoff x) (tbl_runs d),
        tbl_snapshots := filter (\<lambda>s. sn_run s \<notin>
          set (map run_id (filter (prunable cutoff) (tbl_runs d)))) (tbl_snapshots d)\<rparr>)"

definition reapable :: "int \<Rightarrow> run \<Rightarrow> bool" where
  "reapable cutoff x \<longleftrightarrow> run_status x = ''running'' \<and> run_started x < cutoff"

definition reap_row :: "int \<Rightarrow> run \<Rightarrow> run" where
  "reap_row t x = x\<lparr>run_status := ''failed'', run_finished := Some t,
                     run_error := Some ''reaped: exceeded timeout''\<rparr>"

definition sql_reap_runs :: "int \<Rightarrow> int stmt" where
  "sql_reap_runs cutoff d =
     (Inr (int (length (filter (reapable cutoff) (tbl_runs d)))),
      d\<lparr>tbl_runs := map (\<lambda>x. if reapable cutoff x then reap_row (now d) x else x) (tbl_runs d)\<rparr>)"

text \<open>
  \<open>SELECT products FROM scrape_runs WHERE vendor=$1 AND status='success' ORDER BY finished_at DESC
  LIMIT 1\<close>; no row is an error of \<open>Scan\<close>. In descending order a NULL comes first.
\<close>

definition finished_after :: "run \<Rightarrow> run \<Rightarrow> bool" where
  "finished_after x y =
     (case (run_finished x, run_finished y) of
        (None, None) \<Rightarrow> False | (None, Some _) \<Rightarrow> True | (Some _, None) \<Rightarrow> False
      | (Some a, Some b) \<Rightarrow> b < a)"

definition latest_run :: "run list \<Rightarrow> run option" where
  "latest_run xs = fold (\<lambda>x best. case best of None \<Rightarrow> Some x
     | Some b \<Rightarrow> if finished_after x b then Some x else best) xs None"

definition sql_prev_count :: "string \<Rightarrow> int stmt" where
  "sql_prev_count vendor d =
     (case latest_run (filter (\<lambda>x. run_vendor x = vendor \<and> run_status x = ''success'') (tbl_runs d)) of
        None \<Rightarrow> (Inl ''no rows in result set'', d)
      | Some x \<Rightarrow> (Inr (run_products x), d))"

subsection \<open>Advisory locks\<close>

definition sql_try_lock :: "string \<Rightarrow> bool stmt" where
  "sql_try_lock key d =
     (if key \<in> set (locks d) then (Inr False, d) else (Inr True, d\<lparr>locks := key # locks d\<rparr>))"

definition sql_unlock :: "string \<Rightarrow> unit stmt" where
  "sql_unlock key d = (Inr (), d\<lparr>locks := remove1 key (locks d)\<rparr>)"

subsection \<open>Interference and execution\<close>

definition apply_env :: "env_action \<Rightarrow> db \<Rightarrow> db" where
  "apply_env a d = (case a of
     Tick n \<Rightarrow> d\<lparr>now := now d + int n\<rparr>
   | CrashRecovery \<Rightarrow> d\<lparr>tbl_seen := [], locks := []\<rparr>
   | ReapBefore cutoff \<Rightarrow> snd (sql_reap_runs cutoff d)
   | OtherUpsert ps \<Rightarrow> snd (sql_upsert ps d)
   | OtherMarkSeen r hs \<Rightarrow> snd (sql_mark_seen r hs d)
   | OtherClearSeen r \<Rightarrow> snd (sql_clear_seen r d)
   | OtherDeleteStale v t r \<Rightarrow> snd (sql_delete_stale v t r d)
   | OtherStart v t \<Rightarrow> snd (sql_start_run v t d)
   | OtherFinish r s n k e \<Rightarrow> snd (sql_finish_run r s n k e d)
   | OtherPrune cutoff \<Rightarrow> snd (sql_prune_runs cutoff d)
   | OtherLock key \<Rightarrow> snd (sql_try_lock key d)
   | OtherUnlock key \<Rightarrow> snd (sql_unlock key d))"

definition exec :: "'a stmt \<Rightarrow> 'a stmt" where
  "exec st d =
     (case script d of
        [] \<Rightarrow> st d
      | (env, out) # rest \<Rightarrow>
          (let d1 = fold apply_env env (d\<lparr>script := rest\<rparr>) in
           case out of
             Executed \<Rightarrow> st d1
           | Refused e \<Rightarrow> (Inl e, d1)
           | LostReply e \<Rightarrow> (Inl e, snd (st d1))))"

lemmas sql_defs =
  sql_upsert_def sql_mark_seen_def sql_clear_seen_def sql_delete_stale_def sql_count_seen_def
  sql_count_products_def sql_snapshots_def sql_now_def sql_start_run_def sql_finish_run_def
  sql_prune_runs_def sql_reap_runs_def sql_prev_count_def sql_try_lock_def sql_unlock_def

lemma exec_quiet [simp]: "script d = [] \<Longrightarrow> exec st d = st d"
  by (simp add: exec_def)

text \<open>
  The rule every preservation proof uses: what the statement itself keeps, and what every
  interfering action of the script keeps, the execution keeps, whatever its outcome. \<open>R\<close> is
  what is assumed of the interference (a rely condition), and it is kept along with \<open>P\<close>.
\<close>

definition script_all :: "(env_action \<Rightarrow> bool) \<Rightarrow> db \<Rightarrow> bool" where
  "script_all R d \<longleftrightarrow> list_all (\<lambda>(env, out). list_all R env) (script d)"

lemma apply_env_script [simp]: "script (apply_env a d) = script d"
  by (cases a) (simp_all add: apply_env_def sql_defs split: option.splits)

lemma fold_env_script [simp]: "script (fold apply_env env d) = script d"
  by (induction env arbitrary: d) simp_all

lemma fold_env_keeps:
  assumes "list_all R env" "P d" and "\<And>a d. R a \<Longrightarrow> P d \<Longrightarrow> P (apply_env a d)"
  shows "P (fold apply_env env d)"
  using assms(1,2) by (induction env arbitrary: d) (auto intro: assms(3))

lemma exec_keeps:
  assumes P: "P d" "script_all R d"
    and env: "\<And>a d. R a \<Longrightarrow> P d \<Longrightarrow> P (apply_env a d)"
    and scr: "\<And>d s. P d \<Longrightarrow> P (d\<lparr>script := s\<rparr>)"
    and st: "\<And>d. P d \<Longrightarrow> P (snd (st d))"
    and sts: "\<And>d. script (snd (st d)) = script d"
  shows "P (snd (exec st d)) \<and> script_all R (snd (exec st d))"
proof (cases "script d")
  case Nil
  with assms show ?thesis by (simp add: script_all_def)
next
  case (Cons x rest)
  obtain env' out where x: "x = (env', out)" by fastforce
  let ?d1 = "fold apply_env env' (d\<lparr>script := rest\<rparr>)"
  from Cons x P(2) have R: "list_all R env'" "script_all R ?d1"
    by (simp_all add: script_all_def)
  have "P ?d1" by (rule fold_env_keeps [OF R(1) scr [OF P(1)] env])
  with Cons x R st sts show ?thesis
    by (cases out) (simp_all add: exec_def Let_def script_all_def)
qed

lemma sql_script [simp]:
  "script (snd (sql_upsert ps d)) = script d" "script (snd (sql_mark_seen r hs d)) = script d"
  "script (snd (sql_clear_seen r d)) = script d" "script (snd (sql_delete_stale v t r d)) = script d"
  "script (snd (sql_count_seen r d)) = script d" "script (snd (sql_count_products d)) = script d"
  "script (snd (sql_snapshots ss d)) = script d" "script (snd (sql_now d)) = script d"
  "script (snd (sql_start_run v t d)) = script d" "script (snd (sql_finish_run r s n k e d)) = script d"
  "script (snd (sql_prune_runs c d)) = script d" "script (snd (sql_reap_runs c d)) = script d"
  "script (snd (sql_prev_count v d)) = script d" "script (snd (sql_try_lock key d)) = script d"
  "script (snd (sql_unlock key d)) = script d"
  by (simp_all add: sql_defs split: option.splits)

end
