(* ===== verification/Product_Store.thy ===== *)
theory Product_Store
  imports Database
begin

text \<open>
  The operations of \<open>*db.DB\<close>: the writers of \<^verbatim>\<open>internal/db/queries.go\<close> (batched upsert, seen-set,
  stale cleanup, price snapshots), the run records and the advisory lock of \<^verbatim>\<open>internal/db/db.go\<close>,
  and the seeder of \<^verbatim>\<open>internal/db/seed.go\<close>. Each is built from the statements of
  \<^verbatim>\<open>Database\<close> through \<open>exec\<close>, so it can be interleaved with other processes and can fail at every
  statement.
\<close>

subsection \<open>Upserting products\<close>

text \<open>The placeholder groups and the arguments of the multi-row INSERT.\<close>

datatype sql_arg = ArgStr string | ArgInt int | ArgJsonMap attrs | ArgJsonPrices "price list"

definition upsert_values :: "nat \<Rightarrow> string" where
  "upsert_values i =
     (let base = i * 8 in
      ''('' @ join '', '' (map (\<lambda>k. ''$'' @ show_nat (base + k)) [1..<9]) @ '')'')"

definition upsert_args :: "product \<Rightarrow> sql_arg list" where
  "upsert_args p =
     [ArgStr (p_hash p), ArgStr (p_sku p), ArgStr (p_vendor p), ArgStr (p_region p),
      ArgStr (p_service p), ArgStr (p_family p), ArgJsonMap (p_attrs p), ArgJsonPrices (p_prices p)]"

definition upsert_statement :: "product list \<Rightarrow> string \<times> sql_arg list" where
  "upsert_statement ps =
     (join '','' (map upsert_values [0..<length ps]), concat (map upsert_args ps))"

definition upsertBatch :: "product list \<Rightarrow> unit stmt" where
  "upsertBatch products d =
     (if products = [] then (Inr (), d)
      else
        (let deduped = dedup_from p_hash [] products in
         if length deduped > maxBatchSize
         then (Inl (''batch size '' @ show_nat (length deduped) @ '' exceeds maximum safe size ''
                    @ show_nat maxBatchSize), d)
         else exec (sql_upsert deduped) d))"

definition upsertBatchSize :: nat where "upsertBatchSize = 1000"

function upsert_from :: "nat \<Rightarrow> product list \<Rightarrow> unit stmt" where
  "upsert_from i products d =
     (if i < length products
      then
        (let end = min (i + upsertBatchSize) (length products) in
         case upsertBatch (take (end - i) (drop i products)) d of
           (Inl e, d') \<Rightarrow>
             (Inl (''upsert batch '' @ show_nat i @ ''-'' @ show_nat end @ '': '' @ e), d')
         | (Inr _, d') \<Rightarrow> upsert_from (i + upsertBatchSize) products d')
      else (Inr (), d))"
  by pat_completeness auto
termination
  by (relation "measure (\<lambda>(i, ps, d). length ps - i)") (auto simp: upsertBatchSize_def)

declare upsert_from.simps [simp del]

definition UpsertProducts :: "product list \<Rightarrow> unit stmt" where
  "UpsertProducts products = upsert_from 0 products"

subsection \<open>Seen-set, cleanup, snapshots\<close>

definition MarkSeen :: "int \<Rightarrow> product list \<Rightarrow> unit stmt" where
  "MarkSeen runID products d =
     (if runID \<le> 0 \<or> products = [] then (Inr (), d)
      else
        (let hashes = map p_hash products in
         case exec (sql_mark_seen runID hashes) d of
           (Inl e, d') \<Rightarrow>
             (Inl (''mark '' @ show_nat (length hashes) @ '' products seen for run ''
                   @ show_int runID @ '': '' @ e), d')
         | (Inr _, d') \<Rightarrow> (Inr (), d')))"

definition ClearSeen :: "int \<Rightarrow> unit stmt" where
  "ClearSeen runID d =
     (case exec (sql_clear_seen runID) d of
        (Inl e, d') \<Rightarrow> (Inl (''clear scrape_seen for run '' @ show_int runID @ '': '' @ e), d')
      | (Inr _, d') \<Rightarrow> (Inr (), d'))"

definition DeleteStaleProducts :: "string \<Rightarrow> int \<Rightarrow> int \<Rightarrow> int stmt" where
  "DeleteStaleProducts vendor runID before d =
     (case exec (sql_delete_stale vendor before runID) d of
        (Inl e, d') \<Rightarrow> (Inl (''delete stale products for '' @ vendor @ '': '' @ e), d')
      | (Inr n, d') \<Rightarrow> (Inr n, d'))"

definition snapshot_of :: "int \<Rightarrow> product \<Rightarrow> snapshot" where
  "snapshot_of runID p = \<lparr>sn_hash = p_hash p, sn_prices = p_prices p, sn_run = runID\<rparr>"

function snapshots_from :: "nat \<Rightarrow> product list \<Rightarrow> int \<Rightarrow> unit stmt" where
  "snapshots_from i products runID d =
     (if i < length products
      then
        (let end = min (i + 1000) (length products);
             batch = take (end - i) (drop i products)
         in case exec (sql_snapshots (map (snapshot_of runID) batch)) d of
              (Inl e, d') \<Rightarrow>
                (Inl (''record price snapshots batch '' @ show_nat i @ ''-'' @ show_nat end
                      @ '': '' @ e), d')
            | (Inr _, d') \<Rightarrow> snapshots_from (i + 1000) products runID d')
      else (Inr (), d))"
  by pat_completeness auto
termination
  by (relation "measure (\<lambda>(i, ps, r, d). length ps - i)") auto

declare snapshots_from.simps [simp del]

definition RecordPriceSnapshots :: "product list \<Rightarrow> int \<Rightarrow> unit stmt" where
  "RecordPriceSnapshots products runID d =
     (if runID \<le> 0 \<or> products = [] then (Inr (), d) else snapshots_from 0 products runID d)"

text \<open>\<open>SeedFromFile\<close> after the file has been read: \<open>decoded\<close> is what the JSON decoder returned.\<close>

definition SeedFromFile :: "(string + product list) \<Rightarrow> unit stmt" where
  "SeedFromFile decoded d =
     (case decoded of
        Inl e \<Rightarrow> (Inl (''failed to parse seed file: '' @ e), d)
      | Inr ps \<Rightarrow>
          (case UpsertProducts ps d of
             (Inl e, d') \<Rightarrow> (Inl (''failed to seed products: '' @ e), d')
           | (Inr _, d') \<Rightarrow> (Inr (), d')))"

subsection \<open>Run records and the scrape lock\<close>

definition StartScrapeRun :: "string \<Rightarrow> int \<Rightarrow> int stmt" where
  "StartScrapeRun vendor startedAt = exec (sql_start_run vendor startedAt)"

definition FinishScrapeRun :: "int \<Rightarrow> string \<Rightarrow> int \<Rightarrow> int \<Rightarrow> string option \<Rightarrow> unit stmt" where
  "FinishScrapeRun r status prods deleted scrapeErr =
     exec (sql_finish_run r status prods deleted (map_option (take 2000) scrapeErr))"

definition PruneScrapeRuns :: "int \<Rightarrow> int \<Rightarrow> int stmt" where
  "PruneScrapeRuns appNow retain d =
     (if retain \<le> 0 then (Inr 0, d)
      else (case exec (sql_prune_runs (appNow - retain)) d of
              (Inl e, d') \<Rightarrow> (Inl (''prune scrape_runs: '' @ e), d')
            | (Inr n, d') \<Rightarrow> (Inr n, d')))"

definition ReapStaleScrapeRuns :: "int \<Rightarrow> int \<Rightarrow> int stmt" where
  "ReapStaleScrapeRuns appNow timeout d =
     (case exec (sql_reap_runs (appNow - timeout)) d of
        (Inl e, d') \<Rightarrow> (Inl (''reap stale scrape_runs: '' @ e), d')
      | (Inr n, d') \<Rightarrow> (Inr n, d'))"

definition CountProducts :: "int stmt" where
  "CountProducts = exec sql_count_products"

definition scrape_lock_key :: "string \<Rightarrow> string" where
  "scrape_lock_key vendor = ''scrape:'' @ vendor"

definition AcquireScrapeLock :: "string \<Rightarrow> bool stmt" where
  "AcquireScrapeLock vendor d =
     (case exec (sql_try_lock (scrape_lock_key vendor)) d of
        (Inl e, d') \<Rightarrow> (Inl (''pg_try_advisory_lock: '' @ e), d')
      | (Inr b, d') \<Rightarrow> (Inr b, d'))"

definition release_scrape_lock :: "string \<Rightarrow> db \<Rightarrow> db" where
  "release_scrape_lock vendor d = snd (exec (sql_unlock (scrape_lock_key vendor)) d)"

subsection \<open>What an upsert does to the table\<close>

definition merge_row :: "int \<Rightarrow> product \<Rightarrow> row option \<Rightarrow> row" where
  "merge_row t p old =
     (case old of
        None \<Rightarrow> \<lparr>r_product = p, r_updated = t\<rparr>
      | Some r \<Rightarrow>
          if row_changed (r_product r) p
          then \<lparr>r_product = (r_product r)\<lparr>p_sku := p_sku p, p_attrs := p_attrs p, p_prices := p_prices p\<rparr>,
                r_updated = t\<rparr>
          else r)"

definition same_content :: "product \<Rightarrow> product \<Rightarrow> bool" where
  "same_content a b \<longleftrightarrow>
     p_sku a = p_sku b \<and> map_of (p_attrs a) = map_of (p_attrs b) \<and> p_prices a = p_prices b"

lemma merge_row_content: "same_content (r_product (merge_row t p old)) p"
  by (auto simp: merge_row_def same_content_def row_changed_def same_map_iff split: option.split)

lemma merge_row_hash:
  "(\<And>r. old = Some r \<Longrightarrow> p_hash (r_product r) = p_hash p) \<Longrightarrow>
   p_hash (r_product (merge_row t p old)) = p_hash p"
  by (auto simp: merge_row_def split: option.split)

lemma merge_row_vendor:
  "p_vendor (r_product (merge_row t p old))
     = (case old of None \<Rightarrow> p_vendor p | Some r \<Rightarrow> p_vendor (r_product r))"
  by (auto simp: merge_row_def split: option.split)

lemma map_of_upsert_row:
  "map_of (upsert_row t p tbl) =
     (map_of tbl)(p_hash p \<mapsto> merge_row t p (map_of tbl (p_hash p)))"
proof (cases "map_of tbl (p_hash p)")
  case None
  then have "map_of (tbl @ [(p_hash p, x)]) = (map_of tbl)(p_hash p \<mapsto> x)" for x
    by (auto simp: map_add_def fun_eq_iff split: option.split)
  with None show ?thesis by (simp add: upsert_row_def merge_row_def)
next
  case (Some r)
  then show ?thesis by (auto simp: upsert_row_def merge_row_def update_conv' fun_eq_iff)
qed

lemma keys_upsert_row:
  "distinct (map fst tbl) \<Longrightarrow> distinct (map fst (upsert_row t p tbl))"
  by (auto simp: upsert_row_def distinct_update map_of_eq_None_iff split: option.split)

lemma keys_upsert_rows:
  "distinct (map fst tbl) \<Longrightarrow> distinct (map fst (fold (upsert_row t) ps tbl))"
  by (induction ps arbitrary: tbl) (simp_all add: keys_upsert_row)

text \<open>
  The effect of one statement: the rows named by its products get the merged content, every other
  row is untouched.
\<close>

lemma map_of_upsert_rows:
  assumes "distinct (map p_hash ps)"
  shows "map_of (fold (upsert_row t) ps tbl) h =
     (case find (\<lambda>p. p_hash p = h) ps of
        None \<Rightarrow> map_of tbl h
      | Some p \<Rightarrow> Some (merge_row t p (map_of tbl h)))"
  using assms
proof (induction ps arbitrary: tbl)
  case (Cons p ps)
  show ?case
  proof (cases "p_hash p = h")
    case True
    with Cons.prems have "find (\<lambda>q. p_hash q = h) ps = None"
      unfolding find_None by (metis distinct.simps(2) image_eqI list.map(2) set_map)
    with Cons True show ?thesis by (simp add: map_of_upsert_row)
  next
    case False
    with Cons show ?thesis by (simp add: map_of_upsert_row split: option.split)
  qed
qed simp

lemma dom_upsert_rows:
  "dom (map_of (fold (upsert_row t) ps tbl)) = dom (map_of tbl) \<union> p_hash ` set ps"
  by (induction ps arbitrary: tbl) (auto simp: map_of_upsert_row)

subsection \<open>The batches of an upsert\<close>

text \<open>The index loop of the code runs over the batches of the list, in order.\<close>

fun upsert_all :: "product list list \<Rightarrow> unit stmt" where
  "upsert_all [] d = (Inr (), d)"
| "upsert_all (b # bs) d =
     (case upsertBatch b d of (Inl e, d') \<Rightarrow> (Inl e, d') | (Inr _, d') \<Rightarrow> upsert_all bs d')"

lemma upsert_from_batches:
  "snd (upsert_from i ps d) = snd (upsert_all (batches upsertBatchSize (drop i ps)) d)
   \<and> ((\<exists>e. fst (upsert_from i ps d) = Inl e)
        \<longleftrightarrow> (\<exists>e. fst (upsert_all (batches upsertBatchSize (drop i ps)) d) = Inl e))"
proof (induction i ps d rule: upsert_from.induct)
  case (1 i ps d)
  show ?case
  proof (cases "i < length ps")
    case False
    then show ?thesis by (simp add: upsert_from.simps [of i])
  next
    case True
    let ?stop = "min (i + upsertBatchSize) (length ps)"
    let ?b = "take (?stop - i) (drop i ps)"
    have b: "?b = take upsertBatchSize (drop i ps)"
      by (auto simp: min_def)
    have s: "batches upsertBatchSize (drop i ps)
        = take upsertBatchSize (drop i ps) # batches upsertBatchSize (drop (i + upsertBatchSize) ps)"
      using True by (subst batches_step) (simp_all add: upsertBatchSize_def add.commute)
    obtain x d' where r: "upsertBatch ?b d = (x, d')" by fastforce
    show ?thesis
    proof (cases x)
      case (Inl e)
      with True r b s show ?thesis by (simp add: upsert_from.simps [of i] Let_def)
    next
      case (Inr u)
      with True r b s "1.IH" [OF True refl] show ?thesis
        by (simp add: upsert_from.simps [of i] Let_def)
    qed
  qed
qed

lemma UpsertProducts_batches:
  "snd (UpsertProducts ps d) = snd (upsert_all (batches upsertBatchSize ps) d)"
  "(\<exists>e. fst (UpsertProducts ps d) = Inl e)
     \<longleftrightarrow> (\<exists>e. fst (upsert_all (batches upsertBatchSize ps) d) = Inl e)"
  using upsert_from_batches [of 0 ps d] by (simp_all add: UpsertProducts_def)

text \<open>
  A batch of the loop never exceeds the parameter limit, so \<open>upsertBatch\<close> is one execution of the
  statement on the products with repeated hashes removed.
\<close>

lemma upsertBatch_exec:
  assumes "b \<noteq> []" "length b \<le> upsertBatchSize"
  shows "upsertBatch b d = exec (sql_upsert (dedup_from p_hash [] b)) d"
proof -
  have "length (dedup_from p_hash [] b) \<le> maxBatchSize"
    using dedup_from_length [of p_hash "[]" b] assms(2)
    by (simp add: maxBatchSize_eq upsertBatchSize_def)
  with assms(1) show ?thesis by (simp add: upsertBatch_def Let_def)
qed

lemma sql_upsert_dedup:
  "sql_upsert (dedup_from p_hash [] b) d =
     (Inr (), d\<lparr>tbl_products := fold (upsert_row (now d)) (dedup_from p_hash [] b) (tbl_products d)\<rparr>)"
  by (simp add: sql_upsert_def dedup_from_distinct)

end
