(* ===== verification/Store_Invariants.thy ===== *)
theory Store_Invariants
  imports Product_Store
begin

text \<open>
  Reasoning about the store under interference. The locale \<open>rely\<close> is the interface between an
  operation and the other processes: a predicate \<open>P\<close> on the tables and a rely condition \<open>R\<close> on
  the actions the script may contain, which keep \<open>P\<close>. Inside it, each operation of \<^verbatim>\<open>Product_Store\<close>
  is shown once to keep \<open>P\<close> for every script within \<open>R\<close>, provided its statement does. The
  locale is interpreted here on the table invariant \<open>store_ok\<close>, and in \<^verbatim>\<open>Scrape_Safety\<close> on what
  a scrape run relies on.
\<close>

locale rely =
  fixes P :: "db \<Rightarrow> bool" and R :: "env_action \<Rightarrow> bool"
  assumes env_keeps: "R a \<Longrightarrow> P d \<Longrightarrow> P (apply_env a d)"
    and script_irrelevant: "P d \<Longrightarrow> P (d\<lparr>script := s\<rparr>)"
begin

definition holds :: "db \<Rightarrow> bool" where
  "holds d \<longleftrightarrow> P d \<and> script_all R d"

lemma holdsI: "P d \<Longrightarrow> script_all R d \<Longrightarrow> holds d"
  by (simp add: holds_def)

lemma holds_P: "holds d \<Longrightarrow> P d"
  by (simp add: holds_def)

lemma exec_holds:
  assumes "holds d" "\<And>d. P d \<Longrightarrow> P (snd (st d))" "\<And>d. script (snd (st d)) = script d"
  shows "holds (snd (exec st d))"
  using exec_keeps [of P d R st] assms env_keeps script_irrelevant by (simp add: holds_def)

lemma exec_success:
  assumes "holds d" "exec st d = (Inr x, d')" "\<And>d. script (snd (st d)) = script d"
  shows "\<exists>d1. P d1 \<and> script_all R d' \<and> st d1 = (Inr x, d')"
proof (cases "script d")
  case Nil
  with assms(1,2) assms(3) [of d] show ?thesis
    by (intro exI [of _ d]) (auto simp: holds_def script_all_def)
next
  case (Cons y rest)
  obtain env out where y: "y = (env, out)" by fastforce
  let ?d1 = "fold apply_env env (d\<lparr>script := rest\<rparr>)"
  from Cons y assms(1) have R: "list_all R env" "script_all R ?d1" and P: "P d"
    by (simp_all add: script_all_def holds_def)
  have "P ?d1" by (rule fold_env_keeps [OF R(1) script_irrelevant [OF P] env_keeps])
  moreover have "st ?d1 = (Inr x, d')" "out = Executed"
    using assms(2) Cons y by (cases out, simp_all add: exec_def Let_def)+
  moreover have "script_all R d'"
    using R(2) assms(3) [of ?d1] \<open>st ?d1 = _\<close> by (simp add: script_all_def)
  ultimately show ?thesis by blast
qed

lemma upsertBatch_holds:
  assumes "holds d" "\<And>d. P d \<Longrightarrow> P (snd (sql_upsert (dedup_from p_hash [] b) d))"
  shows "holds (snd (upsertBatch b d))"
  using assms exec_holds [of d "sql_upsert (dedup_from p_hash [] b)"]
  by (simp add: upsertBatch_def Let_def)

lemma upsert_all_holds:
  assumes "holds d"
    and "\<And>b d. b \<in> set bs \<Longrightarrow> P d \<Longrightarrow> P (snd (sql_upsert (dedup_from p_hash [] b) d))"
  shows "holds (snd (upsert_all bs d))"
  using assms
proof (induction bs arbitrary: d)
  case (Cons b bs)
  then have "holds (snd (upsertBatch b d))" by (intro upsertBatch_holds) simp_all
  with Cons show ?case by (auto split: prod.split sum.split)
qed simp

lemma UpsertProducts_holds:
  assumes "holds d"
    and "\<And>b d. set b \<subseteq> set ps \<Longrightarrow> P d \<Longrightarrow> P (snd (sql_upsert (dedup_from p_hash [] b) d))"
  shows "holds (snd (UpsertProducts ps d))"
proof -
  have "set b \<subseteq> set ps" if "b \<in> set (batches upsertBatchSize ps)" for b
  proof -
    have "set b \<subseteq> set (concat (batches upsertBatchSize ps))" using that by auto
    then show ?thesis by (simp add: concat_batches upsertBatchSize_def)
  qed
  with assms show ?thesis
    unfolding UpsertProducts_batches(1) by (intro upsert_all_holds) simp_all
qed

lemma MarkSeen_holds:
  assumes "holds d" "\<And>d. P d \<Longrightarrow> P (snd (sql_mark_seen r (map p_hash ps) d))"
  shows "holds (snd (MarkSeen r ps d))"
  using assms exec_holds [of d "sql_mark_seen r (map p_hash ps)"]
  by (auto simp: MarkSeen_def Let_def split: prod.split sum.split)

lemma ClearSeen_holds:
  assumes "holds d" "\<And>d. P d \<Longrightarrow> P (snd (sql_clear_seen r d))"
  shows "holds (snd (ClearSeen r d))"
  using assms exec_holds [of d "sql_clear_seen r"]
  by (auto simp: ClearSeen_def split: prod.split sum.split)

lemma DeleteStaleProducts_holds:
  assumes "holds d" "\<And>d. P d \<Longrightarrow> P (snd (sql_delete_stale v t r d))"
  shows "holds (snd (DeleteStaleProducts v r t d))"
  using assms exec_holds [of d "sql_delete_stale v t r"]
  by (auto simp: DeleteStaleProducts_def split: prod.split sum.split)

lemma snapshots_from_holds:
  assumes "holds d" "\<And>ss d. P d \<Longrightarrow> P (snd (sql_snapshots ss d))"
  shows "holds (snd (snapshots_from i ps r d))"
  using assms(1)
proof (induction i ps r d rule: snapshots_from.induct)
  case (1 i ps r d)
  let ?stop = "min (i + 1000) (length ps)"
  let ?batch = "take (?stop - i) (drop i ps)"
  let ?st = "sql_snapshots (map (snapshot_of r) ?batch)"
  obtain x d' where r: "exec ?st d = (x, d')" by fastforce
  have h: "holds d'"
    using exec_holds [OF "1.prems", of ?st] assms(2) r by simp
  show ?case
    using 1 r h by (cases x) (auto simp: snapshots_from.simps [of i] Let_def)
qed

lemma RecordPriceSnapshots_holds:
  assumes "holds d" "\<And>ss d. P d \<Longrightarrow> P (snd (sql_snapshots ss d))"
  shows "holds (snd (RecordPriceSnapshots ps r d))"
  using snapshots_from_holds [OF assms] assms(1) by (simp add: RecordPriceSnapshots_def)

lemma StartScrapeRun_holds:
  assumes "holds d" "\<And>d. P d \<Longrightarrow> P (snd (sql_start_run v t d))"
  shows "holds (snd (StartScrapeRun v t d))"
  using assms exec_holds [of d "sql_start_run v t"] by (simp add: StartScrapeRun_def)

lemma FinishScrapeRun_holds:
  assumes "holds d" "\<And>d. P d \<Longrightarrow> P (snd (sql_finish_run r s n k (map_option (take 2000) e) d))"
  shows "holds (snd (FinishScrapeRun r s n k e d))"
  using assms exec_holds [of d "sql_finish_run r s n k (map_option (take 2000) e)"]
  by (simp add: FinishScrapeRun_def)

lemma PruneScrapeRuns_holds:
  assumes "holds d" "\<And>c d. P d \<Longrightarrow> P (snd (sql_prune_runs c d))"
  shows "holds (snd (PruneScrapeRuns n k d))"
  using assms exec_holds [of d "sql_prune_runs (n - k)"]
  by (auto simp: PruneScrapeRuns_def split: prod.split sum.split)

lemma ReapStaleScrapeRuns_holds:
  assumes "holds d" "\<And>c d. P d \<Longrightarrow> P (snd (sql_reap_runs c d))"
  shows "holds (snd (ReapStaleScrapeRuns n k d))"
  using assms exec_holds [of d "sql_reap_runs (n - k)"]
  by (auto simp: ReapStaleScrapeRuns_def split: prod.split sum.split)

lemma AcquireScrapeLock_holds:
  assumes "holds d" "\<And>d. P d \<Longrightarrow> P (snd (sql_try_lock (scrape_lock_key v) d))"
  shows "holds (snd (AcquireScrapeLock v d))"
  using assms exec_holds [of d "sql_try_lock (scrape_lock_key v)"]
  by (auto simp: AcquireScrapeLock_def split: prod.split sum.split)

lemma release_scrape_lock_holds:
  assumes "holds d" "\<And>d. P d \<Longrightarrow> P (snd (sql_unlock (scrape_lock_key v) d))"
  shows "holds (release_scrape_lock v d)"
  using assms exec_holds [of d "sql_unlock (scrape_lock_key v)"]
  by (simp add: release_scrape_lock_def)

end

subsection \<open>The invariant of the tables\<close>

definition run_ok :: "int \<Rightarrow> run \<Rightarrow> bool" where
  "run_ok n x \<longleftrightarrow>
     run_id x < n
     \<and> run_status x \<in> {''running'', ''success'', ''failed''}
     \<and> (run_status x = ''running'' \<longleftrightarrow> run_finished x = None)"

definition store_ok :: "db \<Rightarrow> bool" where
  "store_ok d \<longleftrightarrow>
     0 < next_id d \<and> distinct (map fst (tbl_products d))
     \<and> list_all (\<lambda>(h, x). p_hash (r_product x) = h) (tbl_products d)
     \<and> distinct (tbl_seen d)
     \<and> distinct (map run_id (tbl_runs d)) \<and> list_all (run_ok (next_id d)) (tbl_runs d)
     \<and> list_all (\<lambda>s. sn_run s \<in> run_id ` set (tbl_runs d)) (tbl_snapshots d)"

definition final_status :: "string \<Rightarrow> bool" where
  "final_status s \<longleftrightarrow> s = ''success'' \<or> s = ''failed''"

text \<open>Other processes finish a run with one of the two final states, as this program does.\<close>

definition action_ok :: "env_action \<Rightarrow> bool" where
  "action_ok a = (case a of OtherFinish r s n k e \<Rightarrow> final_status s | _ \<Rightarrow> True)"

lemma update_set: "set (AList.update k v xs) \<subseteq> insert (k, v) (set xs)"
  by (induction xs) auto

lemma hashes_upsert_row:
  assumes "list_all (\<lambda>(h, x). p_hash (r_product x) = h) tbl"
  shows "list_all (\<lambda>(h, x). p_hash (r_product x) = h) (upsert_row t p tbl)"
proof (cases "map_of tbl (p_hash p)")
  case (Some r)
  with assms have "p_hash (r_product r) = p_hash p"
    by (auto simp: list_all_iff dest: map_of_SomeD)
  then have *: "p_hash (r_product (merge_row t p (Some r))) = p_hash p"
    by (simp add: merge_row_def)
  have "list_all (\<lambda>(h, x). p_hash (r_product x) = h) (AList.update (p_hash p) (merge_row t p (Some r)) tbl)"
    unfolding list_all_iff
  proof
    fix y assume "y \<in> set (AList.update (p_hash p) (merge_row t p (Some r)) tbl)"
    then have "y = (p_hash p, merge_row t p (Some r)) \<or> y \<in> set tbl"
      using update_set [of "p_hash p" "merge_row t p (Some r)" tbl] by auto
    with * assms show "case y of (h, x) \<Rightarrow> p_hash (r_product x) = h"
      by (auto simp: list_all_iff)
  qed
  with assms Some show ?thesis
    by (simp add: upsert_row_def merge_row_def split: if_splits)
qed (use assms in \<open>simp add: upsert_row_def\<close>)

lemma hashes_upsert_rows:
  "list_all (\<lambda>(h, x). p_hash (r_product x) = h) tbl \<Longrightarrow>
   list_all (\<lambda>(h, x). p_hash (r_product x) = h) (fold (upsert_row t) ps tbl)"
  by (induction ps arbitrary: tbl) (simp_all add: hashes_upsert_row)

lemma ok_upsert [inv_intros]: "store_ok d \<Longrightarrow> store_ok (snd (sql_upsert ps d))"
  by (simp add: store_ok_def sql_upsert_def run_ok_def keys_upsert_rows hashes_upsert_rows)

lemma mark_distinct:
  "distinct s \<Longrightarrow> distinct (fold (\<lambda>h s. if (r, h) \<in> set s then s else s @ [(r, h)]) hs s)"
  by (induction hs arbitrary: s) auto

lemma mark_set:
  "set (fold (\<lambda>h s. if (r, h) \<in> set s then s else s @ [(r, h)]) hs s) = set s \<union> Pair r ` set hs"
  by (induction hs arbitrary: s) auto

lemma ok_mark_seen [inv_intros]: "store_ok d \<Longrightarrow> store_ok (snd (sql_mark_seen r hs d))"
  by (simp add: store_ok_def sql_mark_seen_def run_ok_def mark_distinct)

lemma ok_clear_seen [inv_intros]: "store_ok d \<Longrightarrow> store_ok (snd (sql_clear_seen r d))"
  by (simp add: store_ok_def sql_clear_seen_def run_ok_def)

lemma ok_delete_stale [inv_intros]: "store_ok d \<Longrightarrow> store_ok (snd (sql_delete_stale v t r d))"
  by (auto simp: store_ok_def sql_delete_stale_def run_ok_def list_all_iff distinct_map_filter)

lemma ok_start_run [inv_intros]: "store_ok d \<Longrightarrow> store_ok (snd (sql_start_run v t d))"
  by (fastforce simp: store_ok_def sql_start_run_def run_ok_def list_all_iff)

lemma map_run_id:
  "(\<And>x. run_id (f x) = run_id x) \<Longrightarrow> map run_id (map f xs) = map run_id xs"
  by simp

lemma ok_map_runs:
  assumes "store_ok d" "\<And>x. run_id (f x) = run_id x" "\<And>x. run_ok (next_id d) x \<Longrightarrow> run_ok (next_id d) (f x)"
  shows "store_ok (d\<lparr>tbl_runs := map f (tbl_runs d)\<rparr>)"
proof -
  have "list_all (run_ok (next_id d)) (map f (tbl_runs d))"
    using assms(1,3) by (auto simp: store_ok_def list_all_iff)
  moreover have "run_id ` f ` set (tbl_runs d) = run_id ` set (tbl_runs d)"
    using assms(2) by (auto simp: image_iff)
  ultimately show ?thesis using assms(1,2) by (simp add: store_ok_def comp_def)
qed

lemma ok_finish_run [inv_intros]:
  "store_ok d \<Longrightarrow> final_status s \<Longrightarrow> store_ok (snd (sql_finish_run r s n k e d))"
  unfolding sql_finish_run_def snd_conv
  by (rule ok_map_runs) (auto simp: finish_row_def run_ok_def final_status_def)

lemma ok_reap_runs [inv_intros]: "store_ok d \<Longrightarrow> store_ok (snd (sql_reap_runs c d))"
  unfolding sql_reap_runs_def snd_conv
  by (rule ok_map_runs) (auto simp: reap_row_def run_ok_def)

lemma ok_prune_runs [inv_intros]: "store_ok d \<Longrightarrow> store_ok (snd (sql_prune_runs c d))"
  by (auto simp: store_ok_def sql_prune_runs_def run_ok_def list_all_iff distinct_map_filter)
    (fastforce simp: image_iff)

lemma ok_snapshots [inv_intros]: "store_ok d \<Longrightarrow> store_ok (snd (sql_snapshots ss d))"
  by (simp add: store_ok_def sql_snapshots_def run_ok_def)

lemma ok_try_lock [inv_intros]: "store_ok d \<Longrightarrow> store_ok (snd (sql_try_lock k d))"
  by (simp add: store_ok_def sql_try_lock_def run_ok_def)

lemma ok_unlock [inv_intros]: "store_ok d \<Longrightarrow> store_ok (snd (sql_unlock k d))"
  by (simp add: store_ok_def sql_unlock_def run_ok_def)

lemma ok_env: "action_ok a \<Longrightarrow> store_ok d \<Longrightarrow> store_ok (apply_env a d)"
  by (cases a) (simp_all add: apply_env_def action_ok_def inv_intros,
    simp_all add: store_ok_def run_ok_def)

interpretation st: rely store_ok action_ok
  by unfold_locales (simp_all add: ok_env, simp add: store_ok_def run_ok_def)

end
