(* ===== verification/Scrape_Run.thy ===== *)
theory Scrape_Run
  imports Store_Invariants
begin

text \<open>
  One vendor's scrape run, \<open>runOneScrape\<close> of \<^verbatim>\<open>cmd/server/main.go\<close>, and the command that runs the
  vendors. A scraper is what the interface of \<^verbatim>\<open>internal/scraper/scraper.go\<close> says: a name, a
  \<open>ScrapeWithHandler\<close> that hands batches of products to a handler, and the count of failed
  services. The deferred calls of the code (clearing the seen-set, releasing the lock) run on every
  path after the point where they are registered, the later registered first.
\<close>

record run_state =
  rs_db :: db
  rs_total :: int

type_synonym handler = "product list \<Rightarrow> run_state \<Rightarrow> string option \<times> run_state"

text \<open>\<open>sc_scrape h s\<close>: the error of \<open>ScrapeWithHandler\<close>, \<open>FailedServices\<close>, the state after.\<close>

record scraper =
  sc_name :: string
  sc_scrape :: "handler \<Rightarrow> run_state \<Rightarrow> string option \<times> int \<times> run_state"

subsection \<open>The guards\<close>

definition emptyScrapeError :: "int \<Rightarrow> int \<Rightarrow> string option" where
  "emptyScrapeError products failedServices =
     (if products > 0 then None
      else if failedServices > 0 then
        Some (''scrape ingested 0 products and '' @ show_int failedServices
              @ '' service(s) failed: check the vendor credentials and upstream API'')
      else Some ''scrape ingested 0 products: check the vendor credentials and upstream API'')"

definition seenSetComplete :: "int \<Rightarrow> int \<Rightarrow> bool" where
  "seenSetComplete seen ingested \<longleftrightarrow> seen > 0 \<and> seen \<ge> go_div ingested 2"

definition deleteStaleIfSeenSetComplete :: "string \<Rightarrow> int \<Rightarrow> int \<Rightarrow> int \<Rightarrow> int stmt" where
  "deleteStaleIfSeenSetComplete vendor runID scrapeStart ingested d =
     (case exec (sql_count_seen runID) d of
        (Inl e, d) \<Rightarrow> (Inl (''count scrape_seen: '' @ e), d)
      | (Inr seen, d) \<Rightarrow>
          if \<not> seenSetComplete seen ingested then (Inr 0, d)
          else DeleteStaleProducts vendor runID scrapeStart d)"

text \<open>
  The retention window in nanoseconds, from the value of \<open>SCRAPE_RUNS_RETENTION_DAYS\<close>. A \<open>time.Duration\<close>
  has 64 bits, so the product wraps for more than 106751 days.
\<close>

definition duration :: "int \<Rightarrow> int" where "duration n = (n - min_int64) mod 2 ^ 64 + min_int64"

lemma duration_id: "in_int64 n \<Longrightarrow> duration n = n"
  by (simp add: duration_def in_int64_def min_int64_def max_int64_def)

definition nanos_per_day :: int where "nanos_per_day = 24 * 3600 * 1000000000"

definition scrapeRunRetention :: "string \<Rightarrow> int" where
  "scrapeRunRetention v =
     (let days = (if v \<noteq> '''' then (case parse_int v of Some n \<Rightarrow> if n \<ge> 0 then n else 30 | None \<Rightarrow> 30)
                  else 30)
      in duration (days * nanos_per_day))"

subsection \<open>The handler\<close>

definition scrape_handler :: "int \<Rightarrow> bool \<Rightarrow> handler" where
  "scrape_handler runID recordSnapshots products s =
     (case UpsertProducts products (rs_db s) of
        (Inl e, d) \<Rightarrow> (Some e, s\<lparr>rs_db := d\<rparr>)
      | (Inr _, d) \<Rightarrow>
          (case MarkSeen runID products d of
             (Inl e, d) \<Rightarrow> (Some e, s\<lparr>rs_db := d\<rparr>)
           | (Inr _, d) \<Rightarrow>
               (let d = (if recordSnapshots then snd (RecordPriceSnapshots products runID d) else d)
                in (None, \<lparr>rs_db = d, rs_total = rs_total s + int (length products)\<rparr>))))"

subsection \<open>The end of a run\<close>

text \<open>The switch that decides on stale cleanup, and how many rows it deleted.\<close>

definition stale_cleanup :: "string \<Rightarrow> int \<Rightarrow> int \<Rightarrow> int \<Rightarrow> int \<Rightarrow> int \<Rightarrow> db \<Rightarrow> int \<times> db" where
  "stale_cleanup vendor runID scrapeStart failedSvcs prevCount currentCount d =
     (if failedSvcs > 0 then (0, d)
      else if prevCount > 0 \<and> currentCount < go_div prevCount 2 then (0, d)
      else (case deleteStaleIfSeenSetComplete vendor runID scrapeStart currentCount d of
              (Inl e, d) \<Rightarrow> (0, d)
            | (Inr deleted, d) \<Rightarrow> (deleted, d)))"

text \<open>
  Everything after \<open>ScrapeWithHandler\<close>: the returned pair, whether the freshness gauge was set
  (\<open>SetScrapeLastSuccess\<close>), and the tables.
\<close>

definition after_scrape ::
  "string \<Rightarrow> string \<Rightarrow> int \<Rightarrow> int \<Rightarrow> int \<Rightarrow> int \<Rightarrow> string option \<times> int \<times> run_state
     \<Rightarrow> (string + bool) \<times> bool \<times> db" where
  "after_scrape name vendor runID scrapeStart appNow retain r =
     (case r of (err, failedSvcs, s) \<Rightarrow>
      case err of
        Some e \<Rightarrow>
          (let d = snd (FinishScrapeRun runID ''failed'' (rs_total s) 0 (Some e) (rs_db s))
           in (Inl (''scrape '' @ name @ '' failed: '' @ e), False, d))
      | None \<Rightarrow>
          (case exec (sql_prev_count vendor) (rs_db s) of (q, d) \<Rightarrow>
           let prevCount = (case q of Inl _ \<Rightarrow> 0 | Inr n \<Rightarrow> n);
               currentCount = rs_total s
           in case emptyScrapeError currentCount failedSvcs of
                Some emptyErr \<Rightarrow>
                  (Inr False, False, snd (FinishScrapeRun runID ''failed'' 0 0 (Some emptyErr) d))
              | None \<Rightarrow>
                  (case stale_cleanup vendor runID scrapeStart failedSvcs prevCount currentCount d of
                     (deleted, d) \<Rightarrow>
                       (let d = snd (FinishScrapeRun runID ''success'' (rs_total s) deleted None d);
                            d = snd (PruneScrapeRuns appNow retain d)
                        in (Inr True, True, d)))))"

text \<open>The run under the lock.\<close>

definition locked_run ::
  "scraper \<Rightarrow> bool \<Rightarrow> int \<Rightarrow> int \<Rightarrow> db \<Rightarrow> (string + bool) \<times> bool \<times> db" where
  "locked_run sc recordSnapshots appNow retain d =
     (case exec sql_now d of
        (Inl e, d) \<Rightarrow> (Inl (''failed to get DB time: '' @ e), False, d)
      | (Inr scrapeStart, d) \<Rightarrow>
          (case StartScrapeRun (to_lower (sc_name sc)) scrapeStart d of
             (Inl e, d) \<Rightarrow> (Inl (''start scrape run record: '' @ e), False, d)
           | (Inr runID, d) \<Rightarrow>
               (case after_scrape (sc_name sc) (to_lower (sc_name sc)) runID scrapeStart appNow retain
                       (sc_scrape sc (scrape_handler runID recordSnapshots)
                          \<lparr>rs_db = d, rs_total = 0\<rparr>) of
                  (res, fresh, d) \<Rightarrow> (res, fresh, snd (ClearSeen runID d)))))"

definition runOneScrape ::
  "scraper \<Rightarrow> bool \<Rightarrow> int \<Rightarrow> int \<Rightarrow> db \<Rightarrow> (string + bool) \<times> bool \<times> db" where
  "runOneScrape sc recordSnapshots appNow retain d =
     (case AcquireScrapeLock (to_lower (sc_name sc)) d of
        (Inl e, d) \<Rightarrow> (Inl (''acquire scrape lock for '' @ sc_name sc @ '': '' @ e), False, d)
      | (Inr locked, d) \<Rightarrow>
          if \<not> locked then (Inr True, False, d)
          else (case locked_run sc recordSnapshots appNow retain d of
                  (res, fresh, d) \<Rightarrow> (res, fresh, release_scrape_lock (to_lower (sc_name sc)) d)))"

subsection \<open>The command\<close>

text \<open>
  \<open>scrape --vendor\<close>: the vendors to run, each with its scraper, and what the command reports. The
  runs share an error group: the first error is the command's error. The results are given in the
  order the runs end.
\<close>

definition vendors_of :: "string \<Rightarrow> string \<Rightarrow> string + string list" where
  "vendors_of vendor gcpKey =
     (if (vendor = ''gcp'' \<or> vendor = ''all'') \<and> gcpKey = ''''
      then Inl ''GCP_API_KEY is required for GCP scraping, set it in your .env file''
      else if vendor = ''aws'' then Inr [''AWS'']
      else if vendor = ''azure'' then Inr [''Azure'']
      else if vendor = ''gcp'' then Inr [''GCP'']
      else if vendor = ''all'' then Inr [''AWS'', ''Azure'', ''GCP'']
      else Inl (''unknown vendor: '' @ vendor @ '' (use aws, azure, gcp, or all)''))"

definition command_result :: "(string \<times> (string + bool)) list \<Rightarrow> string option" where
  "command_result results =
     (case filter (\<lambda>(v, r). isl r) results of
        (v, Inl e) # _ \<Rightarrow> Some e
      | _ \<Rightarrow>
          (let empty = map (\<lambda>(v, r). to_lower v) (filter (\<lambda>(v, r). r = Inr False) results) in
           if empty \<noteq> [] then
             Some (''scrape ingested 0 products for: '' @ join '', '' (sort empty)
                   @ '' (recorded as failed; check credentials and logs)'')
           else None))"

end
