(* ===== verification/Scrape_Safety.thy ===== *)
theory Scrape_Safety
  imports Scrape_Run
begin

text \<open>
  What a scrape run guarantees. \<open>delivers\<close> is what \<open>runOneScrape\<close> relies on of a scraper
  (\<^verbatim>\<open>Scraper_Contract\<close> makes it an interface); the invariants \<open>kept\<close> and \<open>run_inv\<close> say what the run
  relies on between its statements, and the rely locale of \<^verbatim>\<open>Store_Invariants\<close> is interpreted on both.
\<close>

subsection \<open>Scrapers\<close>

text \<open>Feeding batches to a handler, going on after a batch it rejects.\<close>

fun feed :: "handler \<Rightarrow> product list list \<Rightarrow> run_state \<Rightarrow> bool list \<times> run_state" where
  "feed h [] s = ([], s)"
| "feed h (b # bs) s =
     (case h b s of (e, s') \<Rightarrow> (case feed h bs s' of (oks, s'') \<Rightarrow> ((e = None) # oks, s'')))"

lemma feed_append:
  "feed h (as @ bs) s = (case feed h as s of (o1, s) \<Rightarrow> (case feed h bs s of (o2, s) \<Rightarrow> (o1 @ o2, s)))"
  by (induction as arbitrary: s) (auto split: prod.splits)

text \<open>
  The law of the interface: all a scraper does to the state is to hand batches to its handler, and
  when it reports success and no failed service, no call of the handler failed. \<open>delivers\<close> names
  the batches.
\<close>

definition delivers :: "scraper \<Rightarrow> handler \<Rightarrow> run_state \<Rightarrow> product list list \<Rightarrow> bool" where
  "delivers sc h s bs \<longleftrightarrow>
     (case sc_scrape sc h s of (err, failed, s') \<Rightarrow>
        s' = snd (feed h bs s)
        \<and> (err = None \<and> failed = 0 \<longrightarrow> list_all id (fst (feed h bs s))))"



text \<open>Scrapers that hand over a fixed list of batches and report failures by a rule.\<close>

definition replay ::
  "string \<Rightarrow> product list list \<Rightarrow> (bool list \<Rightarrow> string option) \<Rightarrow> (bool list \<Rightarrow> int) \<Rightarrow> scraper" where
  "replay name bs err failed =
     \<lparr>sc_name = name,
      sc_scrape = (\<lambda>h s. case feed h bs s of (oks, s') \<Rightarrow> (err oks, failed oks, s'))\<rparr>"

lemma replay_delivers:
  "(\<And>oks. err oks = None \<Longrightarrow> failed oks = 0 \<Longrightarrow> list_all id oks) \<Longrightarrow>
   delivers (replay name bs err failed) h s bs"
  by (auto simp: delivers_def replay_def split: prod.split)

subsection \<open>What the run relies on\<close>

text \<open>
  \<open>vo\<close> gives the vendor a product hash belongs to: the hash covers the vendor name, so two vendors
  never share one unless the digest collides. \<open>kept vo v H\<close>: every hash of \<open>H\<close> has a row, and
  each row is stored under the vendor of its hash.
\<close>

definition vendors_agree :: "(string \<Rightarrow> string) \<Rightarrow> product list \<Rightarrow> bool" where
  "vendors_agree vo ps \<longleftrightarrow> list_all (\<lambda>p. p_vendor p = vo (p_hash p)) ps"

definition kept :: "(string \<Rightarrow> string) \<Rightarrow> string \<Rightarrow> string set \<Rightarrow> db \<Rightarrow> bool" where
  "kept vo v H d \<longleftrightarrow>
     store_ok d \<and> H \<subseteq> dom (map_of (tbl_products d)) \<and> (\<forall>h \<in> H. vo h = v)
     \<and> list_all (\<lambda>(h, x). p_vendor (r_product x) = vo h) (tbl_products d)"

text \<open>
  \<open>run_inv vo v r t0 H K\<close>: while run \<open>r\<close> is in flight, the hashes of \<open>K\<close> have a row and those
  of \<open>H\<close> are in its seen-set too.
\<close>

definition run_inv ::
  "(string \<Rightarrow> string) \<Rightarrow> string \<Rightarrow> int \<Rightarrow> int \<Rightarrow> string set \<Rightarrow> string set \<Rightarrow> db \<Rightarrow> bool" where
  "run_inv vo v r t0 H K d \<longleftrightarrow>
     kept vo v K d \<and> H \<subseteq> K \<and> Pair r ` H \<subseteq> set (tbl_seen d)
     \<and> (\<exists>x \<in> set (tbl_runs d). run_id x = r \<and> run_status x = ''running'' \<and> run_started x = t0)"

text \<open>Other processes do not clean up this vendor's products (the lock keeps them from it).\<close>

definition polite :: "(string \<Rightarrow> string) \<Rightarrow> string \<Rightarrow> env_action \<Rightarrow> bool" where
  "polite vo v a =
     (case a of
        OtherUpsert ps \<Rightarrow> vendors_agree vo ps
      | OtherDeleteStale v' t r' \<Rightarrow> v' \<noteq> v
      | OtherFinish r' s n k e \<Rightarrow> final_status s
      | _ \<Rightarrow> True)"

text \<open>
  During the run, moreover: no crash recovery empties the seen-set, nobody else finishes this run
  or clears its seen-set, and the reaper does not reach it (its cutoff is before the run's start).
\<close>

definition benign :: "(string \<Rightarrow> string) \<Rightarrow> string \<Rightarrow> int \<Rightarrow> int \<Rightarrow> env_action \<Rightarrow> bool" where
  "benign vo v r t0 a \<longleftrightarrow> polite vo v a \<and>
     (case a of
        CrashRecovery \<Rightarrow> False
      | ReapBefore c \<Rightarrow> c \<le> t0
      | OtherClearSeen r' \<Rightarrow> r' \<noteq> r
      | OtherFinish r' s n k e \<Rightarrow> r' \<noteq> r
      | _ \<Rightarrow> True)"

lemma vendor_upsert_row:
  assumes "list_all (\<lambda>(h, x). p_vendor (r_product x) = vo h) tbl" "p_vendor p = vo (p_hash p)"
  shows "list_all (\<lambda>(h, x). p_vendor (r_product x) = vo h) (upsert_row t p tbl)"
proof (cases "map_of tbl (p_hash p)")
  case (Some r)
  with assms have "p_vendor (r_product r) = vo (p_hash p)"
    by (auto simp: list_all_iff dest: map_of_SomeD)
  then have *: "p_vendor (r_product (merge_row t p (Some r))) = vo (p_hash p)"
    by (simp add: merge_row_vendor)
  have "list_all (\<lambda>(h, x). p_vendor (r_product x) = vo h) (AList.update (p_hash p) (merge_row t p (Some r)) tbl)"
    unfolding list_all_iff
  proof
    fix y assume "y \<in> set (AList.update (p_hash p) (merge_row t p (Some r)) tbl)"
    then have "y = (p_hash p, merge_row t p (Some r)) \<or> y \<in> set tbl"
      using update_set [of "p_hash p" "merge_row t p (Some r)" tbl] by auto
    with * assms show "case y of (h, x) \<Rightarrow> p_vendor (r_product x) = vo h"
      by (auto simp: list_all_iff)
  qed
  with assms Some show ?thesis
    by (simp add: upsert_row_def merge_row_def split: if_splits)
qed (use assms in \<open>simp add: upsert_row_def\<close>)

lemma vendor_upsert_rows:
  "list_all (\<lambda>(h, x). p_vendor (r_product x) = vo h) tbl \<Longrightarrow> vendors_agree vo ps \<Longrightarrow>
   list_all (\<lambda>(h, x). p_vendor (r_product x) = vo h) (fold (upsert_row t) ps tbl)"
  by (induction ps arbitrary: tbl) (simp_all add: vendor_upsert_row vendors_agree_def)

lemma vendors_agree_subset: "vendors_agree vo ps \<Longrightarrow> set qs \<subseteq> set ps \<Longrightarrow> vendors_agree vo qs"
  by (auto simp: vendors_agree_def list_all_iff)

lemma map_of_filter_keep:
  assumes "distinct (map fst xs)" "map_of xs k = Some v" "Q (k, v)"
  shows "map_of (filter Q xs) k = Some v"
  using assms by (induction xs) (auto simp: map_of_eq_None_iff split: if_splits dest: map_of_SomeD)

lemma kept_frame:
  "kept vo v H d \<Longrightarrow> tbl_products d' = tbl_products d \<Longrightarrow> store_ok d' \<Longrightarrow> kept vo v H d'"
  by (simp add: kept_def)

lemma kept_upsert [inv_intros]:
  assumes "kept vo v H d" "vendors_agree vo ps"
  shows "kept vo v H (snd (sql_upsert ps d))"
  using assms ok_upsert [of d ps]
  by (auto simp: kept_def sql_upsert_def dom_upsert_rows vendor_upsert_rows)

lemma kept_upsert_new:
  assumes "kept vo v H d" "vendors_agree vo ps" "distinct (map p_hash ps)"
    and "\<forall>p \<in> set ps. p_vendor p = v"
  shows "kept vo v (H \<union> p_hash ` set ps) (snd (sql_upsert ps d))"
  using kept_upsert [OF assms(1,2)] assms(2-)
  by (auto simp: kept_def sql_upsert_def dom_upsert_rows vendors_agree_def list_all_iff)

lemma kept_delete_other [inv_intros]:
  assumes "kept vo v H d" "v' \<noteq> v"
  shows "kept vo v H (snd (sql_delete_stale v' t r d))"
proof -
  have "map_of (filter (\<lambda>x. \<not> stale_row d v' t r x) (tbl_products d)) h \<noteq> None" if "h \<in> H" for h
  proof -
    from assms(1) that obtain x where x: "map_of (tbl_products d) h = Some x" "vo h = v"
      by (auto simp: kept_def)
    with assms have "p_vendor (r_product x) = v"
      by (auto simp: kept_def list_all_iff dest: map_of_SomeD)
    with x assms have "map_of (filter (\<lambda>x. \<not> stale_row d v' t r x) (tbl_products d)) h = Some x"
      by (intro map_of_filter_keep) (auto simp: kept_def store_ok_def stale_row_def)
    then show ?thesis by simp
  qed
  with assms(1) ok_delete_stale [of d v' t r] show ?thesis
    by (auto simp: kept_def sql_delete_stale_def list_all_iff)
qed

text \<open>The run's own cleanup keeps what is in its seen-set.\<close>

lemma kept_delete_own:
  assumes "kept vo v H d" "Pair r ` H \<subseteq> set (tbl_seen d)"
  shows "kept vo v H (snd (sql_delete_stale v' t r d))"
proof -
  have "map_of (filter (\<lambda>x. \<not> stale_row d v' t r x) (tbl_products d)) h \<noteq> None" if "h \<in> H" for h
  proof -
    from assms(1) that obtain x where x: "map_of (tbl_products d) h = Some x"
      by (auto simp: kept_def)
    with assms that have "map_of (filter (\<lambda>x. \<not> stale_row d v' t r x) (tbl_products d)) h = Some x"
      by (intro map_of_filter_keep) (auto simp: kept_def store_ok_def stale_row_def)
    then show ?thesis by simp
  qed
  with assms(1) ok_delete_stale [of d v' t r] show ?thesis
    by (auto simp: kept_def sql_delete_stale_def list_all_iff)
qed

lemma kept_others [inv_intros]:
  assumes "kept vo v H d"
  shows "kept vo v H (snd (sql_mark_seen r hs d))" "kept vo v H (snd (sql_clear_seen r d))"
    "kept vo v H (snd (sql_snapshots ss d))" "kept vo v H (snd (sql_start_run w t d))"
    "kept vo v H (snd (sql_prune_runs c d))" "kept vo v H (snd (sql_reap_runs c d))"
    "kept vo v H (snd (sql_try_lock k d))" "kept vo v H (snd (sql_unlock k d))"
    "final_status s \<Longrightarrow> kept vo v H (snd (sql_finish_run r s n j e d))"
  using assms
  by (auto intro!: kept_frame [OF assms] inv_intros
      simp: kept_def, auto simp: sql_defs split: if_splits)

lemma kept_env: "polite vo v a \<Longrightarrow> kept vo v H d \<Longrightarrow> kept vo v H (apply_env a d)"
  by (cases a) (auto simp: apply_env_def polite_def inv_intros,
    auto simp: kept_def store_ok_def)

interpretation kp: rely "kept vo v H" "polite vo v" for vo v H
  by unfold_locales (simp_all add: kept_env, simp add: kept_def store_ok_def)

subsection \<open>The statements of a run in flight\<close>

lemma run_inv_frame:
  assumes "run_inv vo v r t0 H K d" "kept vo v K d'"
    "set (tbl_seen d) \<subseteq> set (tbl_seen d')" "set (tbl_runs d) \<subseteq> set (tbl_runs d')"
  shows "run_inv vo v r t0 H K d'"
  using assms by (auto simp: run_inv_def)

lemma run_inv_kept: "run_inv vo v r t0 H K d \<Longrightarrow> kept vo v K d"
  by (simp add: run_inv_def)

lemma kept_store_ok: "kept vo v H d \<Longrightarrow> store_ok d"
  by (simp add: kept_def)

lemma kept_mono: "kept vo v K d \<Longrightarrow> H \<subseteq> K \<Longrightarrow> kept vo v H d"
  by (auto simp: kept_def)

lemma run_inv_upsert:
  "run_inv vo v r t0 H K d \<Longrightarrow> vendors_agree vo ps \<Longrightarrow> run_inv vo v r t0 H K (snd (sql_upsert ps d))"
  by (rule run_inv_frame) (auto simp: kept_upsert run_inv_kept, auto simp: sql_upsert_def)

lemma run_inv_upsert_new:
  assumes "run_inv vo v r t0 H K d" "vendors_agree vo ps" "distinct (map p_hash ps)"
    "\<forall>p \<in> set ps. p_vendor p = v"
  shows "run_inv vo v r t0 H (K \<union> p_hash ` set ps) (snd (sql_upsert ps d))"
  using assms kept_upsert_new [OF run_inv_kept [OF assms(1)] assms(2-)]
  by (auto simp: run_inv_def, auto simp: sql_upsert_def)

lemma run_inv_mark:
  "run_inv vo v r t0 H K d \<Longrightarrow> run_inv vo v r t0 H K (snd (sql_mark_seen r' hs d))"
  by (rule run_inv_frame) (auto simp: kept_others run_inv_kept, auto simp: sql_mark_seen_def mark_set)

lemma run_inv_mark_new:
  assumes "run_inv vo v r t0 H K d" "set hs \<subseteq> K"
  shows "run_inv vo v r t0 (H \<union> set hs) K (snd (sql_mark_seen r hs d))"
  using assms kept_others(1) [OF run_inv_kept [OF assms(1)]]
  by (auto simp: run_inv_def sql_mark_seen_def mark_set)

lemma run_inv_others:
  assumes "run_inv vo v r t0 H K d"
  shows "run_inv vo v r t0 H K (snd (sql_snapshots ss d))"
    "run_inv vo v r t0 H K (snd (sql_start_run w t d))"
    "run_inv vo v r t0 H K (snd (sql_try_lock k d))"
    "run_inv vo v r t0 H K (snd (sql_unlock k d))"
  by (rule run_inv_frame [OF assms];
      (simp add: kept_others run_inv_kept [OF assms]; fail)?; auto simp: sql_defs)+

lemma run_inv_delete_other:
  "run_inv vo v r t0 H K d \<Longrightarrow> v' \<noteq> v \<Longrightarrow> run_inv vo v r t0 H K (snd (sql_delete_stale v' t r' d))"
  by (rule run_inv_frame) (auto simp: kept_delete_other run_inv_kept, auto simp: sql_delete_stale_def)

lemma run_inv_delete_own:
  assumes "run_inv vo v r t0 H K d"
  shows "run_inv vo v r t0 H H (snd (sql_delete_stale v' t r d))"
  using assms kept_delete_own [of vo v H d r v' t]
  by (auto simp: run_inv_def kept_mono, auto simp: sql_delete_stale_def)

lemma run_inv_reads:
  "snd (sql_now d) = d" "snd (sql_count_seen r d) = d" "snd (sql_prev_count v d) = d"
  by (simp_all add: sql_defs split: option.splits)

lemma run_inv_clear_other:
  assumes "run_inv vo v r t0 H K d" "r' \<noteq> r"
  shows "run_inv vo v r t0 H K (snd (sql_clear_seen r' d))"
proof -
  have "run_is_running d r"
    using assms(1) by (auto simp: run_inv_def run_is_running_def list_ex_iff)
  with assms kept_others(2) [OF run_inv_kept [OF assms(1)], of r'] show ?thesis
    by (auto simp: run_inv_def, auto simp: sql_clear_seen_def)
qed

lemma run_inv_finish_other:
  assumes "run_inv vo v r t0 H K d" "r' \<noteq> r" "final_status s"
  shows "run_inv vo v r t0 H K (snd (sql_finish_run r' s n k e d))"
proof -
  from assms(1) obtain x where x: "x \<in> set (tbl_runs d)" "run_id x = r" "run_status x = ''running''"
      "run_started x = t0"
    by (auto simp: run_inv_def)
  have "x \<in> set (tbl_runs (snd (sql_finish_run r' s n k e d)))"
    using x assms(2) by (force simp: sql_finish_run_def)
  with assms x kept_others(9) [OF run_inv_kept [OF assms(1)]] show ?thesis
    by (auto simp: run_inv_def sql_finish_run_def)
qed

lemma run_inv_prune:
  assumes "run_inv vo v r t0 H K d"
  shows "run_inv vo v r t0 H K (snd (sql_prune_runs c d))"
proof -
  from assms obtain x where x: "x \<in> set (tbl_runs d)" "run_id x = r" "run_status x = ''running''"
      "run_started x = t0"
    by (auto simp: run_inv_def)
  moreover have "run_finished x = None"
    using assms x by (auto simp: run_inv_def kept_def store_ok_def run_ok_def list_all_iff)
  ultimately show ?thesis
    using assms kept_others(5) [OF run_inv_kept [OF assms]]
    by (auto simp: run_inv_def sql_prune_runs_def prunable_def)
qed

lemma run_inv_reap:
  assumes "run_inv vo v r t0 H K d" "c \<le> t0"
  shows "run_inv vo v r t0 H K (snd (sql_reap_runs c d))"
proof -
  from assms(1) obtain x where x: "x \<in> set (tbl_runs d)" "run_id x = r" "run_status x = ''running''"
      "run_started x = t0"
    by (auto simp: run_inv_def)
  have "x \<in> set (tbl_runs (snd (sql_reap_runs c d)))"
    using x assms(2) by (force simp: sql_reap_runs_def reapable_def)
  then have "\<exists>x \<in> set (tbl_runs (snd (sql_reap_runs c d))).
      run_id x = r \<and> run_status x = ''running'' \<and> run_started x = t0"
    using x by (rule_tac bexI [of _ x]) simp_all
  moreover have "tbl_seen (snd (sql_reap_runs c d)) = tbl_seen d"
    by (simp add: sql_reap_runs_def)
  ultimately show ?thesis
    using assms(1) kept_others(6) [OF run_inv_kept [OF assms(1)], of c]
    by (simp add: run_inv_def)
qed

lemma run_inv_env:
  assumes "benign vo v r t0 a" "run_inv vo v r t0 H K d"
  shows "run_inv vo v r t0 H K (apply_env a d)"
proof (cases a)
  case (Tick n)
  then show ?thesis
    using assms by (auto simp: apply_env_def run_inv_def kept_def store_ok_def)
qed (use assms in \<open>simp_all add: apply_env_def benign_def polite_def run_inv_upsert run_inv_mark
    run_inv_clear_other run_inv_delete_other run_inv_others run_inv_finish_other run_inv_prune
    run_inv_reap\<close>)

interpretation ri: rely "run_inv vo v r t0 H K" "benign vo v r t0" for vo v r t0 H K
  by unfold_locales (simp_all add: run_inv_env, simp add: run_inv_def kept_def store_ok_def)

subsection \<open>The handler under interference\<close>

definition own_products :: "(string \<Rightarrow> string) \<Rightarrow> string \<Rightarrow> product list \<Rightarrow> bool" where
  "own_products vo v ps \<longleftrightarrow> list_all (\<lambda>p. p_vendor p = v \<and> vo (p_hash p) = v) ps"

lemma own_agree: "own_products vo v ps \<Longrightarrow> vendors_agree vo ps"
  by (auto simp: own_products_def vendors_agree_def list_all_iff)

lemma own_subset: "own_products vo v ps \<Longrightarrow> set qs \<subseteq> set ps \<Longrightarrow> own_products vo v qs"
  by (auto simp: own_products_def list_all_iff)

lemma hashes_dedup: "p_hash ` set (dedup_from p_hash [] b) = p_hash ` set b"
  using dedup_from_keys [of p_hash "[]" b] by auto

lemma upsert_all_run_inv:
  assumes "ri.holds vo v r t0 H K d" "\<forall>b \<in> set bs. own_products vo v b"
    "upsert_all bs d = (Inr x, d')"
  shows "ri.holds vo v r t0 H (K \<union> p_hash ` set (concat bs)) d'"
  using assms
proof (induction bs arbitrary: d K)
  case (Cons b bs)
  obtain y d1 where 1: "upsertBatch b d = (Inr y, d1)" "upsert_all bs d1 = (Inr x, d')"
    using Cons.prems(3) by (auto split: prod.splits sum.splits)
  let ?st = "sql_upsert (dedup_from p_hash [] b)"
  have own: "own_products vo v (dedup_from p_hash [] b)"
    using Cons.prems(2) dedup_from_subset [of p_hash "[]" b] own_subset by auto
  have "ri.holds vo v r t0 H (K \<union> p_hash ` set b) d1"
  proof (cases "b = []")
    case False
    with 1(1) have e: "exec ?st d = (Inr y, d1)"
      by (simp add: upsertBatch_def Let_def split: if_splits)
    obtain d0 where d0: "run_inv vo v r t0 H K d0" "script_all (benign vo v r t0) d1" "?st d0 = (Inr y, d1)"
      using ri.exec_success [OF Cons.prems(1) e] by auto
    with run_inv_upsert_new [OF d0(1) own_agree [OF own]] own show ?thesis
      by (intro ri.holdsI)
        (simp_all add: dedup_from_distinct hashes_dedup own_products_def list_all_iff)
  qed (use 1(1) Cons.prems(1) in \<open>simp add: upsertBatch_def\<close>)
  from Cons.IH [OF this _ 1(2)] Cons.prems(2) show ?case by (simp add: Un_assoc image_Un)
qed simp

lemma UpsertProducts_run_inv:
  assumes "ri.holds vo v r t0 H K d" "own_products vo v ps"
  shows "UpsertProducts ps d = (Inr x, d') \<Longrightarrow> ri.holds vo v r t0 H (K \<union> p_hash ` set ps) d'"
    "ri.holds vo v r t0 H K (snd (UpsertProducts ps d))"
proof -
  assume u: "UpsertProducts ps d = (Inr x, d')"
  have c: "concat (batches upsertBatchSize ps) = ps"
    by (simp add: concat_batches upsertBatchSize_def)
  obtain y where "upsert_all (batches upsertBatchSize ps) d = (Inr y, d')"
    using UpsertProducts_batches [where ps = ps and d = d] u
    by (cases "upsert_all (batches upsertBatchSize ps) d"; cases "fst (upsert_all (batches upsertBatchSize ps) d)") auto
  moreover have "\<forall>b \<in> set (batches upsertBatchSize ps). own_products vo v b"
  proof
    fix b assume "b \<in> set (batches upsertBatchSize ps)"
    then have "set b \<subseteq> set (concat (batches upsertBatchSize ps))" by auto
    with c own_subset [OF assms(2)] show "own_products vo v b" by simp
  qed
  ultimately show "ri.holds vo v r t0 H (K \<union> p_hash ` set ps) d'"
    using upsert_all_run_inv [OF assms(1)] c by metis
next
  show "ri.holds vo v r t0 H K (snd (UpsertProducts ps d))"
    using assms(1)
  proof (rule ri.UpsertProducts_holds)
    fix b d assume "set b \<subseteq> set ps" "run_inv vo v r t0 H K d"
    then show "run_inv vo v r t0 H K (snd (sql_upsert (dedup_from p_hash [] b) d))"
      using dedup_from_subset [of p_hash "[]" b]
      by (intro run_inv_upsert own_agree [of vo v] own_subset [OF assms(2)]) auto
  qed
qed

lemma ri_mono:
  "ri.holds vo v r t0 H K d \<Longrightarrow> H' \<subseteq> H \<Longrightarrow> K' \<subseteq> K \<Longrightarrow> H' \<subseteq> K' \<Longrightarrow> ri.holds vo v r t0 H' K' d"
  by (auto simp: ri.holds_def run_inv_def kept_mono) blast

lemma MarkSeen_run_inv:
  assumes "ri.holds vo v r t0 H K d" "p_hash ` set ps \<subseteq> K" "0 < r" "MarkSeen r ps d = (Inr x, d')"
  shows "ri.holds vo v r t0 (H \<union> p_hash ` set ps) K d'"
proof (cases "ps = []")
  case False
  let ?st = "sql_mark_seen r (map p_hash ps)"
  from False assms(3,4) obtain y where "exec ?st d = (Inr y, d')"
    by (auto simp: MarkSeen_def Let_def split: prod.splits sum.splits)
  with ri.exec_success [OF assms(1), of ?st y d'] obtain d1
    where "run_inv vo v r t0 H K d1" "script_all (benign vo v r t0) d'" "?st d1 = (Inr y, d')"
    by auto
  with run_inv_mark_new [of vo v r t0 H K d1 "map p_hash ps"] assms(2) show ?thesis
    by (intro ri.holdsI) simp_all
qed (use assms in \<open>simp add: MarkSeen_def\<close>)

lemma handler_run_inv:
  assumes "ri.holds vo v r t0 H K (rs_db s)" "own_products vo v ps" "0 < r"
    and "scrape_handler r snaps ps s = (e, s')"
  shows "ri.holds vo v r t0 (if e = None then H \<union> p_hash ` set ps else H)
           (if e = None then K \<union> p_hash ` set ps else K) (rs_db s')"
proof -
  obtain x d1 where u: "UpsertProducts ps (rs_db s) = (x, d1)" by fastforce
  have h1: "ri.holds vo v r t0 H K d1"
    using UpsertProducts_run_inv(2) [OF assms(1,2)] u by simp
  show ?thesis
  proof (cases x)
    case (Inl a)
    with u h1 assms(4) show ?thesis by (auto simp: scrape_handler_def)
  next
    case (Inr a)
    let ?K = "K \<union> p_hash ` set ps"
    have h2: "ri.holds vo v r t0 H ?K d1"
      using UpsertProducts_run_inv(1) [OF assms(1,2)] u Inr by simp
    obtain y d2 where m: "MarkSeen r ps d1 = (y, d2)" by fastforce
    have h3: "ri.holds vo v r t0 H K d2"
      using ri.MarkSeen_holds [OF h1] m run_inv_mark by (metis snd_conv)
    show ?thesis
    proof (cases y)
      case (Inl b)
      with u Inr m h3 assms(4) show ?thesis by (auto simp: scrape_handler_def)
    next
      case y: (Inr b)
      have h4: "ri.holds vo v r t0 (H \<union> p_hash ` set ps) ?K d2"
        by (rule MarkSeen_run_inv [OF h2]) (use assms(3) m y in simp_all)
      have "ri.holds vo v r t0 (H \<union> p_hash ` set ps) ?K
          (if snaps then snd (RecordPriceSnapshots ps r d2) else d2)"
        using ri.RecordPriceSnapshots_holds [OF h4] run_inv_others(1) h4 by auto
      with u Inr m y assms(4) show ?thesis by (auto simp: scrape_handler_def Let_def)
    qed
  qed
qed

text \<open>The hashes of the batches whose handler call succeeded.\<close>

fun ingested :: "product list list \<Rightarrow> bool list \<Rightarrow> string set" where
  "ingested (b # bs) (ok # oks) = (if ok then p_hash ` set b else {}) \<union> ingested bs oks"
| "ingested _ _ = {}"

lemma feed_run_inv:
  assumes "ri.holds vo v r t0 H H (rs_db s)" "\<forall>b \<in> set bs. own_products vo v b" "0 < r"
    and "feed (scrape_handler r snaps) bs s = (oks, s')"
  shows "ri.holds vo v r t0 (H \<union> ingested bs oks) (H \<union> ingested bs oks) (rs_db s')"
  using assms
proof (induction bs arbitrary: H s oks)
  case (Cons b bs)
  obtain e s1 where h: "scrape_handler r snaps b s = (e, s1)" by fastforce
  obtain oks' where f: "feed (scrape_handler r snaps) bs s1 = (oks', s')" "oks = (e = None) # oks'"
    using Cons.prems(4) h by (auto split: prod.splits)
  have "ri.holds vo v r t0 (if e = None then H \<union> p_hash ` set b else H)
      (if e = None then H \<union> p_hash ` set b else H) (rs_db s1)"
    by (rule handler_run_inv [OF Cons.prems(1) _ Cons.prems(3) h]) (use Cons.prems(2) in simp)
  from Cons.IH [OF this _ Cons.prems(3) f(1)] Cons.prems(2) f(2) show ?case
    by (auto simp: Un_assoc)
qed simp

subsection \<open>The end of the run\<close>

lemma ri_kp: "ri.holds vo v r t0 H K d \<Longrightarrow> kp.holds vo v K d"
  by (auto simp: ri.holds_def kp.holds_def run_inv_kept script_all_def list_all_iff benign_def)

lemma kp_mono: "kp.holds vo v K d \<Longrightarrow> H \<subseteq> K \<Longrightarrow> kp.holds vo v H d"
  by (auto simp: kp.holds_def kept_mono)

lemma ri_reads:
  assumes "ri.holds vo v r t0 H K d"
  shows "ri.holds vo v r t0 H K (snd (exec (sql_prev_count w) d))"
    "ri.holds vo v r t0 H K (snd (exec (sql_count_seen w') d))"
  by (rule ri.exec_holds [OF assms]; simp add: run_inv_reads)+

lemma stale_cleanup_run_inv:
  assumes "ri.holds vo v r t0 H H d"
  shows "ri.holds vo v r t0 H H (snd (stale_cleanup v' r t f p c d))"
proof -
  have del: "ri.holds vo v r t0 H H (snd (DeleteStaleProducts v' r t d'))"
    if "ri.holds vo v r t0 H H d'" for d'
    by (rule ri.DeleteStaleProducts_holds [OF that]) (rule run_inv_delete_own)
  obtain x d1 where c: "exec (sql_count_seen r) d = (x, d1)" by fastforce
  have "ri.holds vo v r t0 H H d1" using ri_reads(2) [OF assms, of r] c by simp
  from del [OF this] this c assms show ?thesis
    by (auto simp: stale_cleanup_def deleteStaleIfSeenSetComplete_def split: sum.splits prod.splits)
qed

lemma kp_finish:
  assumes "kp.holds vo v K d" "final_status s"
  shows "kp.holds vo v K (snd (FinishScrapeRun r s n k e d))"
  by (rule kp.FinishScrapeRun_holds [OF assms(1)]) (rule kept_others(9) [OF _ assms(2)])

lemma kp_tail:
  assumes "kp.holds vo v K d"
  shows "kp.holds vo v K (snd (PruneScrapeRuns a b d))" "kp.holds vo v K (snd (ClearSeen r d))"
    "kp.holds vo v K (release_scrape_lock w d)"
  by (rule kp.PruneScrapeRuns_holds [OF assms] kp.ClearSeen_holds [OF assms]
      kp.release_scrape_lock_holds [OF assms]; rule kept_others; assumption)+

lemma after_scrape_keeps_seen:
  assumes "ri.holds vo v r t0 H H (rs_db s)"
  shows "kp.holds vo v H (snd (snd (after_scrape n v' r t a b (err, failed, s))))"
proof (cases err)
  case (Some e)
  then show ?thesis
    by (auto simp: after_scrape_def Let_def final_status_def intro!: kp_finish ri_kp [OF assms])
next
  case None
  obtain q d1 where q: "exec (sql_prev_count v') (rs_db s) = (q, d1)" by fastforce
  have h1: "ri.holds vo v r t0 H H d1" using ri_reads(1) [OF assms, of v'] q by simp
  show ?thesis
  proof (cases "emptyScrapeError (rs_total s) failed")
    case (Some e)
    with None q ri_kp [OF h1] show ?thesis
      by (auto simp: after_scrape_def Let_def final_status_def intro!: kp_finish)
  next
    case no: None
    let ?c = "stale_cleanup v' r t failed (case q of Inl _ \<Rightarrow> 0 | Inr n \<Rightarrow> n) (rs_total s) d1"
    have "kp.holds vo v H (snd ?c)"
      by (rule ri_kp [OF stale_cleanup_run_inv [OF h1]])
    with None no q show ?thesis
      by (cases ?c) (auto simp: after_scrape_def Let_def final_status_def intro!: kp_finish kp_tail)
  qed
qed

subsection \<open>The beginning of the run\<close>

text \<open>
  A run begins when it has the lock, the database's time and its record: \<open>begin_run\<close> gives the
  run's id, its start and the tables there.
\<close>

definition begin_run :: "string \<Rightarrow> db \<Rightarrow> (int \<times> int \<times> db) option" where
  "begin_run vendor d =
     (case AcquireScrapeLock vendor d of
        (Inr True, d1) \<Rightarrow>
          (case exec sql_now d1 of
             (Inr t, d2) \<Rightarrow>
               (case StartScrapeRun vendor t d2 of (Inr r, d3) \<Rightarrow> Some (r, t, d3) | _ \<Rightarrow> None)
           | _ \<Rightarrow> None)
      | _ \<Rightarrow> None)"

lemma runOneScrape_begun:
  assumes "begin_run (to_lower (sc_name sc)) d = Some (r, t, d1)"
  shows "runOneScrape sc snaps a b d =
    (case after_scrape (sc_name sc) (to_lower (sc_name sc)) r t a b
            (sc_scrape sc (scrape_handler r snaps) \<lparr>rs_db = d1, rs_total = 0\<rparr>) of
       (res, fresh, d2) \<Rightarrow>
         (res, fresh, release_scrape_lock (to_lower (sc_name sc)) (snd (ClearSeen r d2))))"
  using assms
  by (auto simp: begin_run_def runOneScrape_def locked_run_def
      split: prod.splits sum.splits bool.splits)

lemma begin_run_inv:
  assumes "kp.holds vo v K d" "begin_run w d = Some (r, t, d1)"
  shows "0 < r" "kp.holds vo v K d1"
    "script_all (benign vo v r t) d1 \<Longrightarrow> ri.holds vo v r t {} K d1"
proof -
  obtain b d2 d3 where b:
    "AcquireScrapeLock w d = (Inr b, d2)" "exec sql_now d2 = (Inr t, d3)" "StartScrapeRun w t d3 = (Inr r, d1)"
    using assms(2) by (auto simp: begin_run_def split: prod.splits sum.splits bool.splits)
  have "kp.holds vo v K d2"
    using kp.AcquireScrapeLock_holds [OF assms(1), of w] b(1) kept_others(7) by (metis snd_conv)
  then have "kp.holds vo v K d3"
    using kp.exec_holds [of vo v K d2 sql_now] b(2) by (simp add: run_inv_reads)
  from kp.exec_success [OF this, of "sql_start_run w t" r d1] b(3) obtain d0
    where d0: "kept vo v K d0" "script_all (polite vo v) d1" "sql_start_run w t d0 = (Inr r, d1)"
    by (auto simp: StartScrapeRun_def)
  from d0 show "0 < r" by (auto simp: sql_start_run_def kept_def store_ok_def)
  have k: "kept vo v K d1" using kept_others(4) [OF d0(1), of w t] d0(3) by simp
  with d0(2) show "kp.holds vo v K d1" by (rule kp.holdsI [rotated])
  have "run_inv vo v r t {} K d1"
    using k d0(3) by (auto simp: run_inv_def sql_start_run_def)
  then show "ri.holds vo v r t {} K d1" if "script_all (benign vo v r t) d1"
    using that by (rule ri.holdsI)
qed

subsection \<open>Whole runs\<close>

text \<open>
  \<open>run_rely\<close> extends \<open>rely\<close> with the run's own statements: \<open>C\<close> is what is known of the products
  it ingests. Everything but the stale cleanup must keep \<open>P\<close>; the cleanup is assumed separately
  where it is reached.
\<close>

locale run_rely = rely +
  fixes C :: "product \<Rightarrow> bool"
  assumes own_upsert: "list_all C ps \<Longrightarrow> P d \<Longrightarrow> P (snd (sql_upsert ps d))"
    and own_mark: "P d \<Longrightarrow> P (snd (sql_mark_seen r hs d))"
    and own_clear: "P d \<Longrightarrow> P (snd (sql_clear_seen r d))"
    and own_snapshots: "P d \<Longrightarrow> P (snd (sql_snapshots ss d))"
    and own_start: "P d \<Longrightarrow> P (snd (sql_start_run v t d))"
    and own_finish: "final_status st \<Longrightarrow> P d \<Longrightarrow> P (snd (sql_finish_run r st n k e d))"
    and own_prune: "P d \<Longrightarrow> P (snd (sql_prune_runs c d))"
    and own_lock: "P d \<Longrightarrow> P (snd (sql_try_lock key d))"
    and own_unlock: "P d \<Longrightarrow> P (snd (sql_unlock key d))"
begin

lemma handler_holds:
  assumes "holds (rs_db s)" "list_all C ps"
  shows "holds (rs_db (snd (scrape_handler r snaps ps s)))"
proof -
  obtain x d1 where u: "UpsertProducts ps (rs_db s) = (x, d1)" by fastforce
  have "holds (snd (UpsertProducts ps (rs_db s)))"
  proof (rule UpsertProducts_holds [OF assms(1)])
    fix b d assume "set b \<subseteq> set ps" "P d"
    then show "P (snd (sql_upsert (dedup_from p_hash [] b) d))"
      using dedup_from_subset [of p_hash "[]" b] assms(2)
      by (intro own_upsert) (auto simp: list_all_iff)
  qed
  with u have h1: "holds d1" by simp
  obtain y d2 where m: "MarkSeen r ps d1 = (y, d2)" by fastforce
  have h2: "holds d2" using MarkSeen_holds [OF h1 own_mark] m by (metis snd_conv)
  have h3: "holds (snd (RecordPriceSnapshots ps r d2))"
    by (rule RecordPriceSnapshots_holds [OF h2 own_snapshots])
  from u m h1 h2 h3 show ?thesis
    by (auto simp: scrape_handler_def Let_def split: sum.split)
qed

lemma feed_holds:
  assumes "holds (rs_db s)" "\<forall>b \<in> set bs. list_all C b"
  shows "holds (rs_db (snd (feed (scrape_handler r snaps) bs s)))"
  using assms
proof (induction bs arbitrary: s)
  case (Cons b bs)
  obtain e s1 where h: "scrape_handler r snaps b s = (e, s1)" by fastforce
  have "holds (rs_db (snd (scrape_handler r snaps b s)))"
    using Cons.prems by (intro handler_holds) simp_all
  with Cons.IH [of s1] Cons.prems(2) h show ?case by (simp split: prod.split) (metis snd_conv)
qed simp

lemma finish_holds: "final_status st \<Longrightarrow> holds d \<Longrightarrow> holds (snd (FinishScrapeRun r st n k e d))"
  by (rule FinishScrapeRun_holds) (simp_all add: own_finish)

lemma prev_holds: "holds d \<Longrightarrow> holds (snd (exec (sql_prev_count w) d))"
  by (rule exec_holds) (simp_all add: run_inv_reads)

lemma stale_cleanup_holds:
  assumes "holds d" "failed > 0 \<or> (\<forall>d. P d \<longrightarrow> P (snd (sql_delete_stale v t r d)))"
  shows "holds (snd (stale_cleanup v r t failed prev cur d))"
proof (cases "failed > 0")
  case False
  obtain x d1 where c: "exec (sql_count_seen r) d = (x, d1)" by fastforce
  have "holds d1"
    using exec_holds [OF assms(1), of "sql_count_seen r"] c by (simp add: run_inv_reads)
  moreover from this have "holds (snd (DeleteStaleProducts v r t d1))"
    by (rule DeleteStaleProducts_holds) (use False assms(2) in blast)
  ultimately show ?thesis
    using c assms(1)
    by (auto simp: stale_cleanup_def deleteStaleIfSeenSetComplete_def split: sum.splits prod.splits)
qed (use assms in \<open>simp add: stale_cleanup_def\<close>)

lemma after_scrape_holds:
  assumes "holds (rs_db s)"
    and "err \<noteq> None \<or> failed > 0 \<or> rs_total s \<le> 0
         \<or> (\<forall>v t r d. P d \<longrightarrow> P (snd (sql_delete_stale v t r d)))"
  shows "holds (snd (snd (after_scrape n v r t a b (err, failed, s))))"
proof (cases err)
  case (Some e)
  with assms(1) show ?thesis
    by (auto simp: after_scrape_def Let_def final_status_def intro!: finish_holds)
next
  case None
  obtain q d1 where q: "exec (sql_prev_count v) (rs_db s) = (q, d1)" by fastforce
  have h1: "holds d1" using prev_holds [OF assms(1), of v] q by simp
  show ?thesis
  proof (cases "emptyScrapeError (rs_total s) failed")
    case (Some e)
    with None q h1 show ?thesis
      by (auto simp: after_scrape_def Let_def final_status_def intro!: finish_holds)
  next
    case no: None
    then have "rs_total s > 0" by (auto simp: emptyScrapeError_def split: if_splits)
    let ?c = "stale_cleanup v r t failed (case q of Inl _ \<Rightarrow> 0 | Inr n \<Rightarrow> n) (rs_total s) d1"
    have "holds (snd ?c)"
      using assms(2) None \<open>rs_total s > 0\<close> by (intro stale_cleanup_holds [OF h1]) auto
    with None no q show ?thesis
      by (cases ?c) (auto simp: after_scrape_def Let_def final_status_def
          intro!: finish_holds PruneScrapeRuns_holds own_prune)
  qed
qed

lemma tail_holds:
  assumes "holds d"
  shows "holds (release_scrape_lock w (snd (ClearSeen r d)))"
  by (intro release_scrape_lock_holds ClearSeen_holds assms own_unlock own_clear)

lemma begin_holds:
  assumes "holds d" "begin_run w d = Some (r, t, d1)"
  shows "holds d1"
proof -
  obtain b d2 d3 where b:
    "AcquireScrapeLock w d = (Inr b, d2)" "exec sql_now d2 = (Inr t, d3)" "StartScrapeRun w t d3 = (Inr r, d1)"
    using assms(2) by (auto simp: begin_run_def split: prod.splits sum.splits bool.splits)
  have "holds d2" using AcquireScrapeLock_holds [OF assms(1) own_lock] b(1) by (metis snd_conv)
  then have "holds d3" using exec_holds [of d2 sql_now] b(2) by (simp add: run_inv_reads)
  then show ?thesis using StartScrapeRun_holds [OF _ own_start] b(3) by (metis snd_conv)
qed

lemma run_holds:
  assumes "holds d" "begin_run (to_lower (sc_name sc)) d = Some (r, t, d1)"
    and "delivers sc (scrape_handler r snaps) \<lparr>rs_db = d1, rs_total = 0\<rparr> bs"
    and "\<forall>b \<in> set bs. list_all C b"
    and "sc_scrape sc (scrape_handler r snaps) \<lparr>rs_db = d1, rs_total = 0\<rparr> = (err, failed, s)"
    and "err \<noteq> None \<or> failed > 0 \<or> rs_total s \<le> 0
         \<or> (\<forall>v t r d. P d \<longrightarrow> P (snd (sql_delete_stale v t r d)))"
  shows "holds (snd (snd (runOneScrape sc snaps a b d)))"
proof -
  have "holds (rs_db s)"
    using feed_holds [of "\<lparr>rs_db = d1, rs_total = 0\<rparr>" bs r snaps] begin_holds [OF assms(1,2)] assms(3-5)
    by (simp add: delivers_def)
  from after_scrape_holds [OF this assms(6)]
  have "holds (snd (snd (after_scrape (sc_name sc) (to_lower (sc_name sc)) r t a b (err, failed, s))))" .
  then show ?thesis
    using runOneScrape_begun [OF assms(2), of snaps a b] assms(5)
    by (auto intro: tail_holds split: prod.splits)
qed

end

interpretation st: run_rely store_ok action_ok "\<lambda>p. True"
  by unfold_locales (simp_all add: inv_intros)

interpretation kp: run_rely "kept vo v H" "polite vo v" "\<lambda>p. p_vendor p = vo (p_hash p)" for vo v H
  by unfold_locales (simp_all add: kept_upsert vendors_agree_def kept_others)

end
