(* ===== verification/Run_Properties.thy ===== *)
theory Run_Properties
  imports Scrape_Safety
begin

text \<open>
  The properties of a scrape run (\<open>runOneScrape\<close> of \<^verbatim>\<open>cmd/server/main.go\<close>) for every schedule
  of the other processes and every failing statement, and its exact effect when nothing interferes.
\<close>

subsection \<open>Concrete runs for the witnesses\<close>

definition sample_product :: "string \<Rightarrow> string \<Rightarrow> string \<Rightarrow> product" where
  "sample_product h v sku =
     \<lparr>p_hash = h, p_sku = sku, p_vendor = v, p_region = ''us-east-1'', p_service = ''AmazonEC2'',
      p_family = ''Compute Instance'', p_attrs = [(''instanceType'', ''m5.large'')], p_prices = []\<rparr>"

definition sample_vendor :: "string \<Rightarrow> string" where
  "sample_vendor h = (if has_prefix h ''z'' then ''azure'' else ''aws'')"

definition aws_row :: "string \<Rightarrow> string \<times> row" where
  "aws_row h = (h, \<lparr>r_product = sample_product h ''aws'' ''old'', r_updated = 0\<rparr>)"

text \<open>A scraper that fails when a batch is rejected, or counts the service as failed.\<close>

definition strict_scraper :: "product list list \<Rightarrow> scraper" where
  "strict_scraper bs = replay ''AWS'' bs
     (\<lambda>oks. if list_all id oks then None else Some ''batch'') (\<lambda>oks. 0)"

definition lenient_scraper :: "product list list \<Rightarrow> scraper" where
  "lenient_scraper bs = replay ''AWS'' bs (\<lambda>oks. None)
     (\<lambda>oks. int (length (filter Not oks)))"

definition sample_batches :: "product list list" where
  "sample_batches = [[sample_product ''a1'' ''aws'' ''new''], [sample_product ''a2'' ''aws'' ''new'']]"

text \<open>
  Other processes act before the run's first four statements and before its upsert: time passes,
  an Azure run upserts and cleans up, old runs are reaped.
\<close>

definition busy_script :: "(env_action list \<times> outcome) list" where
  "busy_script =
     [([Tick 5], Executed), ([OtherStart ''azure'' 3], Executed), ([], Executed),
      ([OtherUpsert [sample_product ''z1'' ''azure'' ''s''], ReapBefore 4], Executed),
      ([OtherDeleteStale ''azure'' 9 1, OtherClearSeen 1], Executed), ([Tick 2], LostReply ''net'')]"

definition busy_db :: "db" where
  "busy_db = (fresh_db 10 busy_script)\<lparr>tbl_products := [aws_row ''a0'', aws_row ''a1'']\<rparr>"

definition begun_db :: "string \<Rightarrow> db \<Rightarrow> db" where
  "begun_db v d = (case begin_run v d of Some (r, t, d1) \<Rightarrow> d1 | None \<Rightarrow> d)"

lemma replay_delivers_samples:
  "delivers (strict_scraper bs) h s bs" "delivers (lenient_scraper bs) h s bs"
  unfolding strict_scraper_def lenient_scraper_def
  by (rule replay_delivers, simp split: if_splits)
    (rule replay_delivers, simp add: list_all_iff filter_empty_conv)

lemma busy_db_ok:
  "store_ok busy_db"
  "list_all (\<lambda>(h, x). p_vendor (r_product x) = sample_vendor h) (tbl_products busy_db)"
  by code_simp+

lemma keptI:
  "store_ok d \<Longrightarrow> list_all (\<lambda>(h, x). p_vendor (r_product x) = vo h) (tbl_products d) \<Longrightarrow>
   H \<subseteq> dom (map_of (tbl_products d)) \<Longrightarrow> \<forall>h \<in> H. vo h = v \<Longrightarrow> kept vo v H d"
  by (simp add: kept_def)

subsection \<open>The properties\<close>

text \<open>What the handler accepted during a run is in the table when the run ends.\<close>

lemma run_keeps_ingested:
  assumes "kept vo (to_lower (sc_name sc)) {} d" "script_all (polite vo (to_lower (sc_name sc))) d"
    and "begin_run (to_lower (sc_name sc)) d = Some (r, t, d1)"
    and "script_all (benign vo (to_lower (sc_name sc)) r t) d1"
    and "delivers sc (scrape_handler r snaps) \<lparr>rs_db = d1, rs_total = 0\<rparr> bs"
    and "\<forall>b \<in> set bs. own_products vo (to_lower (sc_name sc)) b"
    and "feed (scrape_handler r snaps) bs \<lparr>rs_db = d1, rs_total = 0\<rparr> = (oks, s)"
  shows "ingested bs oks \<subseteq>
           dom (map_of (tbl_products (snd (snd (runOneScrape sc snaps appNow retain d)))))"
proof -
  let ?v = "to_lower (sc_name sc)"
  have kp: "kp.holds vo ?v {} d" using assms(1,2) by (rule kp.holdsI)
  note b = begin_run_inv [OF kp assms(3)]
  have "ri.holds vo ?v r t ({} \<union> ingested bs oks) ({} \<union> ingested bs oks) (rs_db s)"
    by (rule feed_run_inv [OF _ assms(6) b(1) assms(7)]) (use b(3) assms(4) in simp)
  then have ri: "ri.holds vo ?v r t (ingested bs oks) (ingested bs oks) (rs_db s)" by simp
  obtain err failed where sc:
    "sc_scrape sc (scrape_handler r snaps) \<lparr>rs_db = d1, rs_total = 0\<rparr> = (err, failed, s)"
    using assms(5,7) by (auto simp: delivers_def split: prod.splits)
  obtain res fresh d2 where a:
    "after_scrape (sc_name sc) ?v r t appNow retain (err, failed, s) = (res, fresh, d2)"
    by (cases "after_scrape (sc_name sc) ?v r t appNow retain (err, failed, s)") auto
  have "kp.holds vo ?v (ingested bs oks) d2"
    using after_scrape_keeps_seen [OF ri] a by (metis snd_conv)
  then have "kp.holds vo ?v (ingested bs oks) (snd (snd (runOneScrape sc snaps appNow retain d)))"
    using runOneScrape_begun [OF assms(3), of snaps appNow retain] sc a
    by (auto intro: kp.tail_holds)
  then show ?thesis by (auto simp: kp.holds_def kept_def)
qed

text \<open>
  C1: a product whose batch the handler accepted is in the table when the run ends, whatever
  statements fail and whatever the result of the run, as long as the other processes stay within
  \<open>polite\<close> and \<open>benign\<close>: they respect the vendor's advisory lock, no crash recovery empties the unlogged
  seen-set (\<open>crash_recovery_loses_live_product\<close> shows what happens then), and nobody finishes, reaps or
  clears this run; and each hash belongs to one vendor. Under these conditions the stale cleanup of the run never deletes what the run has ingested.
\<close>

theorem seen_products_survive:
  assumes "kept vo (to_lower (sc_name sc)) {} d" "script_all (polite vo (to_lower (sc_name sc))) d"
    and "begin_run (to_lower (sc_name sc)) d = Some (r, t, d1)"
    and "script_all (benign vo (to_lower (sc_name sc)) r t) d1"
    and "delivers sc (scrape_handler r snaps) \<lparr>rs_db = d1, rs_total = 0\<rparr> bs"
    and "\<forall>b \<in> set bs. own_products vo (to_lower (sc_name sc)) b"
    and "feed (scrape_handler r snaps) bs \<lparr>rs_db = d1, rs_total = 0\<rparr> = (oks, s)"
  shows "ingested bs oks \<subseteq>
           dom (map_of (tbl_products (snd (snd (runOneScrape sc snaps appNow retain d)))))"
  by (rule run_keeps_ingested [OF assms])

theorem seen_products_survive_witness:
  "{''a1''} \<subseteq> dom (map_of (tbl_products (snd (snd
     (runOneScrape (strict_scraper sample_batches) False 100 50 busy_db)))))"
proof -
  let ?sc = "strict_scraper sample_batches" and ?d1 = "begun_db ''aws'' busy_db"
  have n: "to_lower (sc_name ?sc) = ''aws''" by code_simp
  have 1: "kept sample_vendor (to_lower (sc_name ?sc)) {} busy_db"
    unfolding n by (rule keptI [OF busy_db_ok]) simp_all
  have 2: "script_all (polite sample_vendor (to_lower (sc_name ?sc))) busy_db" by code_simp
  have 3: "begin_run (to_lower (sc_name ?sc)) busy_db = Some (2, 15, ?d1)" by code_simp
  have 4: "script_all (benign sample_vendor (to_lower (sc_name ?sc)) 2 15) ?d1" by code_simp
  have 6: "\<forall>b \<in> set sample_batches. own_products sample_vendor (to_lower (sc_name ?sc)) b" by code_simp
  obtain oks s where 7: "feed (scrape_handler 2 False) sample_batches \<lparr>rs_db = ?d1, rs_total = 0\<rparr> = (oks, s)"
    by fastforce
  have "fst (feed (scrape_handler 2 False) sample_batches \<lparr>rs_db = ?d1, rs_total = 0\<rparr>) = [True, False]"
    by code_simp
  with 7 have "ingested sample_batches oks = {''a1''}"
    by (simp add: sample_batches_def sample_product_def)
  with seen_products_survive [OF 1 2 3 4 replay_delivers_samples(1) 6 7] show ?thesis by simp
qed

text \<open>
  C3: a run that did not see everything deletes nothing. When the scraper ends with an error, or a
  service failed, or nothing was ingested, every product of the vendor that was in the table before
  the run is there after it, for every schedule in which other processes leave the vendor alone.
\<close>

theorem incomplete_run_deletes_nothing:
  assumes "kept vo (to_lower (sc_name sc)) H d" "script_all (polite vo (to_lower (sc_name sc))) d"
    and "begin_run (to_lower (sc_name sc)) d = Some (r, t, d1)"
    and "delivers sc (scrape_handler r snaps) \<lparr>rs_db = d1, rs_total = 0\<rparr> bs"
    and "\<forall>b \<in> set bs. vendors_agree vo b"
    and "sc_scrape sc (scrape_handler r snaps) \<lparr>rs_db = d1, rs_total = 0\<rparr> = (err, failed, s)"
    and "err \<noteq> None \<or> failed > 0 \<or> rs_total s = 0"
  shows "H \<subseteq> dom (map_of (tbl_products (snd (snd (runOneScrape sc snaps appNow retain d)))))"
proof -
  have "kp.holds vo (to_lower (sc_name sc)) H (snd (snd (runOneScrape sc snaps appNow retain d)))"
    by (rule kp.run_holds [OF kp.holdsI [OF assms(1,2)] assms(3,4) _ assms(6)])
      (use assms(5,7) in \<open>auto simp: vendors_agree_def\<close>)
  then show ?thesis by (auto simp: kp.holds_def kept_def)
qed

theorem incomplete_run_deletes_nothing_witness:
  "{''a0'', ''a1''} \<subseteq> dom (map_of (tbl_products (snd (snd
     (runOneScrape (lenient_scraper sample_batches) False 100 50 busy_db)))))"
proof -
  let ?sc = "lenient_scraper sample_batches" and ?d1 = "begun_db ''aws'' busy_db"
  let ?r = "sc_scrape ?sc (scrape_handler 2 False) \<lparr>rs_db = ?d1, rs_total = 0\<rparr>"
  have n: "to_lower (sc_name ?sc) = ''aws''" by code_simp
  have v: "\<forall>h \<in> {''a0'', ''a1''}. sample_vendor h = ''aws''" by code_simp
  have 1: "kept sample_vendor (to_lower (sc_name ?sc)) {''a0'', ''a1''} busy_db"
    unfolding n by (rule keptI [OF busy_db_ok _ v]) (simp add: busy_db_def aws_row_def)
  have 2: "script_all (polite sample_vendor (to_lower (sc_name ?sc))) busy_db" by code_simp
  have 3: "begin_run (to_lower (sc_name ?sc)) busy_db = Some (2, 15, ?d1)" by code_simp
  have 5: "\<forall>b \<in> set sample_batches. vendors_agree sample_vendor b" by code_simp
  obtain err failed s where 6: "?r = (err, failed, s)" by (cases ?r) auto
  have "fst (snd ?r) = 1" by code_simp
  with 6 have 7: "err \<noteq> None \<or> failed > 0 \<or> rs_total s = 0" by simp
  show ?thesis
    by (rule incomplete_run_deletes_nothing [OF 1 2 3 replay_delivers_samples(2) 5 6 7])
qed

text \<open>
  C4: the tables stay well formed (unique hashes, each row under its product's hash, unique run
  ids below the sequence, a run is running exactly while it has no end time, no duplicate in the
  seen-set) across a whole run, for every schedule of the other processes and every failing
  statement.
\<close>

theorem run_preserves_store_ok:
  assumes "store_ok d" "script_all action_ok d"
    and "\<And>h s. \<exists>bs. delivers sc h s bs"
  shows "store_ok (snd (snd (runOneScrape sc snaps appNow retain d)))"
proof (cases "begin_run (to_lower (sc_name sc)) d")
  case (Some x)
  then obtain r t d1 where b: "begin_run (to_lower (sc_name sc)) d = Some (r, t, d1)"
    by (cases x) auto
  obtain bs where bs: "delivers sc (scrape_handler r snaps) \<lparr>rs_db = d1, rs_total = 0\<rparr> bs"
    using assms(3) by blast
  obtain err failed s where sc:
    "sc_scrape sc (scrape_handler r snaps) \<lparr>rs_db = d1, rs_total = 0\<rparr> = (err, failed, s)"
    by (cases "sc_scrape sc (scrape_handler r snaps) \<lparr>rs_db = d1, rs_total = 0\<rparr>") auto
  have "st.holds (snd (snd (runOneScrape sc snaps appNow retain d)))"
    by (rule st.run_holds [OF st.holdsI [OF assms(1,2)] b bs _ sc])
      (simp_all add: inv_intros list_all_iff)
  then show ?thesis by (rule st.holds_P)
next
  case None
  let ?w = "to_lower (sc_name sc)"
  have h: "st.holds d" using assms(1,2) by (rule st.holdsI)
  obtain x d2 where 1: "AcquireScrapeLock ?w d = (x, d2)" by fastforce
  have h2: "st.holds d2" using st.AcquireScrapeLock_holds [OF h ok_try_lock] 1 by (metis snd_conv)
  obtain y d3 where 2: "exec sql_now d2 = (y, d3)" by fastforce
  have h3: "st.holds d3" using st.exec_holds [OF h2, of sql_now] 2 by (simp add: run_inv_reads)
  have h4: "st.holds (snd (StartScrapeRun ?w t d3))" for t
    by (rule st.StartScrapeRun_holds [OF h3 ok_start_run])
  have rel: "st.holds d \<Longrightarrow> st.holds (release_scrape_lock ?w d)" for d
    by (rule st.release_scrape_lock_holds [OF _ ok_unlock])
  have "st.holds (snd (snd (runOneScrape sc snaps appNow retain d)))"
    using None 1 2 h2 h3 h4
    by (auto simp: begin_run_def runOneScrape_def locked_run_def
        split: prod.splits sum.splits bool.splits intro!: rel) (metis snd_conv)
  then show ?thesis by (rule st.holds_P)
qed

theorem run_preserves_store_ok_witness:
  "store_ok (snd (snd (runOneScrape (lenient_scraper sample_batches) True 100 50 busy_db)))"
proof (rule run_preserves_store_ok)
  show "store_ok busy_db" "script_all action_ok busy_db" by code_simp+
  show "\<exists>bs. delivers (lenient_scraper sample_batches) h s bs" for h s
    using replay_delivers_samples(2) by blast
qed

end
