(* ===== verification/Run_Effect.thy ===== *)
theory Run_Effect
  imports Run_Properties
begin

text \<open>
  The exact effect of a run that no other process interferes with and in which no statement fails:
  \<open>upsert_table\<close> is what a sequence of upsert statements does to the table, and the lemmas carry
  it through the handler, the feeding of all batches and the end of the run.
\<close>

subsection \<open>The table after a sequence of batches\<close>

definition upsert_table ::
  "int \<Rightarrow> product list list \<Rightarrow> (string \<times> row) list \<Rightarrow> (string \<times> row) list" where
  "upsert_table t bs tbl = fold (\<lambda>b. fold (upsert_row t) (dedup_from p_hash [] b)) bs tbl"

lemma upsert_table_simps [simp]:
  "upsert_table t [] tbl = tbl"
  "upsert_table t (b # bs) tbl = upsert_table t bs (fold (upsert_row t) (dedup_from p_hash [] b) tbl)"
  by (simp_all add: upsert_table_def)

lemma upsert_table_append:
  "upsert_table t (as @ bs) tbl = upsert_table t bs (upsert_table t as tbl)"
  by (simp add: upsert_table_def)

lemma lookup_dedup_upsert:
  "map_of (fold (upsert_row t) (dedup_from p_hash [] b) tbl) h =
     (case find (\<lambda>p. p_hash p = h) b of
        None \<Rightarrow> map_of tbl h | Some p \<Rightarrow> Some (merge_row t p (map_of tbl h)))"
  using dedup_from_find [of h "[]" p_hash b]
  by (simp add: map_of_upsert_rows dedup_from_distinct)

lemma dom_upsert_table:
  "dom (map_of (upsert_table t bs tbl)) = dom (map_of tbl) \<union> p_hash ` set (concat bs)"
  by (induction bs arbitrary: tbl) (auto simp: dom_upsert_rows hashes_dedup)

lemma upsert_table_other:
  "h \<notin> p_hash ` set (concat bs) \<Longrightarrow> map_of (upsert_table t bs tbl) h = map_of tbl h"
proof (induction bs arbitrary: tbl)
  case (Cons b bs)
  then have "find (\<lambda>p. p_hash p = h) b = None" by (auto simp: find_None)
  with Cons show ?case by (simp add: lookup_dedup_upsert image_Un)
qed simp

lemma same_content_trans: "same_content a b \<Longrightarrow> same_content b c \<Longrightarrow> same_content a c"
  by (simp add: same_content_def)

text \<open>When all products of a hash have the same content, the row has it.\<close>

lemma upsert_table_content:
  assumes "\<forall>q \<in> set (concat bs). p_hash q = p_hash p \<longrightarrow> same_content q p"
    and "p_hash p \<in> p_hash ` set (concat bs)
         \<or> (\<exists>x. map_of tbl (p_hash p) = Some x \<and> same_content (r_product x) p)"
  shows "\<exists>x. map_of (upsert_table t bs tbl) (p_hash p) = Some x \<and> same_content (r_product x) p"
  using assms
proof (induction bs arbitrary: tbl)
  case (Cons b bs)
  let ?tbl = "fold (upsert_row t) (dedup_from p_hash [] b) tbl"
  have "p_hash p \<in> p_hash ` set (concat bs)
      \<or> (\<exists>x. map_of ?tbl (p_hash p) = Some x \<and> same_content (r_product x) p)"
  proof (cases "find (\<lambda>q. p_hash q = p_hash p) b")
    case None
    then have "p_hash p \<notin> p_hash ` set b" by (auto simp: find_None)
    with None Cons.prems(2) show ?thesis by (simp add: lookup_dedup_upsert image_Un)
  next
    case (Some q)
    then have "q \<in> set b" "p_hash q = p_hash p"
      by (auto simp: find_Some_iff)
    with Cons.prems(1) have "same_content q p" by simp
    with Some show ?thesis
      by (auto simp: lookup_dedup_upsert intro: same_content_trans [OF merge_row_content])
  qed
  with Cons show ?case by simp
qed simp

lemma upsert_table_keys:
  "distinct (map fst tbl) \<Longrightarrow> distinct (map fst (upsert_table t bs tbl))"
  by (induction bs arbitrary: tbl) (simp_all add: keys_upsert_rows)

subsection \<open>Undisturbed operations\<close>

lemma upsert_all_quiet:
  assumes "script d = []" "\<forall>b \<in> set bs. b \<noteq> [] \<and> length b \<le> upsertBatchSize"
  shows "upsert_all bs d = (Inr (), d\<lparr>tbl_products := upsert_table (now d) bs (tbl_products d)\<rparr>)"
  using assms
proof (induction bs arbitrary: d)
  case (Cons b bs)
  then show ?case by (simp add: upsertBatch_exec sql_upsert_dedup)
qed simp

lemma UpsertProducts_quiet:
  assumes "script d = []"
  shows "UpsertProducts ps d =
    (Inr (), d\<lparr>tbl_products := upsert_table (now d) (batches upsertBatchSize ps) (tbl_products d)\<rparr>)"
proof -
  note u = upsert_all_quiet [OF assms, of "batches upsertBatchSize ps"]
  have "\<forall>b \<in> set (batches upsertBatchSize ps). b \<noteq> [] \<and> length b \<le> upsertBatchSize"
    using length_in_batches by blast
  with u UpsertProducts_batches [where ps = ps and d = d] show ?thesis
    by (cases "UpsertProducts ps d"; cases "fst (UpsertProducts ps d)") auto
qed

lemma snapshots_outcome:
  "sql_snapshots ss d = (Inr (), d\<lparr>tbl_snapshots := tbl_snapshots d @ ss\<rparr>)
   \<or> (\<exists>e. sql_snapshots ss d = (Inl e, d))"
  by (simp add: sql_snapshots_def)

lemma snapshots_quiet:
  assumes "script d = []"
  shows "\<exists>ss. snd (snapshots_from i ps r d) = d\<lparr>tbl_snapshots := ss\<rparr>"
  using assms
proof (induction i ps r d rule: snapshots_from.induct)
  case (1 i ps r d)
  let ?stop = "min (i + 1000) (length ps)"
  let ?batch = "take (?stop - i) (drop i ps)"
  let ?st = "exec (sql_snapshots (map (snapshot_of r) ?batch)) d"
  have keep: "d\<lparr>tbl_snapshots := tbl_snapshots d\<rparr> = d" by simp
  consider (ok) ss where "?st = (Inr (), d\<lparr>tbl_snapshots := ss\<rparr>)" | (fk) e where "?st = (Inl e, d)"
    using snapshots_outcome [of "map (snapshot_of r) ?batch" d] "1.prems" that by (metis exec_quiet)
  then show ?case
  proof cases
    case fk
    then show ?thesis
      using keep by (auto simp: snapshots_from.simps [of i] Let_def intro: exI [of _ "tbl_snapshots d"])
  next
    case e: ok
    show ?thesis
  proof (cases "i < length ps")
    case True
    from "1.IH" [OF True refl refl e [symmetric] refl] "1.prems" True e show ?thesis
      by (auto simp: snapshots_from.simps [of i] Let_def)
  next
    case False
    then show ?thesis by (auto simp: snapshots_from.simps [of i] intro: exI [of _ "tbl_snapshots d"])
  qed
  qed
qed

text \<open>What one accepted batch changes, and what it leaves.\<close>

definition absorbed :: "int \<Rightarrow> product list list \<Rightarrow> run_state \<Rightarrow> run_state \<Rightarrow> bool" where
  "absorbed r bs s s' \<longleftrightarrow>
     (let d = rs_db s; d' = rs_db s' in
        tbl_products d' = upsert_table (now d) (concat (map (batches upsertBatchSize) bs)) (tbl_products d)
        \<and> set (tbl_seen d') = set (tbl_seen d) \<union> Pair r ` p_hash ` set (concat bs)
        \<and> (distinct (tbl_seen d) \<longrightarrow> distinct (tbl_seen d'))
        \<and> tbl_runs d' = tbl_runs d \<and> next_id d' = next_id d \<and> locks d' = locks d \<and> now d' = now d
        \<and> script d' = [] \<and> rs_total s' = rs_total s + int (length (concat bs)))"

lemma handler_quiet:
  assumes "script (rs_db s) = []" "0 < r"
  shows "\<exists>s'. scrape_handler r snaps ps s = (None, s') \<and> absorbed r [ps] s s'"
proof -
  let ?d1 = "(rs_db s)\<lparr>tbl_products :=
     upsert_table (now (rs_db s)) (batches upsertBatchSize ps) (tbl_products (rs_db s))\<rparr>"
  have u: "UpsertProducts ps (rs_db s) = (Inr (), ?d1)" by (rule UpsertProducts_quiet [OF assms(1)])
  have "\<exists>d2. MarkSeen r ps ?d1 = (Inr (), d2)
      \<and> set (tbl_seen d2) = set (tbl_seen (rs_db s)) \<union> Pair r ` p_hash ` set ps
      \<and> (distinct (tbl_seen (rs_db s)) \<longrightarrow> distinct (tbl_seen d2)) \<and> (\<exists>x. d2 = ?d1\<lparr>tbl_seen := x\<rparr>)"
    using assms
    by (auto simp: MarkSeen_def Let_def sql_mark_seen_def mark_set mark_distinct
        intro: exI [of _ "tbl_seen (rs_db s)"])
  then obtain d2 where m: "MarkSeen r ps ?d1 = (Inr (), d2)"
    and m': "set (tbl_seen d2) = set (tbl_seen (rs_db s)) \<union> Pair r ` p_hash ` set ps"
    "distinct (tbl_seen (rs_db s)) \<longrightarrow> distinct (tbl_seen d2)" "\<exists>x. d2 = ?d1\<lparr>tbl_seen := x\<rparr>"
    by blast
  have q: "script d2 = []" using m'(3) assms(1) by auto
  have "\<exists>ss. (if snaps then snd (RecordPriceSnapshots ps r d2) else d2) = d2\<lparr>tbl_snapshots := ss\<rparr>"
    using snapshots_quiet [OF q]
    by (auto simp: RecordPriceSnapshots_def intro: exI [of _ "tbl_snapshots d2"])
  then obtain ss where
    ss: "(if snaps then snd (RecordPriceSnapshots ps r d2) else d2) = d2\<lparr>tbl_snapshots := ss\<rparr>" ..
  have "scrape_handler r snaps ps s =
      (None, \<lparr>rs_db = d2\<lparr>tbl_snapshots := ss\<rparr>, rs_total = rs_total s + int (length ps)\<rparr>)"
    unfolding scrape_handler_def u sum.case prod.case m ss Let_def by simp
  moreover have "absorbed r [ps] s \<lparr>rs_db = d2\<lparr>tbl_snapshots := ss\<rparr>, rs_total = rs_total s + int (length ps)\<rparr>"
    using m' assms(1) by (auto simp: absorbed_def Let_def)
  ultimately show ?thesis by blast
qed

lemma absorbed_append:
  "absorbed r as s s' \<Longrightarrow> absorbed r bs s' s'' \<Longrightarrow> absorbed r (as @ bs) s s''"
  by (auto simp: absorbed_def Let_def upsert_table_append image_Un)

lemma feed_quiet:
  assumes "script (rs_db s) = []" "0 < r"
  shows "\<exists>s'. feed (scrape_handler r snaps) bs s = (map (\<lambda>b. True) bs, s') \<and> absorbed r bs s s'"
  using assms(1)
proof (induction bs arbitrary: s)
  case Nil
  then show ?case by (simp add: absorbed_def Let_def)
next
  case (Cons b bs)
  obtain s1 where 1: "scrape_handler r snaps b s = (None, s1)" "absorbed r [b] s s1"
    using handler_quiet [OF Cons.prems assms(2)] by blast
  then have "script (rs_db s1) = []" by (simp add: absorbed_def Let_def)
  from Cons.IH [OF this] obtain s2
    where 2: "feed (scrape_handler r snaps) bs s1 = (map (\<lambda>b. True) bs, s2)" "absorbed r bs s1 s2"
    by blast
  from 1(1) 2(1) absorbed_append [OF 1(2) 2(2)] show ?case by simp
qed

subsection \<open>Undisturbed runs\<close>

definition undisturbed :: "string \<Rightarrow> db \<Rightarrow> bool" where
  "undisturbed v d \<longleftrightarrow>
     script d = [] \<and> store_ok d \<and> scrape_lock_key v \<notin> set (locks d)
     \<and> list_all (\<lambda>(r, h). r < next_id d) (tbl_seen d)
     \<and> list_all (\<lambda>(h, x). p_vendor (r_product x) = v \<longrightarrow> r_updated x < now d) (tbl_products d)"

definition started_db :: "string \<Rightarrow> db \<Rightarrow> db" where
  "started_db v d = snd (sql_start_run v (now d) (snd (sql_try_lock (scrape_lock_key v) d)))"

lemma begin_run_quiet:
  "undisturbed v d \<Longrightarrow> begin_run v d = Some (next_id d, now d, started_db v d)"
  by (simp add: begin_run_def undisturbed_def AcquireScrapeLock_def StartScrapeRun_def started_db_def
      sql_defs)

text \<open>The number of products the vendor's last successful run recorded, 0 when there is none.\<close>

definition previous_count :: "string \<Rightarrow> db \<Rightarrow> int" where
  "previous_count v d = (case fst (sql_prev_count v d) of Inl _ \<Rightarrow> 0 | Inr n \<Rightarrow> n)"

definition plausible :: "string \<Rightarrow> int \<Rightarrow> nat \<Rightarrow> db \<Rightarrow> bool" where
  "plausible v n seen d \<longleftrightarrow>
     0 < n \<and> 0 < seen \<and> go_div n 2 \<le> int seen
     \<and> \<not> (previous_count v d > 0 \<and> n < go_div (previous_count v d) 2)"

lemma filter_own_seen:
  assumes "distinct xs" "set xs = old \<union> Pair r ` H" "\<forall>(r', h) \<in> old. r' \<noteq> r" "finite H"
  shows "length (filter (\<lambda>(r', h). r' = r) xs) = card H"
proof -
  have "set (filter (\<lambda>(r', h). r' = r) xs) = Pair r ` H" using assms(2,3) by auto
  moreover have "card (Pair r ` H) = card H" by (rule card_image) (auto simp: inj_on_def)
  ultimately show ?thesis using assms(1) distinct_card [of "filter (\<lambda>(r', h). r' = r) xs"] by simp
qed

lemma stale_cleanup_quiet:
  assumes "script d = []" "distinct (tbl_seen d)" "set (tbl_seen d) = old \<union> Pair r ` H"
    "\<forall>(r', h) \<in> old. r' \<noteq> r" "finite H" "failed \<le> 0"
    "go_div cur 2 \<le> int (card H)" "0 < card H" "\<not> (prev > 0 \<and> cur < go_div prev 2)"
  shows "stale_cleanup v r t failed prev cur d =
    (int (length (filter (stale_row d v t r) (tbl_products d))),
     d\<lparr>tbl_products := filter (\<lambda>x. \<not> stale_row d v t r x) (tbl_products d)\<rparr>)"
proof -
  have "fst (sql_count_seen r d) = Inr (int (card H))"
    using filter_own_seen [OF assms(2-5)] by (simp add: sql_count_seen_def)
  then have c: "sql_count_seen r d = (Inr (int (card H)), d)"
    by (cases "sql_count_seen r d") (simp add: sql_count_seen_def)
  have e: "stale_cleanup v r t failed prev cur d =
      (case deleteStaleIfSeenSetComplete v r t cur d of
         (Inl e, d) \<Rightarrow> (0, d) | (Inr deleted, d) \<Rightarrow> (deleted, d))"
    using assms(6,9) by (auto simp: stale_cleanup_def)
  have g: "seenSetComplete (int (card H)) cur"
    using assms(7,8) by (simp add: seenSetComplete_def)
  have "deleteStaleIfSeenSetComplete v r t cur d = DeleteStaleProducts v r t d"
    using assms(1) by (simp add: deleteStaleIfSeenSetComplete_def c g)
  with e assms(1) show ?thesis
    by (simp add: DeleteStaleProducts_def sql_delete_stale_def)
qed

lemma prev_count_started:
  "fst (sql_prev_count v (started_db w d)) = fst (sql_prev_count v d)"
  by (simp add: sql_prev_count_def started_db_def sql_start_run_def sql_try_lock_def split: option.split)

lemma tbl_tail_quiet:
  assumes "script d = []"
  shows "tbl_products (snd (FinishScrapeRun r s n k e d)) = tbl_products d"
    "tbl_products (snd (PruneScrapeRuns a b d)) = tbl_products d"
    "tbl_products (snd (ClearSeen r d)) = tbl_products d"
    "locks (snd (FinishScrapeRun r s n k e d)) = locks d"
    "locks (snd (PruneScrapeRuns a b d)) = locks d"
    "locks (snd (ClearSeen r d)) = locks d"
    "script (snd (FinishScrapeRun r s n k e d)) = []"
    "script (snd (PruneScrapeRuns a b d)) = []"
    "script (snd (ClearSeen r d)) = []"
    "tbl_products (release_scrape_lock w d) = tbl_products d"
    "locks (release_scrape_lock w d) = remove1 (scrape_lock_key w) (locks d)"
  using assms
  by (simp_all add: FinishScrapeRun_def PruneScrapeRuns_def ClearSeen_def release_scrape_lock_def sql_defs)

text \<open>The end of a run that passes the guards, once nothing interferes any more: cleanup, bookkeeping, unlock.\<close>

definition close_run :: "string \<Rightarrow> int \<Rightarrow> (string + bool) \<times> bool \<times> db \<Rightarrow> (string + bool) \<times> bool \<times> db" where
  "close_run v r x = (case x of (res, fresh, d) \<Rightarrow> (res, fresh, release_scrape_lock v (snd (ClearSeen r d))))"

lemma end_quiet:
  assumes "script (rs_db s) = []" "distinct (tbl_seen (rs_db s))" "set (tbl_seen (rs_db s)) = old \<union> Pair r ` H"
    and "\<forall>(r', h) \<in> old. r' \<noteq> r" "finite H" "plausible v (rs_total s) (card H) (rs_db s)"
    and "close_run v r (after_scrape name v r t appNow retain (None, 0, s)) = (res, fresh, d')"
  shows "res = Inr True" "fresh" "locks d' = remove1 (scrape_lock_key v) (locks (rs_db s))"
    "tbl_products d' = filter (\<lambda>(h, x). \<not> (p_vendor (r_product x) = v \<and> r_updated x < t \<and> h \<notin> H)) (tbl_products (rs_db s))"
proof -
  have q: "exec (sql_prev_count v) (rs_db s) = (fst (sql_prev_count v (rs_db s)), rs_db s)"
    using assms(1) run_inv_reads(3) [of v "rs_db s"] by (simp add: prod_eq_iff)
  have ne: "emptyScrapeError (rs_total s) 0 = None" using assms(6) by (simp add: emptyScrapeError_def plausible_def)
  let ?st = "stale_row (rs_db s) v t r"
  let ?t = "(rs_db s)\<lparr>tbl_products := filter (\<lambda>x. \<not> ?st x) (tbl_products (rs_db s))\<rparr>"
  have c: "stale_cleanup v r t 0 (previous_count v (rs_db s)) (rs_total s) (rs_db s)
      = (int (length (filter ?st (tbl_products (rs_db s)))), ?t)"
    by (rule stale_cleanup_quiet [OF assms(1-4)]) (use assms(5,6) in \<open>auto simp: plausible_def\<close>)
  have st: "?st = (\<lambda>(h, x). p_vendor (r_product x) = v \<and> r_updated x < t \<and> h \<notin> H)"
    using assms(3,4) by (auto simp: stale_row_def fun_eq_iff)
  have run: "after_scrape name v r t appNow retain (None, 0, s) =
      (Inr True, True, snd (PruneScrapeRuns appNow retain
         (snd (FinishScrapeRun r ''success'' (rs_total s) (int (length (filter ?st (tbl_products (rs_db s))))) None ?t))))"
    using c ne by (simp add: after_scrape_def q Let_def previous_count_def)
  have scr: "script ?t = []" using assms(1) by simp
  note e = assms(7) [unfolded run close_run_def prod.case]
  show "res = Inr True" "fresh" using e by simp_all
  show "locks d' = remove1 (scrape_lock_key v) (locks (rs_db s))" using e scr by (auto simp: tbl_tail_quiet)
  show "tbl_products d' = filter (\<lambda>(h, x). \<not> (p_vendor (r_product x) = v \<and> r_updated x < t \<and> h \<notin> H)) (tbl_products (rs_db s))"
    using e scr st by (auto simp: tbl_tail_quiet intro!: filter_cong)
qed

text \<open>The steps of an undisturbed complete run, up to the state the cleanup leaves.\<close>

lemma complete_run_table:
  assumes "undisturbed (to_lower (sc_name sc)) d"
    and "delivers sc (scrape_handler (next_id d) snaps)
           \<lparr>rs_db = started_db (to_lower (sc_name sc)) d, rs_total = 0\<rparr> bs"
    and "sc_scrape sc (scrape_handler (next_id d) snaps)
           \<lparr>rs_db = started_db (to_lower (sc_name sc)) d, rs_total = 0\<rparr> = (None, 0, s)"
    and "plausible (to_lower (sc_name sc)) (int (length (concat bs))) (card (p_hash ` set (concat bs))) d"
    and "runOneScrape sc snaps appNow retain d = (res, fresh, d')"
  shows "res = Inr True" "fresh" "locks d' = locks d"
    "tbl_products d' =
       filter (\<lambda>(h, x). \<not> (p_vendor (r_product x) = to_lower (sc_name sc) \<and> r_updated x < now d
                          \<and> h \<notin> p_hash ` set (concat bs)))
         (upsert_table (now d) (concat (map (batches upsertBatchSize) bs)) (tbl_products d))"
proof -
  let ?v = "to_lower (sc_name sc)" and ?r = "next_id d" and ?H = "p_hash ` set (concat bs)"
  let ?d1 = "started_db ?v d"
  have und: "script d = []" "store_ok d" "scrape_lock_key ?v \<notin> set (locks d)"
    "\<forall>(r, h) \<in> set (tbl_seen d). r \<noteq> ?r"
    using assms(1) by (auto simp: undisturbed_def list_all_iff)
  have r: "0 < ?r" "distinct (tbl_seen d)" using und(2) by (simp_all add: store_ok_def)
  have d1: "script ?d1 = []" "tbl_products ?d1 = tbl_products d" "tbl_seen ?d1 = tbl_seen d"
    "now ?d1 = now d" "locks ?d1 = scrape_lock_key ?v # locks d"
    using und(1,3) by (simp_all add: started_db_def sql_start_run_def sql_try_lock_def)
  obtain s' where f: "feed (scrape_handler ?r snaps) bs \<lparr>rs_db = ?d1, rs_total = 0\<rparr> = (map (\<lambda>b. True) bs, s')"
      "absorbed ?r bs \<lparr>rs_db = ?d1, rs_total = 0\<rparr> s'"
    using feed_quiet [of "\<lparr>rs_db = ?d1, rs_total = 0\<rparr>" ?r snaps bs] d1(1) r(1) by auto
  with assms(2,3) have s: "s' = s" by (auto simp: delivers_def)
  have ab: "tbl_products (rs_db s) = upsert_table (now d) (concat (map (batches upsertBatchSize) bs)) (tbl_products d)"
    "set (tbl_seen (rs_db s)) = set (tbl_seen d) \<union> Pair ?r ` ?H" "distinct (tbl_seen (rs_db s))"
    "tbl_runs (rs_db s) = tbl_runs ?d1" "locks (rs_db s) = scrape_lock_key ?v # locks d"
    "script (rs_db s) = []" "rs_total s = int (length (concat bs))"
    using f(2) d1 r(2) unfolding s absorbed_def Let_def by simp_all
  have "fst (sql_prev_count ?v (rs_db s)) = fst (sql_prev_count ?v d)"
    using prev_count_started [of ?v ?v d] ab(4) by (simp add: sql_prev_count_def split: option.splits)
  with assms(4) ab(7) have p: "plausible ?v (rs_total s) (card ?H) (rs_db s)"
    by (simp add: plausible_def previous_count_def)
  have run: "close_run ?v ?r (after_scrape (sc_name sc) ?v ?r (now d) appNow retain (None, 0, s)) = (res, fresh, d')"
    using runOneScrape_begun [OF begin_run_quiet [OF assms(1)], of snaps appNow retain] assms(3,5)
    by (simp add: close_run_def)
  note e = end_quiet [OF ab(6,3,2) und(4) _ p run]
  show "res = Inr True" "fresh" "locks d' = locks d" using e(1-3) ab(5) by simp_all
  show "tbl_products d' =
       filter (\<lambda>(h, x). \<not> (p_vendor (r_product x) = ?v \<and> r_updated x < now d \<and> h \<notin> ?H))
         (upsert_table (now d) (concat (map (batches upsertBatchSize) bs)) (tbl_products d))"
    using e(4) ab(1) by simp
qed

lemma vendor_upsert_table:
  "map_of tbl h = Some y \<Longrightarrow> \<exists>x. map_of (upsert_table t bs tbl) h = Some x
     \<and> p_vendor (r_product x) = p_vendor (r_product y)"
proof (induction bs arbitrary: tbl y)
  case (Cons b bs)
  have "\<exists>z. map_of (fold (upsert_row t) (dedup_from p_hash [] b) tbl) h = Some z
      \<and> p_vendor (r_product z) = p_vendor (r_product y)"
    using Cons.prems by (auto simp: lookup_dedup_upsert merge_row_vendor split: option.split)
  with Cons.IH show ?case by fastforce
qed simp

lemma map_of_filter_pred:
  assumes "distinct (map fst xs)"
  shows "map_of (filter Q xs) k =
    (case map_of xs k of None \<Rightarrow> None | Some v \<Rightarrow> if Q (k, v) then Some v else None)"
  using assms by (induction xs) (auto simp: map_of_eq_None_iff split: option.splits dest: map_of_SomeD)

text \<open>
  C2: what a complete scrape does. When nothing interferes, the scraper reports success with no
  failed service, and the volume passes the two guards, then the run reports success and freshness,
  gives its lock back, keeps exactly the ingested hashes of its vendor (every other row of the
  vendor is deleted), leaves the other vendors' rows as they were, and every product ingested with
  one content is stored with that content.
\<close>

theorem complete_run_exact:
  assumes "undisturbed (to_lower (sc_name sc)) d"
    and "delivers sc (scrape_handler (next_id d) snaps)
           \<lparr>rs_db = started_db (to_lower (sc_name sc)) d, rs_total = 0\<rparr> bs"
    and "sc_scrape sc (scrape_handler (next_id d) snaps)
           \<lparr>rs_db = started_db (to_lower (sc_name sc)) d, rs_total = 0\<rparr> = (None, 0, s)"
    and "plausible (to_lower (sc_name sc)) (int (length (concat bs))) (card (p_hash ` set (concat bs))) d"
  shows "case runOneScrape sc snaps appNow retain d of (res, fresh, d') \<Rightarrow>
    res = Inr True \<and> fresh \<and> locks d' = locks d
    \<and> (\<forall>h. h \<in> p_hash ` set (concat bs) \<longrightarrow> lookup_row d' h \<noteq> None)
    \<and> (\<forall>h. h \<notin> p_hash ` set (concat bs) \<longrightarrow> lookup_row d' h =
         (case lookup_row d h of
            None \<Rightarrow> None
          | Some x \<Rightarrow> if p_vendor (r_product x) = to_lower (sc_name sc) then None else Some x))
    \<and> (\<forall>p \<in> set (concat bs). (\<forall>q \<in> set (concat bs). p_hash q = p_hash p \<longrightarrow> same_content q p) \<longrightarrow>
         (\<exists>x. lookup_row d' (p_hash p) = Some x \<and> same_content (r_product x) p))"
proof -
  let ?v = "to_lower (sc_name sc)" and ?H = "p_hash ` set (concat bs)"
  let ?cs = "concat (map (batches upsertBatchSize) bs)"
  obtain res fresh d' where run: "runOneScrape sc snaps appNow retain d = (res, fresh, d')"
    by (cases "runOneScrape sc snaps appNow retain d") auto
  note t = complete_run_table [OF assms run]
  have cs: "concat ?cs = concat bs"
    by (induction bs) (simp_all add: concat_batches upsertBatchSize_def)
  have keys: "distinct (map fst (tbl_products d))"
    using assms(1) by (simp add: undisturbed_def store_ok_def)
  have old: "r_updated x < now d" if "map_of (tbl_products d) h = Some x" "p_vendor (r_product x) = ?v" for h x
    using assms(1) that by (auto simp: undisturbed_def list_all_iff dest: map_of_SomeD)
  have lk: "lookup_row d' h =
      (case map_of (upsert_table (now d) ?cs (tbl_products d)) h of
         None \<Rightarrow> None
       | Some x \<Rightarrow> if p_vendor (r_product x) = ?v \<and> r_updated x < now d \<and> h \<notin> ?H then None else Some x)" for h
    unfolding lookup_row_def t(4) map_of_filter_pred [OF upsert_table_keys [OF keys]]
    by (simp split: option.split)
  have own: "lookup_row d' h = map_of (upsert_table (now d) ?cs (tbl_products d)) h" if "h \<in> ?H" for h
    using that unfolding lk by (simp split: option.split)
  have 1: "\<forall>h. h \<in> ?H \<longrightarrow> lookup_row d' h \<noteq> None"
    using dom_upsert_table [of "now d" ?cs "tbl_products d"] own unfolding cs by (metis Un_iff domIff)
  have 2: "lookup_row d' h = (case lookup_row d h of None \<Rightarrow> None
      | Some x \<Rightarrow> if p_vendor (r_product x) = ?v then None else Some x)" if h: "h \<notin> ?H" for h
  proof -
    have "lookup_row d' h = (case map_of (tbl_products d) h of None \<Rightarrow> None
        | Some x \<Rightarrow> if p_vendor (r_product x) = ?v \<and> r_updated x < now d \<and> h \<notin> ?H then None else Some x)"
      unfolding lk using upsert_table_other [of h ?cs "now d" "tbl_products d"] h unfolding cs by simp
    then show ?thesis using h old unfolding lookup_row_def by (simp split: option.split)
  qed
  have 3: "\<exists>x. lookup_row d' (p_hash p) = Some x \<and> same_content (r_product x) p"
    if "p \<in> set (concat bs)" "\<forall>q \<in> set (concat bs). p_hash q = p_hash p \<longrightarrow> same_content q p" for p
    using upsert_table_content [of ?cs p "tbl_products d" "now d"] own [of "p_hash p"] that unfolding cs
    by auto
  show ?thesis unfolding run prod.case using t(1-3) 1 2 3 by blast
qed

definition quiet_db :: db where
  "quiet_db = (fresh_db 10 [])\<lparr>tbl_products :=
     [aws_row ''a0'', aws_row ''a1'', (''z1'', \<lparr>r_product = sample_product ''z1'' ''azure'' ''s'', r_updated = 0\<rparr>)]\<rparr>"

theorem complete_run_exact_witness:
  "case runOneScrape (strict_scraper sample_batches) True 100 50 quiet_db of (res, fresh, d') \<Rightarrow>
     res = Inr True \<and> fresh \<and> lookup_row d' ''a0'' = None \<and> lookup_row d' ''a2'' \<noteq> None
     \<and> lookup_row d' ''z1'' = lookup_row quiet_db ''z1''"
proof -
  let ?sc = "strict_scraper sample_batches"
  let ?s0 = "\<lparr>rs_db = started_db ''aws'' quiet_db, rs_total = 0\<rparr>"
  let ?r = "sc_scrape ?sc (scrape_handler 1 True) ?s0"
  have n: "to_lower (sc_name ?sc) = ''aws''" "next_id quiet_db = 1" by code_simp+
  have 1: "undisturbed ''aws'' quiet_db" by code_simp
  obtain err failed s where r: "?r = (err, failed, s)" by (cases ?r) auto
  have "fst ?r = None" "fst (snd ?r) = 0" by code_simp+
  with r have 3: "?r = (None, 0, s)" by simp
  have c: "p_hash ` set (concat sample_batches) = {''a1'', ''a2''}"
    by (simp add: sample_batches_def sample_product_def)
  have two: "int (length (concat sample_batches)) = 2" "card {''a1'', ''a2''} = (2 :: nat)"
    by (simp_all add: sample_batches_def)
  have "plausible ''aws'' 2 2 quiet_db" by code_simp
  then have 4: "plausible ''aws'' (int (length (concat sample_batches)))
      (card (p_hash ` set (concat sample_batches))) quiet_db"
    by (simp only: c two)
  have z: "p_vendor (r_product (the (lookup_row quiet_db ''z1''))) = ''azure''"
    "p_vendor (r_product (the (lookup_row quiet_db ''a0''))) = ''aws''"
    "lookup_row quiet_db ''z1'' \<noteq> None" "lookup_row quiet_db ''a0'' \<noteq> None" by code_simp+
  note e = complete_run_exact [of ?sc quiet_db True sample_batches s 100 50, unfolded n,
      OF 1 replay_delivers_samples(1) 3 4, unfolded c]
  show ?thesis using e z by (auto split: prod.splits option.splits)
qed

subsection \<open>Further properties of runs and upserts\<close>

text \<open>
  The freshness gauge is set only for a run that reports data and ingested at least one
  product: a scraper that ends with no error and no product (every service failed, a revoked key)
  never makes a vendor look fresh, for every schedule and every failing statement.
\<close>

theorem freshness_needs_products:
  assumes "runOneScrape sc snaps appNow retain d = (res, fresh, d')" "fresh"
  shows "res = Inr True \<and> (\<exists>r t d1 failed s.
           begin_run (to_lower (sc_name sc)) d = Some (r, t, d1)
           \<and> sc_scrape sc (scrape_handler r snaps) \<lparr>rs_db = d1, rs_total = 0\<rparr> = (None, failed, s)
           \<and> 0 < rs_total s)"
proof (cases "begin_run (to_lower (sc_name sc)) d")
  case None
  with assms show ?thesis
    by (auto simp: begin_run_def runOneScrape_def locked_run_def split: prod.splits sum.splits bool.splits)
next
  case (Some x)
  obtain r t d1 where b: "begin_run (to_lower (sc_name sc)) d = Some (r, t, d1)"
    using Some by (cases x) auto
  obtain err failed s where sc:
    "sc_scrape sc (scrape_handler r snaps) \<lparr>rs_db = d1, rs_total = 0\<rparr> = (err, failed, s)"
    by (cases "sc_scrape sc (scrape_handler r snaps) \<lparr>rs_db = d1, rs_total = 0\<rparr>") auto
  have "fst (after_scrape (sc_name sc) (to_lower (sc_name sc)) r t appNow retain (err, failed, s)) = res
      \<and> fst (snd (after_scrape (sc_name sc) (to_lower (sc_name sc)) r t appNow retain (err, failed, s)))"
    using runOneScrape_begun [OF b, of snaps appNow retain] sc assms by (auto split: prod.splits)
  then have "res = Inr True \<and> err = None \<and> 0 < rs_total s"
    by (auto simp: after_scrape_def Let_def emptyScrapeError_def split: option.splits prod.splits if_splits)
  with b sc show ?thesis by blast
qed

theorem freshness_needs_products_witness:
  "\<exists>r t d1 failed s. begin_run ''aws'' quiet_db = Some (r, t, d1)
     \<and> sc_scrape (strict_scraper sample_batches) (scrape_handler r False) \<lparr>rs_db = d1, rs_total = 0\<rparr>
         = (None, failed, s) \<and> 0 < rs_total s"
proof -
  let ?run = "runOneScrape (strict_scraper sample_batches) False 100 50 quiet_db"
  obtain res fresh d' where run: "?run = (res, fresh, d')" by (cases ?run) auto
  have "fst (snd ?run)" by code_simp
  with run have f: "fresh" by simp
  have n: "to_lower (sc_name (strict_scraper sample_batches)) = ''aws''" by code_simp
  show ?thesis using freshness_needs_products [OF run f] unfolding n by blast
qed

text \<open>
  One scrape per vendor. While another session holds the vendor's advisory lock, a run does
  nothing: it reports success without freshness and its only effect is to have tried the lock.
\<close>

theorem held_lock_excludes:
  assumes "scrape_lock_key (to_lower (sc_name sc)) \<in> set (locks d)"
    and "script d = (env, Executed) # rest"
    and "list_all (\<lambda>a. a \<noteq> CrashRecovery \<and> a \<noteq> OtherUnlock (scrape_lock_key (to_lower (sc_name sc)))) env"
  shows "runOneScrape sc snaps appNow retain d
           = (Inr True, False, fold apply_env env (d\<lparr>script := rest\<rparr>))"
proof -
  let ?k = "scrape_lock_key (to_lower (sc_name sc))"
  have keep: "?k \<in> set (locks (apply_env a d))"
    if "a \<noteq> CrashRecovery" "a \<noteq> OtherUnlock ?k" "?k \<in> set (locks d)" for a d
    using that by (cases a) (auto simp: apply_env_def sql_defs in_set_remove1)
  have "?k \<in> set (locks (fold apply_env env (d\<lparr>script := rest\<rparr>)))"
    by (rule fold_env_keeps [OF assms(3)]) (use assms(1) keep in auto)
  then show ?thesis
    by (simp add: runOneScrape_def AcquireScrapeLock_def exec_def assms(2) Let_def sql_try_lock_def)
qed

theorem held_lock_excludes_witness:
  "fst (runOneScrape (strict_scraper sample_batches) False 0 0
     ((fresh_db 5 [([Tick 3, OtherUnlock ''scrape:gcp''], Executed)])\<lparr>locks := [''scrape:aws'']\<rparr>)) = Inr True"
proof -
  let ?d = "(fresh_db 5 [([Tick 3, OtherUnlock ''scrape:gcp''], Executed)])\<lparr>locks := [''scrape:aws'']\<rparr>"
  have 1: "scrape_lock_key (to_lower (sc_name (strict_scraper sample_batches))) = ''scrape:aws''" by code_simp
  have 2: "list_all (\<lambda>a. a \<noteq> CrashRecovery
      \<and> a \<noteq> OtherUnlock (scrape_lock_key (to_lower (sc_name (strict_scraper sample_batches)))))
      [Tick 3, OtherUnlock ''scrape:gcp'']"
    unfolding 1 by simp
  show ?thesis
    using held_lock_excludes [of "strict_scraper sample_batches" ?d, OF _ _ 2] 1 by (simp add: fresh_db_def)
qed

text \<open>Upserting what the table already holds.\<close>

definition stored :: "(string \<times> row) list \<Rightarrow> product \<Rightarrow> bool" where
  "stored tbl p \<longleftrightarrow> (\<exists>x. map_of tbl (p_hash p) = Some x \<and> same_content (r_product x) p)"

lemma upsert_row_stored:
  assumes "stored tbl p"
  shows "upsert_row t p tbl = tbl"
proof -
  obtain x where "map_of tbl (p_hash p) = Some x" "same_content (r_product x) p"
    using assms by (auto simp: stored_def)
  then show ?thesis
    by (simp add: upsert_row_def row_changed_def same_content_def same_map_iff)
qed

lemma upsert_rows_stored:
  "\<forall>p \<in> set ps. stored tbl p \<Longrightarrow> fold (upsert_row t) ps tbl = tbl"
  by (induction ps) (simp_all add: upsert_row_stored)

lemma upsert_table_stored:
  "\<forall>p \<in> set (concat bs). stored tbl p \<Longrightarrow> upsert_table t bs tbl = tbl"
proof (induction bs)
  case (Cons b bs)
  then have "fold (upsert_row t) (dedup_from p_hash [] b) tbl = tbl"
    using dedup_from_subset [of p_hash "[]" b] by (intro upsert_rows_stored) auto
  with Cons show ?case by simp
qed simp

text \<open>
  Re-scraping unchanged data is free. When every hash of a list occurs with one content, a
  second \<open>UpsertProducts\<close> of the list, at any later time and cut into any batches, changes no row,
  not even its \<open>updated_at\<close>.
\<close>

theorem upsert_idempotent:
  assumes "script d = []"
    and "\<forall>p \<in> set ps. \<forall>q \<in> set ps. p_hash q = p_hash p \<longrightarrow> same_content q p"
  shows "let d1 = (snd (UpsertProducts ps d))\<lparr>now := t\<rparr>
         in UpsertProducts ps d1 = (Inr (), d1)"
proof -
  let ?bs = "batches upsertBatchSize ps"
  let ?T = "upsert_table (now d) ?bs (tbl_products d)"
  have c: "concat ?bs = ps" by (simp add: concat_batches upsertBatchSize_def)
  have s: "\<forall>p \<in> set (concat ?bs). stored ?T p"
  proof
    fix p assume p: "p \<in> set (concat ?bs)"
    show "stored ?T p"
      unfolding stored_def by (rule upsert_table_content) (use p assms(2) c in auto)
  qed
  show ?thesis
    using assms(1) upsert_table_stored [OF s, of t]
    by (simp add: UpsertProducts_quiet Let_def)
qed

theorem upsert_idempotent_witness:
  "let ps = concat sample_batches; d1 = (snd (UpsertProducts ps quiet_db))\<lparr>now := 99\<rparr>
   in UpsertProducts ps d1 = (Inr (), d1)"
proof -
  have "script quiet_db = []" by code_simp
  then show ?thesis
    using upsert_idempotent [of quiet_db "concat sample_batches" 99]
    by (simp add: Let_def sample_batches_def sample_product_def same_content_def)
qed

text \<open>
  An upsert never reclassifies a product. Whatever it says of family, region, service and
  vendor, a row that exists keeps the values it was inserted with: \<open>ON CONFLICT DO UPDATE\<close> sets
  the SKU, the attributes and the prices only.
\<close>

theorem upsert_keeps_classification:
  assumes "script d = []" "lookup_row d h = Some x"
  shows "\<exists>y. lookup_row (snd (UpsertProducts ps d)) h = Some y
     \<and> p_family (r_product y) = p_family (r_product x) \<and> p_region (r_product y) = p_region (r_product x)
     \<and> p_service (r_product y) = p_service (r_product x) \<and> p_vendor (r_product y) = p_vendor (r_product x)"
proof -
  have one: "\<exists>y. map_of (fold (upsert_row t) (dedup_from p_hash [] b) tbl) h = Some y
      \<and> p_family (r_product y) = p_family (r_product x) \<and> p_region (r_product y) = p_region (r_product x)
      \<and> p_service (r_product y) = p_service (r_product x) \<and> p_vendor (r_product y) = p_vendor (r_product x)"
    if "map_of tbl h = Some x" for x t b tbl
    using that by (auto simp: lookup_dedup_upsert merge_row_def split: option.split)
  have "\<exists>y. map_of (upsert_table t bs tbl) h = Some y
      \<and> p_family (r_product y) = p_family (r_product x) \<and> p_region (r_product y) = p_region (r_product x)
      \<and> p_service (r_product y) = p_service (r_product x) \<and> p_vendor (r_product y) = p_vendor (r_product x)"
    if "map_of tbl h = Some x" for x t bs tbl
    using that
  proof (induction bs arbitrary: tbl x)
    case (Cons b bs)
    from one [OF Cons.prems, of t b] Cons.IH show ?case by fastforce
  qed simp
  with assms show ?thesis by (simp add: UpsertProducts_quiet lookup_row_def)
qed

theorem upsert_keeps_classification_witness:
  "\<exists>y. lookup_row (snd (UpsertProducts
          [(sample_product ''a1'' ''aws'' ''new'')\<lparr>p_family := ''Storage''\<rparr>] quiet_db)) ''a1'' = Some y
     \<and> p_family (r_product y) = ''Compute Instance''"
proof -
  have 1: "script quiet_db = []" by code_simp
  have 2: "lookup_row quiet_db ''a1'' = Some (snd (aws_row ''a1''))" by code_simp
  show ?thesis
    using upsert_keeps_classification [OF 1 2] by (auto simp: aws_row_def sample_product_def)
qed

lemma length_upsert_args: "length (concat (map upsert_args ps)) = 8 * length ps"
  by (induction ps) (simp_all add: upsert_args_def)

lemma nth_upsert_args:
  assumes "i < length ps" "k < 8"
  shows "concat (map upsert_args ps) ! (i * 8 + k) = upsert_args (ps ! i) ! k"
  using assms
proof (induction ps arbitrary: i)
  case (Cons p ps)
  have l: "length (upsert_args p) = 8" by (simp add: upsert_args_def)
  with Cons show ?case by (cases i) (simp_all add: nth_append)
qed simp

text \<open>
  The multi-row INSERT binds every value. For a batch the size check admits, the statement has
  eight arguments for each product, its placeholders are \<open>$1\<close>, \<open>$2\<close>, ... in the order of the
  arguments, and their number stays within PostgreSQL's 65535.
\<close>

theorem upsert_binds_parameters:
  assumes "length ps \<le> maxBatchSize" "i < length ps" "k < 8"
  shows "length (snd (upsert_statement ps)) = 8 * length ps \<and> 8 * length ps \<le> 65535
     \<and> i * 8 + k < length (snd (upsert_statement ps))
     \<and> snd (upsert_statement ps) ! (i * 8 + k) = upsert_args (ps ! i) ! k
     \<and> upsert_values i = ''('' @ join '', '' (map (\<lambda>j. ''$'' @ show_nat (Suc (i * 8 + j))) [0..<8]) @ '')''"
proof -
  have "map (\<lambda>k. ''$'' @ show_nat (i * 8 + k)) [1..<9] = map (\<lambda>j. ''$'' @ show_nat (Suc (i * 8 + j))) [0..<8]"
    by (simp add: upt_rec)
  moreover have "i * 8 + k < length ps * 8" using assms(2,3) by simp
  ultimately show ?thesis
    using assms length_upsert_args [of ps] nth_upsert_args [OF assms(2,3)]
    by (simp add: upsert_statement_def upsert_values_def maxBatchSize_eq Let_def)
qed

theorem upsert_binds_parameters_witness:
  "snd (upsert_statement (concat sample_batches)) ! 9 = ArgStr ''new''"
proof -
  have l: "length (concat sample_batches) = 2" by (simp add: sample_batches_def)
  show ?thesis
    using upsert_binds_parameters [of "concat sample_batches" 1 1]
    by (simp add: l maxBatchSize_eq upsert_args_def) (simp add: sample_batches_def sample_product_def)
qed

end
