(* ===== verification/Crash_Recovery.thy ===== *)
theory Crash_Recovery
  imports Run_Effect
begin




subsection \<open>A crash recovery before a batch\<close>






subsection \<open>A run that loses a product\<close>




end
