(* ===== verification/Json_String.thy ===== *)
theory Json_String
  imports Pricing_Types
begin

text \<open>
  JSON string literals: the escaping \<open>json.Marshal\<close> applies to a Go string (HTML characters, the
  line separators and bytes that are not UTF-8 included), and the reading of a literal by a JSON
  parser such as PostgreSQL's \<open>jsonb\<close> input. Strings are byte lists.
\<close>

subsection \<open>UTF-8\<close>

definition byte :: "char \<Rightarrow> nat" where "byte c = of_char c"

definition cont :: "char \<Rightarrow> bool" where "cont c \<longleftrightarrow> 128 \<le> byte c \<and> byte c \<le> 191"

text \<open>
  The number of bytes of the well-formed sequence a string starts with, as \<open>utf8.DecodeRune\<close> sees
  it; \<open>None\<close> where it reports the replacement character for one byte.
\<close>

fun utf8_width :: "string \<Rightarrow> nat option" where
  "utf8_width [] = None"
| "utf8_width (c # s) =
     (let b = byte c in
      if b < 128 then Some 1
      else if 194 \<le> b \<and> b \<le> 223 then (case s of d # _ \<Rightarrow> if cont d then Some 2 else None | _ \<Rightarrow> None)
      else if 224 \<le> b \<and> b \<le> 239 then
        (case s of d # e # _ \<Rightarrow>
           if cont d \<and> cont e \<and> (b = 224 \<longrightarrow> 160 \<le> byte d) \<and> (b = 237 \<longrightarrow> byte d \<le> 159)
           then Some 3 else None
         | _ \<Rightarrow> None)
      else if 240 \<le> b \<and> b \<le> 244 then
        (case s of d # e # f # _ \<Rightarrow>
           if cont d \<and> cont e \<and> cont f \<and> (b = 240 \<longrightarrow> 144 \<le> byte d) \<and> (b = 244 \<longrightarrow> byte d \<le> 143)
           then Some 4 else None
         | _ \<Rightarrow> None)
      else None)"

lemma utf8_width_bounds: "utf8_width s = Some n \<Longrightarrow> 1 \<le> n \<and> n \<le> length s \<and> n \<le> 4"
  by (cases s) (auto simp: Let_def split: if_splits list.splits)

lemma utf8_width_ascii: "byte c < 128 \<Longrightarrow> utf8_width (c # s) = Some 1"
  by (simp add: Let_def)

lemma utf8_high:
  assumes "utf8_width (c # t) = Some n" "128 \<le> byte c"
  shows "list_all (\<lambda>c. 128 \<le> byte c) (take n (c # t))"
  using assms by (auto simp: Let_def cont_def split: if_splits list.splits)

declare utf8_width.simps(2) [simp del]

function utf8_valid :: "string \<Rightarrow> bool" where
  "utf8_valid s =
     (if s = [] then True
      else (case utf8_width s of None \<Rightarrow> False | Some n \<Rightarrow> utf8_valid (drop n s)))"
  by pat_completeness auto
termination
  by (relation "measure length") (auto dest!: utf8_width_bounds)

declare utf8_valid.simps [simp del]

lemma ascii_valid: "list_all (\<lambda>c. byte c < 128) s \<Longrightarrow> utf8_valid s"
proof (induction s)
  case (Cons c s)
  then show ?case by (simp add: utf8_valid.simps [of "c # s"] utf8_width_ascii)
qed (simp add: utf8_valid.simps)

subsection \<open>Encoding\<close>

definition hex_digit :: "nat \<Rightarrow> char" where
  "hex_digit n = (if n < 10 then char_of (48 + n) else char_of (87 + n))"

definition quote :: char where "quote = CHR 0x22"
definition bslash :: char where "bslash = CHR 0x5C"

definition unicode_escape :: "nat \<Rightarrow> string" where
  "unicode_escape n = bslash # CHR ''u'' #
     map (\<lambda>k. hex_digit (n div 16 ^ k mod 16)) [3, 2, 1, 0]"

definition escape_ascii :: "char \<Rightarrow> string" where
  "escape_ascii c =
     (if c = quote \<or> c = bslash then [bslash, c]
      else if c = CHR 0x08 then [bslash, CHR ''b'']
      else if c = CHR 0x0C then [bslash, CHR ''f'']
      else if c = CHR 0x0A then [bslash, CHR ''n'']
      else if c = CHR 0x0D then [bslash, CHR ''r'']
      else if c = CHR 0x09 then [bslash, CHR ''t'']
      else if byte c < 32 \<or> c = CHR ''<'' \<or> c = CHR ''>'' \<or> c = CHR ''&''
        then unicode_escape (byte c)
      else [c])"

definition line_separators :: "string list" where
  "line_separators = [[CHR 0xE2, CHR 0x80, CHR 0xA8], [CHR 0xE2, CHR 0x80, CHR 0xA9]]"

function json_escape :: "string \<Rightarrow> string" where
  "json_escape s =
     (case s of
        [] \<Rightarrow> []
      | c # rest \<Rightarrow>
          if byte c < 128 then escape_ascii c @ json_escape rest
          else (case utf8_width s of
                  None \<Rightarrow> unicode_escape 65533 @ json_escape rest
                | Some n \<Rightarrow>
                    if take n s = line_separators ! 0 then unicode_escape 8232 @ json_escape (drop n s)
                    else if take n s = line_separators ! 1 then unicode_escape 8233 @ json_escape (drop n s)
                    else take n s @ json_escape (drop n s)))"
  by pat_completeness auto
termination
  by (relation "measure length") (auto dest!: utf8_width_bounds)

declare json_escape.simps [simp del]

definition json_string :: "string \<Rightarrow> string" where
  "json_string s = quote # json_escape s @ [quote]"

subsection \<open>Reading a literal\<close>

definition hex_value :: "char \<Rightarrow> nat option" where
  "hex_value c =
     (let b = byte c in
      if 48 \<le> b \<and> b \<le> 57 then Some (b - 48)
      else if 97 \<le> b \<and> b \<le> 102 then Some (b - 87)
      else if 65 \<le> b \<and> b \<le> 70 then Some (b - 55)
      else None)"

definition utf8_encode :: "nat \<Rightarrow> string" where
  "utf8_encode n =
     (if n < 128 then [char_of n]
      else if n < 2048 then [char_of (192 + n div 64), char_of (128 + n mod 64)]
      else [char_of (224 + n div 4096), char_of (128 + n div 64 mod 64), char_of (128 + n mod 64)])"

definition read_hex4 :: "char \<Rightarrow> char \<Rightarrow> char \<Rightarrow> char \<Rightarrow> nat option" where
  "read_hex4 a b c d =
     (case (hex_value a, hex_value b, hex_value c, hex_value d) of
        (Some w, Some x, Some y, Some z) \<Rightarrow> Some (((w * 16 + x) * 16 + y) * 16 + z)
      | _ \<Rightarrow> None)"

definition short_escape :: "char \<Rightarrow> char option" where
  "short_escape c =
     (if c = quote \<or> c = bslash \<or> c = CHR ''/'' then Some c
      else if c = CHR ''b'' then Some (CHR 0x08) else if c = CHR ''f'' then Some (CHR 0x0C)
      else if c = CHR ''n'' then Some (CHR 0x0A) else if c = CHR ''r'' then Some (CHR 0x0D)
      else if c = CHR ''t'' then Some (CHR 0x09) else None)"

text \<open>After the opening quote: the value and what follows the closing quote.\<close>

fun read_json :: "string \<Rightarrow> (string \<times> string) option" where
  "read_json [] = None"
| "read_json (c # s) =
     (if c = quote then Some ([], s)
      else if c = bslash then
        (case s of
           [] \<Rightarrow> None
         | e # s' \<Rightarrow>
             if e = CHR ''u'' then
               (case s' of
                  w # x # y # z # t \<Rightarrow>
                    (case read_hex4 w x y z of
                       None \<Rightarrow> None
                     | Some n \<Rightarrow> (case read_json t of None \<Rightarrow> None
                                 | Some (v, r) \<Rightarrow> Some (utf8_encode n @ v, r)))
                | _ \<Rightarrow> None)
             else (case short_escape e of
                     None \<Rightarrow> None
                   | Some d \<Rightarrow> (case read_json s' of None \<Rightarrow> None | Some (v, r) \<Rightarrow> Some (d # v, r))))
      else (case read_json s of None \<Rightarrow> None | Some (v, r) \<Rightarrow> Some (c # v, r)))"

definition read_string :: "string \<Rightarrow> (string \<times> string) option" where
  "read_string s = (case s of c # t \<Rightarrow> if c = quote then read_json t else None | [] \<Rightarrow> None)"

subsection \<open>Round trip\<close>

lemma byte_less: "byte c < 256"
  by (simp add: byte_def)

lemma read_json_plain:
  "c \<noteq> quote \<Longrightarrow> c \<noteq> bslash \<Longrightarrow>
   read_json (c # s) = map_option (\<lambda>(v, r). (c # v, r)) (read_json s)"
  by (simp split: option.split)

lemma read_json_plains:
  "list_all (\<lambda>c. 128 \<le> byte c) u \<Longrightarrow>
   read_json (u @ s) = map_option (\<lambda>(v, r). (u @ v, r)) (read_json s)"
proof (induction u)
  case (Cons c u)
  then have "c \<noteq> quote" "c \<noteq> bslash" by (auto simp: quote_def bslash_def byte_def)
  with Cons show ?case by (simp add: read_json_plain option.map_comp comp_def case_prod_beta del: read_json.simps)
qed (cases "read_json s"; simp)

lemma hex_digit_value: "n < 16 \<Longrightarrow> hex_value (hex_digit n) = Some n"
  by (auto simp: hex_value_def hex_digit_def byte_def Let_def)

lemma read_unicode_escape:
  assumes "n < 65536"
  shows "read_json (unicode_escape n @ s) = map_option (\<lambda>(v, r). (utf8_encode n @ v, r)) (read_json s)"
proof -
  have h: "read_hex4 (hex_digit (n div 4096 mod 16)) (hex_digit (n div 256 mod 16))
      (hex_digit (n div 16 mod 16)) (hex_digit (n mod 16)) = Some n"
  proof -
    have "(((n div 4096 mod 16) * 16 + n div 256 mod 16) * 16 + n div 16 mod 16) * 16 + n mod 16 = n"
    proof -
      have "n div 256 = n div 4096 * 16 + n div 256 mod 16" "n div 16 = n div 256 * 16 + n div 16 mod 16"
        using div_mult_mod_eq [of "n div 256" 16] div_mult_mod_eq [of "n div 16" 16]
        by (simp_all add: div_mult2_eq [symmetric])
      moreover have "n div 4096 mod 16 = n div 4096" using assms by simp
      ultimately show ?thesis using div_mult_mod_eq [of n 16] by presburger
    qed
    then show ?thesis
      using hex_digit_value [of "n div 4096 mod 16"] hex_digit_value [of "n div 256 mod 16"]
        hex_digit_value [of "n div 16 mod 16"] hex_digit_value [of "n mod 16"]
      by (simp only: read_hex4_def mod_less_divisor zero_less_numeral option.case prod.case)
  qed
  show ?thesis
    by (simp add: unicode_escape_def h quote_def bslash_def split: option.split)
qed

lemma read_escape_ascii:
  assumes "byte c < 128"
  shows "read_json (escape_ascii c @ s) = map_option (\<lambda>(v, r). (c # v, r)) (read_json s)"
proof -
  have u: "utf8_encode (byte c) = [c]" using assms by (simp add: utf8_encode_def byte_def)
  have b: "byte c < 65536" using assms by simp
  have short: "read_json (bslash # e # s) = map_option (\<lambda>(v, r). (d # v, r)) (read_json s)"
    if "short_escape e = Some d" "e \<noteq> CHR ''u''" for e d
    using that by (simp add: quote_def bslash_def split: option.split)
  have sh: "short_escape (CHR ''b'') = Some (CHR 0x08)" "short_escape (CHR ''f'') = Some (CHR 0x0C)"
    "short_escape (CHR ''n'') = Some (CHR 0x0A)" "short_escape (CHR ''r'') = Some (CHR 0x0D)"
    "short_escape (CHR ''t'') = Some (CHR 0x09)" "short_escape quote = Some quote"
    "short_escape bslash = Some bslash" "quote \<noteq> CHR ''u''" "bslash \<noteq> CHR ''u''"
    by (simp_all add: short_escape_def quote_def bslash_def)
  note esc = short [OF sh(1)] short [OF sh(2)] short [OF sh(3)] short [OF sh(4)] short [OF sh(5)]
    short [OF sh(6) sh(8)] short [OF sh(7) sh(9)]
  show ?thesis
  proof (cases "c = quote \<or> c = bslash")
    case True
    with esc show ?thesis by (auto simp: escape_ascii_def simp del: read_json.simps)
  next
    case False
    with esc u b show ?thesis
      by (auto simp: escape_ascii_def read_json_plain read_unicode_escape simp del: read_json.simps)
  qed
qed

lemma line_separator_code:
  "utf8_encode 8232 = line_separators ! 0" "utf8_encode 8233 = line_separators ! 1"
  by code_simp+

lemma read_json_escape:
  "utf8_valid s \<Longrightarrow> read_json (json_escape s @ quote # r) = Some (s, r)"
proof (induction s rule: json_escape.induct)
  case (1 s)
  show ?case
  proof (cases s)
    case Nil
    then show ?thesis by (simp add: json_escape.simps [of "[]"])
  next
    case (Cons c t)
    have "case utf8_width s of None \<Rightarrow> False | Some n \<Rightarrow> utf8_valid (drop n s)"
      using "1.prems" Cons by (subst (asm) utf8_valid.simps) simp
    then obtain n where n: "utf8_width s = Some n" "utf8_valid (drop n s)"
      by (auto split: option.splits)
    show ?thesis
    proof (cases "byte c < 128")
      case True
      with n Cons have "utf8_valid t" by (auto simp: utf8_width_ascii)
      with "1.IH"(1) [OF Cons True] True Cons show ?thesis
        by (simp add: json_escape.simps [of "c # t"] read_escape_ascii del: read_json.simps)
    next
      case False
      have h: "list_all (\<lambda>c. 128 \<le> byte c) (take n s)"
        using utf8_high n(1) False unfolding Cons by simp
      have ih: "read_json (json_escape (drop n s) @ quote # r) = Some (drop n s, r)"
        using "1.IH"(3,4,5) [OF Cons False n(1)] n(2) by blast
      have td: "take n s @ drop n s = s" by simp
      show ?thesis
      proof (cases "take n s = line_separators ! 0 \<or> take n s = line_separators ! 1")
        case True
        with False Cons n(1) ih td show ?thesis
          by (auto simp: json_escape.simps [of "c # t"] read_unicode_escape line_separator_code
              simp del: read_json.simps append_take_drop_id)
      next
        case no: False
        with False Cons n(1) ih td show ?thesis
          by (simp add: json_escape.simps [of "c # t"] read_json_plains [OF h [unfolded Cons]] del: read_json.simps)
      qed
    qed
  qed
qed

lemma read_json_string:
  "utf8_valid s \<Longrightarrow> read_string (json_string s @ r) = Some (s, r)"
  by (simp add: read_string_def json_string_def read_json_escape)

end
