(* ===== verification/Url_Redact.thy ===== *)
theory Url_Redact
  imports Json_String
begin

text \<open>
  \<open>redactSensitiveParams\<close> of \<^verbatim>\<open>internal/server/server.go\<close>, which the access log applies to the
  request URI, with what it uses of \<open>net/url\<close>: splitting a URL in front of its query and its
  fragment, \<open>ParseQuery\<close>, \<open>Values.Has\<close>, \<open>Set\<close> and \<open>Encode\<close>, \<open>QueryEscape\<close> and \<open>QueryUnescape\<close>.
  What \<open>net/url\<close> makes of the part in front of the query and of a fragment (a parse error, or the
  text \<open>String\<close> prints for it) are the parameters \<open>url_head\<close> and \<open>url_frag\<close>.
\<close>

subsection \<open>Escaping\<close>

definition unreserved :: "char \<Rightarrow> bool" where
  "unreserved c \<longleftrightarrow>
     (let b = byte c in
      (48 \<le> b \<and> b \<le> 57) \<or> (65 \<le> b \<and> b \<le> 90) \<or> (97 \<le> b \<and> b \<le> 122)
      \<or> c \<in> {CHR ''-'', CHR ''_'', CHR ''.'', CHR ''~''})"

definition hex_upper :: "nat \<Rightarrow> char" where
  "hex_upper d = ''0123456789ABCDEF'' ! (d mod 16)"

definition escape_byte :: "char \<Rightarrow> string" where
  "escape_byte c =
     (if unreserved c then [c] else if c = CHR '' '' then ''+''
      else [CHR ''%'', hex_upper (byte c div 16), hex_upper (byte c)])"

definition QueryEscape :: "string \<Rightarrow> string" where
  "QueryEscape s = concat (map escape_byte s)"

fun QueryUnescape :: "string \<Rightarrow> string option" where
  "QueryUnescape [] = Some []"
| "QueryUnescape (c # s) =
     (if c = CHR ''%'' then
        (case s of
           a # b # t \<Rightarrow>
             (case (hex_value a, hex_value b) of
                (Some x, Some y) \<Rightarrow> map_option (Cons (char_of (16 * x + y))) (QueryUnescape t)
              | _ \<Rightarrow> None)
         | _ \<Rightarrow> None)
      else map_option (Cons (if c = CHR ''+'' then CHR '' '' else c)) (QueryUnescape s))"

subsection \<open>Queries\<close>

type_synonym url_values = "(string \<times> string list) list"

definition values_of :: "url_values \<Rightarrow> string \<Rightarrow> string list" where
  "values_of q k = (case map_of q k of None \<Rightarrow> [] | Some vs \<Rightarrow> vs)"

definition q_add :: "string \<times> string \<Rightarrow> url_values \<Rightarrow> url_values" where
  "q_add kv q = (case kv of (k, v) \<Rightarrow> AList.update k (values_of q k @ [v]) q)"

text \<open>One \<open>key=value\<close> of a query; \<open>ParseQuery\<close> drops a pair it cannot read.\<close>

definition decode_pair :: "string \<Rightarrow> (string \<times> string) option" where
  "decode_pair kv =
     (if CHR '';'' \<in> set kv \<or> kv = '''' then None
      else
        (let k = takeWhile (\<lambda>c. c \<noteq> CHR ''='') kv; v = drop (length k + 1) kv in
         case (QueryUnescape k, QueryUnescape v) of
           (Some k, Some v) \<Rightarrow> Some (k, v) | _ \<Rightarrow> None))"

definition ParseQuery :: "string \<Rightarrow> url_values" where
  "ParseQuery s = fold q_add (List.map_filter decode_pair (split_on (CHR ''&'') s)) []"

definition encode_pair :: "string \<Rightarrow> string \<Rightarrow> string" where
  "encode_pair k v = QueryEscape k @ ''='' @ QueryEscape v"

definition Encode :: "url_values \<Rightarrow> string" where
  "Encode q = join ''&'' (concat (map (\<lambda>k. map (encode_pair k) (values_of q k)) (sort (map fst q))))"

subsection \<open>The redaction\<close>

definition sensitive_params :: "string list" where
  "sensitive_params = [''api_key'', ''apikey'', ''token'', ''secret'', ''password'']"

definition redacted :: string where "redacted = ''[REDACTED]''"

definition redact_query :: "url_values \<Rightarrow> url_values" where
  "redact_query q =
     fold (\<lambda>key q. if map_of q key \<noteq> None then AList.update key [redacted] q else q) sensitive_params q"

definition cut :: "char \<Rightarrow> string \<Rightarrow> string \<times> string option" where
  "cut sep s =
     (case index_byte s sep of None \<Rightarrow> (s, None) | Some i \<Rightarrow> (take i s, Some (drop (i + 1) s)))"

definition is_ctl :: "char \<Rightarrow> bool" where
  "is_ctl c \<longleftrightarrow> byte c < 32 \<or> byte c = 127"

text \<open>\<open>url.Parse\<close>: the printed head, the raw query, \<open>ForceQuery\<close> and the printed fragment.\<close>

definition url_parse ::
  "(string \<Rightarrow> string option) \<Rightarrow> (string \<Rightarrow> string option) \<Rightarrow> string
     \<Rightarrow> (string \<times> string \<times> bool \<times> string) option" where
  "url_parse url_head url_frag raw =
     (case cut (CHR ''#'') raw of
        (u, frag) \<Rightarrow>
          if list_ex is_ctl u then None
          else
            (case cut (CHR ''?'') u of
               (h, q) \<Rightarrow>
                 (case (url_head h, if frag = None \<or> frag = Some '''' then Some '''' else url_frag (the frag)) of
                    (Some h, Some f) \<Rightarrow>
                      Some (h, (case q of None \<Rightarrow> '''' | Some q \<Rightarrow> q), q = Some '''', f)
                  | _ \<Rightarrow> None)))"

definition url_string :: "string \<Rightarrow> string \<Rightarrow> bool \<Rightarrow> string \<Rightarrow> string" where
  "url_string h q force frag =
     h @ (if force \<or> q \<noteq> '''' then ''?'' @ q else '''') @ (if frag \<noteq> '''' then ''#'' @ frag else '''')"

definition redactSensitiveParams ::
  "(string \<Rightarrow> string option) \<Rightarrow> (string \<Rightarrow> string option) \<Rightarrow> string \<Rightarrow> string" where
  "redactSensitiveParams url_head url_frag rawURL =
     (case url_parse url_head url_frag rawURL of
        None \<Rightarrow> rawURL
      | Some (h, q, force, frag) \<Rightarrow> url_string h (Encode (redact_query (ParseQuery q))) force frag)"

subsection \<open>Escaping round trip\<close>

definition plain_query_char :: "char \<Rightarrow> bool" where
  "plain_query_char c \<longleftrightarrow> c \<notin> {CHR ''&'', CHR '';'', CHR ''='', CHR ''#'', CHR ''?'', CHR '' ''}"

lemma hex_upper_value: "n < 16 \<Longrightarrow> hex_value (hex_upper n) = Some n"
proof -
  assume "n < 16"
  then have "n \<in> set [0..<16]" by simp
  moreover have "list_all (\<lambda>n. hex_value (hex_upper n) = Some n) [0..<16]" by code_simp
  ultimately show ?thesis by (simp only: list_all_iff)
qed

lemma hex_upper_plain: "plain_query_char (hex_upper n) \<and> hex_upper n \<noteq> CHR ''%''"
proof -
  have "n mod 16 \<in> set [0..<16]" by simp
  moreover have "list_all (\<lambda>n. plain_query_char (hex_upper n) \<and> hex_upper n \<noteq> CHR ''%'') [0..<16]" by code_simp
  ultimately have "plain_query_char (hex_upper (n mod 16)) \<and> hex_upper (n mod 16) \<noteq> CHR ''%''"
    unfolding list_all_iff by (rule bspec [rotated])
  then show ?thesis by (simp add: hex_upper_def)
qed

lemma unreserved_plain: "unreserved c \<Longrightarrow> plain_query_char c \<and> c \<noteq> CHR ''%'' \<and> c \<noteq> CHR ''+''"
  by (auto simp: unreserved_def plain_query_char_def Let_def byte_def)

lemma escape_byte_plain: "list_all plain_query_char (escape_byte c)"
  using hex_upper_plain unreserved_plain
  by (auto simp: escape_byte_def plain_query_char_def)

lemma QueryEscape_plain: "c \<in> set (QueryEscape s) \<Longrightarrow> plain_query_char c"
  using escape_byte_plain by (auto simp: QueryEscape_def list_all_iff)

lemma byte_split: "char_of (16 * (byte c div 16) + byte c mod 16) = c"
  by (simp add: byte_def)

lemma QueryUnescape_byte: "QueryUnescape (escape_byte c @ t) = map_option (Cons c) (QueryUnescape t)"
proof -
  have "hex_value (hex_upper (byte c div 16)) = Some (byte c div 16)"
    using byte_less [of c] by (intro hex_upper_value) simp
  moreover have "hex_value (hex_upper (byte c)) = Some (byte c mod 16)"
    using hex_upper_value [of "byte c mod 16"] by (simp add: hex_upper_def)
  ultimately show ?thesis
    using unreserved_plain [of c] byte_split [of c] by (simp add: escape_byte_def)
qed

lemma QueryUnescape_escape: "QueryUnescape (QueryEscape s) = Some s"
  by (induction s) (simp_all add: QueryEscape_def QueryUnescape_byte)

lemma decode_encode_pair: "decode_pair (encode_pair k v) = Some (k, v)"
proof -
  have p: "\<And>c s. c \<in> set (QueryEscape s) \<Longrightarrow> c \<noteq> CHR ''='' \<and> c \<noteq> CHR '';''"
    using QueryEscape_plain by (fastforce simp: plain_query_char_def)
  then have "takeWhile (\<lambda>c. c \<noteq> CHR ''='') (encode_pair k v) = QueryEscape k"
    by (auto simp: encode_pair_def takeWhile_append)
  moreover have "CHR '';'' \<notin> set (encode_pair k v)" using p by (auto simp: encode_pair_def)
  ultimately show ?thesis
    by (simp add: decode_pair_def Let_def QueryUnescape_escape) (simp add: encode_pair_def QueryUnescape_escape)
qed

subsection \<open>Reading an encoded query back\<close>

lemma values_of_add: "values_of (q_add (k', v) q) k = (if k = k' then values_of q k @ [v] else values_of q k)"
  by (simp add: values_of_def q_add_def update_conv')

lemma values_of_fold:
  "values_of (fold q_add kvs q) k = values_of q k @ map snd (filter (\<lambda>kv. fst kv = k) kvs)"
  by (induction kvs arbitrary: q) (auto simp: values_of_add)

lemma values_of_Nil [simp]: "values_of [] k = []"
  by (simp add: values_of_def)

lemma q_add_distinct: "distinct (map fst q) \<Longrightarrow> distinct (map fst (q_add kv q))"
  by (simp add: q_add_def distinct_update split: prod.split)

lemma ParseQuery_distinct: "distinct (map fst (ParseQuery s))"
proof -
  have "distinct (map fst (fold q_add kvs q))" if "distinct (map fst q)" for kvs and q :: url_values
    using that by (induction kvs arbitrary: q) (simp_all add: q_add_distinct)
  then show ?thesis by (simp add: ParseQuery_def)
qed

lemma redact_query_step:
  fixes q :: url_values
  shows "distinct (map fst q) \<Longrightarrow>
    distinct (map fst (if map_of q key \<noteq> None then AList.update key [redacted] q else q))"
  by (simp add: distinct_update)

lemma redact_query_distinct:
  fixes q :: url_values
  assumes "distinct (map fst q)"
  shows "distinct (map fst (redact_query q))"
proof -
  have "distinct (map fst (fold (\<lambda>key q. if map_of q key \<noteq> None then AList.update key [redacted] q else q) ks q))" for ks
    using assms
  proof (induction ks arbitrary: q)
    case (Cons k ks)
    then show ?case using redact_query_step [OF Cons.prems, of k] by (simp only: fold_simps o_apply)
  qed simp
  then show ?thesis by (simp add: redact_query_def)
qed

lemma map_filter_pairs:
  "List.map_filter decode_pair (concat (map (\<lambda>k. map (encode_pair k) (f k)) ks))
   = concat (map (\<lambda>k. map (Pair k) (f k)) ks)"
proof -
  have "List.map_filter decode_pair (map (encode_pair k) vs) = map (Pair k) vs" for k vs
    by (induction vs) (simp_all add: map_filter_simps decode_encode_pair)
  moreover have "List.map_filter decode_pair (xs @ ys) = List.map_filter decode_pair xs @ List.map_filter decode_pair ys" for xs ys
    by (induction xs) (simp_all add: map_filter_simps split: option.split)
  ultimately show ?thesis by (induction ks) (simp_all add: map_filter_simps)
qed

lemma filter_concat_pairs:
  "distinct ks \<Longrightarrow> map snd (filter (\<lambda>kv. fst kv = k) (concat (map (\<lambda>k. map (Pair k) (f k)) ks)))
     = (if k \<in> set ks then f k else [])"
proof (induction ks)
  case (Cons k' ks)
  have "map snd (filter (\<lambda>kv. fst kv = k) (map (Pair k') (f k'))) = (if k = k' then f k else [])"
    by (induction "f k'") (auto simp: filter_map o_def)
  with Cons show ?case by auto
qed simp

lemma ParseQuery_Encode:
  assumes "distinct (map fst q)"
  shows "values_of (ParseQuery (Encode q)) k = values_of q k"
proof -
  let ?ps = "concat (map (\<lambda>k. map (encode_pair k) (values_of q k)) (sort (map fst q)))"
  have free: "list_all (\<lambda>w. CHR ''&'' \<notin> set w) ?ps"
    using QueryEscape_plain by (fastforce simp: list_all_iff encode_pair_def plain_query_char_def)
  have "List.map_filter decode_pair (split_on (CHR ''&'') (Encode q)) = List.map_filter decode_pair ?ps"
  proof (cases "?ps = []")
    case True
    then show ?thesis unfolding Encode_def by (simp only:) (simp add: map_filter_simps decode_pair_def)
  next
    case False
    then show ?thesis unfolding Encode_def by (simp only: split_on_join [OF False free])
  qed
  then have "values_of (ParseQuery (Encode q)) k
     = map snd (filter (\<lambda>kv. fst kv = k) (concat (map (\<lambda>k. map (Pair k) (values_of q k)) (sort (map fst q)))))"
    by (simp only: ParseQuery_def values_of_fold map_filter_pairs) simp
  also have "\<dots> = (if k \<in> set (map fst q) then values_of q k else [])"
    using assms by (subst filter_concat_pairs) simp_all
  also have "\<dots> = values_of q k"
    by (auto simp: values_of_def map_of_eq_None_iff [symmetric] split: option.split)
  finally show ?thesis .
qed

subsection \<open>What the access log shows\<close>

lemma redact_fold_values:
  fixes q :: url_values
  shows "values_of (fold (\<lambda>key q. if map_of q key \<noteq> None then AList.update key [redacted] q else q) ks q) k
   = (if k \<in> set ks \<and> map_of q k \<noteq> None then [redacted] else values_of q k)"
proof (induction ks arbitrary: q)
  case (Cons k' ks)
  show ?case
    by (auto simp only: fold_simps o_apply Cons.IH list.set) (auto simp: values_of_def update_conv')
qed simp

lemma ParseQuery_nonempty: "map_of (ParseQuery s) k \<noteq> None \<longleftrightarrow> values_of (ParseQuery s) k \<noteq> []"
proof -
  have "map_of (fold q_add kvs q) k \<noteq> Some []" if "map_of q k \<noteq> Some []" for kvs and q :: url_values
    using that by (induction kvs arbitrary: q) (auto simp: q_add_def update_conv' split: prod.split)
  from this [of "[]"] show ?thesis by (auto simp: ParseQuery_def values_of_def split: option.split)
qed

text \<open>
  C32: For a request URI that parses, the access log prints a URI whose query, read back, holds
  exactly \<open>[REDACTED]\<close> for each of the five credential parameters that was given (however often and
  however escaped) and every other parameter unchanged, value by value.
\<close>

theorem secrets_redacted:
  assumes "url_parse url_head url_frag raw = Some (h, q, force, frag)"
  shows "\<exists>q'. redactSensitiveParams url_head url_frag raw = url_string h q' force frag
    \<and> (\<lambda>k. values_of (ParseQuery q') k)
      = (\<lambda>k. if k \<in> set sensitive_params \<and> values_of (ParseQuery q) k \<noteq> [] then [redacted]
             else values_of (ParseQuery q) k)"
proof (intro exI conjI ext)
  show "redactSensitiveParams url_head url_frag raw
    = url_string h (Encode (redact_query (ParseQuery q))) force frag"
    by (simp add: redactSensitiveParams_def assms)
  fix k
  have "values_of (ParseQuery (Encode (redact_query (ParseQuery q)))) k = values_of (redact_query (ParseQuery q)) k"
    by (intro ParseQuery_Encode redact_query_distinct ParseQuery_distinct)
  also have "\<dots> = (if k \<in> set sensitive_params \<and> values_of (ParseQuery q) k \<noteq> [] then [redacted]
             else values_of (ParseQuery q) k)"
    unfolding redact_query_def redact_fold_values ParseQuery_nonempty ..
  finally show "values_of (ParseQuery (Encode (redact_query (ParseQuery q)))) k = \<dots>" .
qed

text \<open>The hypothesis holds for a request whose token is escaped and given twice.\<close>

theorem secrets_redacted_witness:
  "url_parse Some Some ''/graphql?token=a%26b&q=1&to%6ben=c'' = Some (''/graphql'', ''token=a%26b&q=1&to%6ben=c'', False, '''')
   \<and> redactSensitiveParams Some Some ''/graphql?token=a%26b&q=1&to%6ben=c'' = ''/graphql?q=1&token=%5BREDACTED%5D''
   \<and> (\<exists>q'. redactSensitiveParams Some Some ''/graphql?token=a%26b&q=1&to%6ben=c'' = url_string ''/graphql'' q' False ''''
        \<and> values_of (ParseQuery q') ''token'' = [redacted])"
proof (intro conjI)
  show p: "url_parse Some Some ''/graphql?token=a%26b&q=1&to%6ben=c''
    = Some (''/graphql'', ''token=a%26b&q=1&to%6ben=c'', False, '''')"
    by code_simp
  show "redactSensitiveParams Some Some ''/graphql?token=a%26b&q=1&to%6ben=c'' = ''/graphql?q=1&token=%5BREDACTED%5D''"
    by code_simp
  have "values_of (ParseQuery ''token=a%26b&q=1&to%6ben=c'') ''token'' \<noteq> [] \<and> ''token'' \<in> set sensitive_params"
    by code_simp
  then show "\<exists>q'. redactSensitiveParams Some Some ''/graphql?token=a%26b&q=1&to%6ben=c'' = url_string ''/graphql'' q' False ''''
        \<and> values_of (ParseQuery q') ''token'' = [redacted]"
    using secrets_redacted [OF p] by (metis (no_types, lifting))
qed

end
