(* ===== verification/Go_Float.thy ===== *)
theory Go_Float
  imports Go_Strings
begin

text \<open>
  The \<open>float64\<close> values the scrapers compute with, and their decimal forms. A finite \<open>float64\<close> is the
  rational number it stands for; the two zeros are one value. An operation of the code is the exact
  operation followed by \<open>to_float64\<close>, the rounding to the nearest representable number, ties to the
  one with the even significand (53 bits, exponents down to -1074). \<open>strconv.ParseFloat\<close> reads decimal
  literals; a value too large for a \<open>float64\<close> is an error. The spellings of infinities, NaN and
  hexadecimal numbers, which no price list uses, are read as errors too. Sums and products that leave
  the range of \<open>float64\<close> are not modelled.
\<close>

subsection \<open>Rounding\<close>

definition round_half_even :: "rat \<Rightarrow> int" where
  "round_half_even x =
     (let n = \<lfloor>x\<rfloor>; r = x - of_int n in
      if r < 1 / 2 \<or> (r = 1 / 2 \<and> even n) then n else n + 1)"

fun bit_len :: "nat \<Rightarrow> nat" where
  "bit_len n = (if n = 0 then 0 else Suc (bit_len (n div 2)))"

declare bit_len.simps [simp del]

definition two_pow :: "int \<Rightarrow> rat" where
  "two_pow e = (if 0 \<le> e then 2 ^ nat e else 1 / 2 ^ nat (- e))"

text \<open>The exponent of the leading bit of a positive number.\<close>

definition top_bit :: "rat \<Rightarrow> int" where
  "top_bit x =
     (case quotient_of x of (p, q) \<Rightarrow>
        let e = int (bit_len (nat p)) - int (bit_len (nat q)) in if two_pow e \<le> x then e else e - 1)"

definition ulp_of :: "rat \<Rightarrow> rat" where
  "ulp_of x = two_pow (max (top_bit x - 52) (- 1074))"

definition to_float64 :: "rat \<Rightarrow> rat" where
  "to_float64 x =
     (if x = 0 then 0
      else (let u = ulp_of \<bar>x\<bar>; m = of_int (round_half_even (\<bar>x\<bar> / u)) * u in if x < 0 then - m else m))"

definition f_add :: "rat \<Rightarrow> rat \<Rightarrow> rat" where "f_add x y = to_float64 (x + y)"
definition f_mul :: "rat \<Rightarrow> rat \<Rightarrow> rat" where "f_mul x y = to_float64 (x * y)"
definition f_div :: "rat \<Rightarrow> rat \<Rightarrow> rat" where "f_div x y = to_float64 (x / y)"

subsection \<open>Reading\<close>

definition max_float64 :: rat where "max_float64 = 2 ^ 1024 - 2 ^ 970"

definition all_digits :: "string \<Rightarrow> bool" where
  "all_digits s \<longleftrightarrow> list_all (\<lambda>c. digit_val c \<noteq> None) s"

definition dec_val :: "string \<Rightarrow> nat" where
  "dec_val s = (case read_digits 0 s of None \<Rightarrow> 0 | Some n \<Rightarrow> n)"

text \<open>A signed exponent, after the letter.\<close>

definition read_exponent :: "string \<Rightarrow> int option" where
  "read_exponent s =
     (let ds = (if s \<noteq> [] \<and> (hd s = CHR ''+'' \<or> hd s = CHR ''-'') then tl s else s) in
      if ds = [] \<or> \<not> all_digits ds then None
      else Some (if hd s = CHR ''-'' then - int (dec_val ds) else int (dec_val ds)))"

definition ten_pow :: "int \<Rightarrow> rat" where
  "ten_pow e = (if 0 \<le> e then 10 ^ nat e else 1 / 10 ^ nat (- e))"

definition ParseFloat :: "string \<Rightarrow> rat option" where
  "ParseFloat s =
     (let u = (if s \<noteq> [] \<and> (hd s = CHR ''+'' \<or> hd s = CHR ''-'') then tl s else s);
          m = takeWhile (\<lambda>c. c \<notin> {CHR ''e'', CHR ''E''}) u;
          x = drop (length m) u;
          i = takeWhile (\<lambda>c. c \<noteq> CHR ''.'') m;
          f = drop (Suc (length i)) m
      in if i @ f = [] \<or> \<not> all_digits (i @ f) then None
         else
           (case (if x = [] then Some 0 else read_exponent (tl x)) of
              None \<Rightarrow> None
            | Some e \<Rightarrow>
                (let v = of_nat (dec_val (i @ f)) * ten_pow (e - int (length f)) in
                 if v < max_float64 then Some (to_float64 (if has_prefix s ''-'' then - v else v)) else None)))"

subsection \<open>Printing\<close>

text \<open>The \<open>n\<close> last decimal digits of a number.\<close>

definition low_digits :: "nat \<Rightarrow> nat \<Rightarrow> string" where
  "low_digits n k = map (\<lambda>i. digit_char (k div 10 ^ (n - Suc i) mod 10)) [0..<n]"

text \<open>\<open>%.nf\<close>: correctly rounded to \<open>n\<close> decimals.\<close>

definition format_fixed :: "nat \<Rightarrow> rat \<Rightarrow> string" where
  "format_fixed n x =
     (let k = nat (round_half_even (\<bar>x\<bar> * 10 ^ n)) in
      (if x < 0 then ''-'' else '''') @ show_nat (k div 10 ^ n) @ (if n = 0 then '''' else ''.'' @ low_digits n k))"

definition format_10f :: "rat \<Rightarrow> string" where
  "format_10f x = format_fixed 10 x"

text \<open>
  The shortest digits: the fewest significant digits of a decimal that reads back as \<open>x\<close>, the nearer
  one if two of that length do. The value is \<open>0.d\<^sub>1d\<^sub>2... * 10 ^ dp\<close>.
\<close>

definition dec_point :: "rat \<Rightarrow> int" where
  "dec_point x =
     (if 1 \<le> x then int (length (show_nat (nat \<lfloor>x\<rfloor>)))
      else (case find (\<lambda>k. 1 \<le> x * 10 ^ k) [1..<400] of None \<Rightarrow> 0 | Some k \<Rightarrow> 1 - int k))"

definition digits_of_length :: "rat \<Rightarrow> nat \<Rightarrow> nat option" where
  "digits_of_length x n =
     (let u = ten_pow (dec_point x - int n); lo = nat \<lfloor>x / u\<rfloor>;
          near = nat (round_half_even (x / u)); far = (if near = lo then lo + 1 else lo)
      in if to_float64 (of_nat near * u) = x then Some near
         else if to_float64 (of_nat far * u) = x then Some far else None)"

definition shortest :: "rat \<Rightarrow> string \<times> int" where
  "shortest x =
     (if x = 0 then (''0'', 1)
      else
        (case List.map_filter (\<lambda>n. map_option (Pair n) (digits_of_length x n)) [1..<18] of
           [] \<Rightarrow> ('''', 0)
         | (n, d) # _ \<Rightarrow>
             (rev (dropWhile (\<lambda>c. c = CHR ''0'') (rev (show_nat d))),
              dec_point x + int (length (show_nat d)) - int n)))"

text \<open>\<open>fmtF\<close> and \<open>fmtE\<close> of \<open>strconv\<close> on digits and decimal point.\<close>

definition digit_at :: "string \<Rightarrow> int \<Rightarrow> char" where
  "digit_at ds i = (if 0 \<le> i \<and> i < int (length ds) then ds ! nat i else CHR ''0'')"

definition fmt_f :: "string \<times> int \<Rightarrow> string" where
  "fmt_f d =
     (case d of (ds, dp) \<Rightarrow>
        (if 0 < dp then map (digit_at ds) [0..dp - 1] else ''0'')
        @ (if int (length ds) > dp then CHR ''.'' # map (digit_at ds) [dp..int (length ds) - 1] else ''''))"

definition fmt_e :: "string \<times> int \<Rightarrow> string" where
  "fmt_e d =
     (case d of (ds, dp) \<Rightarrow>
        let e = (if ds = ''0'' then 0 else dp - 1); a = show_nat (nat \<bar>e\<bar>) in
        take 1 ds @ (if 1 < length ds then CHR ''.'' # drop 1 ds else '''') @ ''e''
        @ (if e < 0 then ''-'' else ''+'') @ (if length a < 2 then CHR ''0'' # a else a))"

text \<open>\<open>strconv.FormatFloat(x, 'f', -1, 64)\<close> and \<open>%g\<close>.\<close>

definition FormatFloat :: "rat \<Rightarrow> string" where
  "FormatFloat x = (if x < 0 then ''-'' else '''') @ fmt_f (shortest \<bar>x\<bar>)"

definition format_g :: "rat \<Rightarrow> string" where
  "format_g x =
     (let d = shortest \<bar>x\<bar>; e = snd d - 1 in
      (if x < 0 then ''-'' else '''') @ (if e < - 4 \<or> 6 \<le> e then fmt_e d else fmt_f d))"

subsection \<open>Rounding errors\<close>

lemma two_pow_powi: "two_pow e = 2 powi e"
  by (simp add: two_pow_def power_int_def field_simps)

lemma two_pow_pos [simp]: "0 < two_pow e"
  by (simp add: two_pow_def)

lemma two_pow_add: "two_pow (a + b) = two_pow a * two_pow b"
  by (simp add: two_pow_powi power_int_add)

lemma two_pow_mono: "a \<le> b \<Longrightarrow> two_pow a \<le> two_pow b"
  unfolding two_pow_powi by (rule power_int_increasing) simp_all

lemma two_pow_nat: "two_pow (int n) = 2 ^ n"
  by (simp add: two_pow_def)

lemma round_half_even_error: "\<bar>of_int (round_half_even x) - x\<bar> \<le> 1 / 2"
  unfolding round_half_even_def Let_def by (auto simp: abs_if) linarith+

lemma round_half_even_of_int [simp]: "round_half_even (of_int n) = n"
  by (simp add: round_half_even_def)

text \<open>A number within less than half of an integer rounds to it.\<close>

lemma round_half_even_near: "\<bar>x - of_int n\<bar> < 1 / 2 \<Longrightarrow> round_half_even x = n"
  using round_half_even_error [of x] by linarith

lemma bit_len_bounds: "0 < n \<Longrightarrow> 2 ^ (bit_len n - 1) \<le> n \<and> n < 2 ^ bit_len n \<and> 0 < bit_len n"
proof (induction n rule: bit_len.induct)
  case (1 n)
  show ?case
  proof (cases "n div 2 = 0")
    case True
    with 1(2) have "n = 1" by simp
    then show ?thesis by (simp add: bit_len.simps)
  next
    case False
    with 1 have IH: "2 ^ (bit_len (n div 2) - 1) \<le> n div 2" "n div 2 < 2 ^ bit_len (n div 2)" "0 < bit_len (n div 2)"
      by auto
    then obtain k where k: "bit_len (n div 2) = Suc k" by (cases "bit_len (n div 2)") auto
    have "bit_len n = Suc (Suc k)" using 1(2) k by (subst bit_len.simps) simp
    moreover have "2 * (n div 2) \<le> n" "n < 2 * (n div 2) + 2" by simp_all
    moreover have "2 * 2 ^ k \<le> 2 * (n div 2)" "2 * (n div 2) + 2 \<le> 2 * (2 * 2 ^ k)" using IH(1,2) k by simp_all
    ultimately show ?thesis by simp
  qed
qed

lemma top_bit_bounds:
  assumes "0 < x"
  shows "two_pow (top_bit x) \<le> x \<and> x < two_pow (top_bit x + 1)"
proof -
  obtain p q where pq: "quotient_of x = (p, q)" by fastforce
  then have x: "x = of_int p / of_int q" "0 < q" by (simp_all add: quotient_of_div quotient_of_denom_pos)
  with assms have p: "0 < p" by (simp add: zero_less_divide_iff)
  let ?a = "bit_len (nat p)" and ?b = "bit_len (nat q)" and ?e = "int (bit_len (nat p)) - int (bit_len (nat q))"
  have a: "2 ^ (?a - 1) \<le> nat p" "nat p < 2 ^ ?a" "0 < ?a" using bit_len_bounds [of "nat p"] p by auto
  have b: "2 ^ (?b - 1) \<le> nat q" "nat q < 2 ^ ?b" "0 < ?b" using bit_len_bounds [of "nat q"] x by auto
  have P: "(2 :: rat) ^ (?a - 1) \<le> of_int p" "of_int p < (2 :: rat) ^ ?a"
    using a p by (metis of_nat_le_iff of_nat_less_iff of_nat_numeral of_nat_power of_nat_nat less_imp_le)+
  have Q: "(2 :: rat) ^ (?b - 1) \<le> of_int q" "of_int q < (2 :: rat) ^ ?b"
    using b x by (metis of_nat_le_iff of_nat_less_iff of_nat_numeral of_nat_power of_nat_nat less_imp_le)+
  have q0: "0 < (of_int q :: rat)" using x by simp
  have up: "x < two_pow (?e + 1)"
  proof -
    have "two_pow (?e + 1) * of_int q \<ge> two_pow (?e + 1) * 2 ^ (?b - 1)"
      using Q(1) by (intro mult_left_mono) (simp_all add: less_imp_le)
    also have "two_pow (?e + 1) * 2 ^ (?b - 1) = two_pow (?e + 1 + int (?b - 1))"
      by (simp add: two_pow_add two_pow_nat)
    also have "?e + 1 + int (?b - 1) = int ?a" using b(3) by simp
    finally have "two_pow (int ?a) \<le> two_pow (?e + 1) * of_int q" .
    then have "of_int p < two_pow (?e + 1) * of_int q" using P(2) unfolding two_pow_nat by (rule less_le_trans [rotated])
    then show ?thesis unfolding x(1) using q0 by (simp add: pos_divide_less_eq)
  qed
  have lo: "two_pow (?e - 1) \<le> x"
  proof -
    have "two_pow (?e - 1) * of_int q \<le> two_pow (?e - 1) * 2 ^ ?b"
      using Q(2) by (intro mult_left_mono) (simp_all add: less_imp_le)
    also have "two_pow (?e - 1) * 2 ^ ?b = two_pow (?e - 1 + int ?b)" by (simp only: two_pow_add [of "?e - 1"] two_pow_nat)
    also have "?e - 1 + int ?b = int (?a - 1)" using a(3) by simp
    finally have "two_pow (?e - 1) * of_int q \<le> of_int p" using P(1) unfolding two_pow_nat by (rule order_trans)
    then show ?thesis unfolding x(1) using q0 by (simp add: pos_le_divide_eq)
  qed
  show ?thesis using up lo by (auto simp: top_bit_def pq Let_def)
qed

lemma top_bit_less: "0 < x \<Longrightarrow> x < two_pow k \<Longrightarrow> top_bit x < k"
  using top_bit_bounds [of x] two_pow_mono [of k "top_bit x"] by fastforce

lemma ulp_pos [simp]: "0 < ulp_of x" by (simp add: ulp_of_def)

lemma ulp_bound: "0 < x \<Longrightarrow> x < two_pow k \<Longrightarrow> - 1021 \<le> k \<Longrightarrow> ulp_of x \<le> two_pow (k - 53)"
  unfolding ulp_of_def using top_bit_less [of x k] by (intro two_pow_mono) auto

lemma abs_scaled: "0 < (u :: rat) \<Longrightarrow> \<bar>m * u - x\<bar> = \<bar>m - x / u\<bar> * u"
proof -
  assume u: "0 < u"
  then have "m * u - x = (m - x / u) * u" by (simp add: field_simps)
  with u show ?thesis by (simp only: abs_mult abs_of_pos)
qed

lemma to_float64_error:
  assumes "\<bar>x\<bar> < two_pow k" "- 1021 \<le> k"
  shows "\<bar>to_float64 x - x\<bar> \<le> two_pow (k - 54)"
proof (cases "x = 0")
  case False
  let ?u = "ulp_of \<bar>x\<bar>"
  have u: "?u \<le> 2 * two_pow (k - 54)"
    using ulp_bound [of "\<bar>x\<bar>" k] assms False two_pow_add [of 1 "k - 54"] by (simp add: two_pow_def)
  have "\<bar>of_int (round_half_even (\<bar>x\<bar> / ?u)) * ?u - \<bar>x\<bar>\<bar> = \<bar>of_int (round_half_even (\<bar>x\<bar> / ?u)) - \<bar>x\<bar> / ?u\<bar> * ?u"
    using abs_scaled [OF ulp_pos] .
  also have "\<dots> \<le> 1 / 2 * ?u" using round_half_even_error ulp_pos by (intro mult_right_mono) (simp_all add: less_imp_le)
  also have "\<dots> \<le> two_pow (k - 54)" using u by simp
  finally have "\<bar>of_int (round_half_even (\<bar>x\<bar> / ?u)) * ?u - \<bar>x\<bar>\<bar> \<le> two_pow (k - 54)" .
  then show ?thesis using False by (auto simp: to_float64_def Let_def abs_if split: if_splits)
qed (simp add: to_float64_def less_imp_le)

lemma to_float64_fixed:
  "x \<noteq> 0 \<Longrightarrow> of_int (round_half_even (\<bar>x\<bar> / ulp_of \<bar>x\<bar>)) * ulp_of \<bar>x\<bar> = \<bar>x\<bar> \<Longrightarrow> to_float64 x = x"
  by (cases "x < 0") (simp_all add: to_float64_def Let_def)

lemma to_float64_nonneg:
  assumes "0 \<le> x" shows "0 \<le> to_float64 x"
proof -
  have "0 \<le> \<bar>x\<bar> / ulp_of \<bar>x\<bar>" by (intro divide_nonneg_pos) simp_all
  then have "0 \<le> round_half_even (\<bar>x\<bar> / ulp_of \<bar>x\<bar>)"
    using round_half_even_error [of "\<bar>x\<bar> / ulp_of \<bar>x\<bar>"] by linarith
  then show ?thesis using assms by (simp add: to_float64_def Let_def less_imp_le)
qed

text \<open>Numbers with at most 53 significant bits are kept.\<close>

lemma to_float64_exact:
  assumes "\<bar>n\<bar> < 2 ^ 53" "- 1074 \<le> e"
  shows "to_float64 (of_int n * two_pow e) = of_int n * two_pow e"
proof (cases "n = 0")
  case False
  let ?x = "of_int n * two_pow e" and ?k = "max (top_bit \<bar>of_int n * two_pow e\<bar> - 52) (- 1074)"
  have a: "\<bar>?x\<bar> = of_int \<bar>n\<bar> * two_pow e" by (simp only: abs_mult abs_of_pos [OF two_pow_pos] of_int_abs)
  have "of_int \<bar>n\<bar> < (2 :: rat) ^ 53" using assms(1) by (metis of_int_less_iff of_int_numeral of_int_power)
  then have "\<bar>?x\<bar> < 2 ^ 53 * two_pow e" unfolding a by (rule mult_strict_right_mono) simp
  also have "\<dots> = two_pow (53 + e)" using two_pow_nat [of 53] by (simp add: two_pow_add)
  finally have "\<bar>?x\<bar> < two_pow (53 + e)" .
  moreover have "0 < \<bar>?x\<bar>" using False less_imp_neq [OF two_pow_pos [of e]] by simp
  ultimately have "top_bit \<bar>?x\<bar> < 53 + e" by (rule top_bit_less [rotated])
  then have k: "?k \<le> e" using assms(2) by simp
  define u where "u = two_pow ?k"
  have u: "u \<noteq> 0" using less_imp_neq [OF two_pow_pos [of ?k]] by (simp add: u_def)
  have "two_pow e = 2 ^ nat (e - ?k) * u"
    using two_pow_add [of "e - ?k" ?k] k two_pow_nat [of "nat (e - ?k)"] by (simp add: u_def)
  with a have x: "\<bar>?x\<bar> = of_int (\<bar>n\<bar> * 2 ^ nat (e - ?k)) * u" by (simp only: of_int_mult of_int_power of_int_numeral mult.assoc)
  have q: "X = Y * u \<Longrightarrow> X / u = Y" for X Y :: rat using u by simp
  have "of_int (round_half_even (\<bar>?x\<bar> / u)) * u = \<bar>?x\<bar>"
    unfolding q [OF x] round_half_even_of_int by (rule x [symmetric])
  then have "of_int (round_half_even (\<bar>?x\<bar> / two_pow ?k)) * two_pow ?k = \<bar>?x\<bar>" by (simp only: u_def)
  then show ?thesis
    using False less_imp_neq [OF two_pow_pos [of e]] by (intro to_float64_fixed) (simp_all add: ulp_of_def)
qed (simp add: to_float64_def)

lemma to_float64_int: "\<bar>n\<bar> < 2 ^ 53 \<Longrightarrow> to_float64 (of_int n) = of_int n"
  using to_float64_exact [of n 0] by (simp add: two_pow_def)

text \<open>Printing with \<open>n\<close> decimals what is nearer than half a unit of the last one to a decimal.\<close>

lemma format_fixed_near:
  assumes "0 \<le> x" "\<bar>x * 10 ^ n - of_nat k\<bar> < 1 / 2" "0 < n"
  shows "format_fixed n x = show_nat (k div 10 ^ n) @ ''.'' @ low_digits n k"
proof -
  have "round_half_even (x * 10 ^ n) = int k" using assms(2) by (intro round_half_even_near) simp
  then show ?thesis using assms by (simp add: format_fixed_def Let_def)
qed

lemma low_digits_shift: "low_digits (Suc n) (10 * k) = low_digits n k @ ''0''"
proof -
  have "10 * k div 10 ^ (Suc n - Suc i) mod 10 = k div 10 ^ (n - Suc i) mod 10" if "i < n" for i
  proof -
    have "Suc n - Suc i = Suc (n - Suc i)" using that by simp
    then show ?thesis by (simp del: power_Suc add: power_Suc div_mult2_eq)
  qed
  moreover have "digit_char 0 = CHR ''0''" by code_simp
  ultimately show ?thesis by (simp add: low_digits_def)
qed

end
