(* ===== verification/Json_Value.thy ===== *)
theory Json_Value
  imports Json_String Go_Float
begin

text \<open>
  What \<^verbatim>\<open>handleGraphQL\<close> (\<^verbatim>\<open>internal/server/server.go\<close>) uses of \<open>encoding/json\<close>: \<open>Unmarshal\<close> of a
  request body into \<open>graphQLRequest\<close> or a slice of it, and the compact printing of values by
  \<open>Marshal\<close>. A body is first scanned (lexer, then a stack of open arrays and objects, at most 10000
  deep, as Go's scanner keeps it), then decoded field by field: names match up to ASCII case, \<open>null\<close> leaves
  a field alone, a value of the wrong type is an error, unknown fields are skipped, and a later
  \<open>variables\<close> object adds to an earlier one. What lands in the \<open>map[string]interface{}\<close> of the variables are
  Go values: a number is converted to the nearest \<open>float64\<close> (one beyond their range is an error), an object is a map.
\<close>

subsection \<open>String literals as Go reads them\<close>

text \<open>
  Go's reader differs from PostgreSQL's (\<open>read_json\<close>): control characters are errors, surrogate
  pairs are joined, and what is not UTF-8 becomes the replacement character.
\<close>

definition encode_rune :: "nat \<Rightarrow> string" where
  "encode_rune n =
     (if n < 65536 then utf8_encode n
      else [char_of (240 + n div 262144), char_of (128 + n div 4096 mod 64),
            char_of (128 + n div 64 mod 64), char_of (128 + n mod 64)])"

fun getu4 :: "string \<Rightarrow> (nat \<times> string) option" where
  "getu4 (a # b # c # d # t) = map_option (\<lambda>n. (n, t)) (read_hex4 a b c d)"
| "getu4 _ = None"

definition is_surrogate :: "nat \<Rightarrow> bool" where
  "is_surrogate n \<longleftrightarrow> 55296 \<le> n \<and> n \<le> 57343"

definition low_half :: "nat \<Rightarrow> string \<Rightarrow> (nat \<times> string) option" where
  "low_half hi t =
     (if take 2 t = [bslash, CHR ''u''] then
        (case getu4 (drop 2 t) of
           Some (lo, r) \<Rightarrow>
             if hi < 56320 \<and> 56320 \<le> lo \<and> lo \<le> 57343
             then Some ((hi - 55296) * 1024 + (lo - 56320) + 65536, r) else None
         | None \<Rightarrow> None)
      else None)"

definition prepend :: "string \<Rightarrow> (string \<times> string) option \<Rightarrow> (string \<times> string) option" where
  "prepend u r = map_option (\<lambda>(v, t). (u @ v, t)) r"

lemma getu4_shorter: "getu4 s = Some (n, t) \<Longrightarrow> length t < length s"
  by (cases s rule: getu4.cases) auto

lemma low_half_shorter: "low_half hi s = Some (n, t) \<Longrightarrow> length t < length s"
  by (auto simp: low_half_def dest!: getu4_shorter split: if_splits option.splits)

function go_read :: "string \<Rightarrow> (string \<times> string) option" where
  "go_read s =
     (case s of
        [] \<Rightarrow> None
      | c # t \<Rightarrow>
          if c = quote then Some ([], t)
          else if c = bslash then
            (case t of
               [] \<Rightarrow> None
             | e # t \<Rightarrow>
                 if e = CHR ''u'' then
                   (case getu4 t of
                      None \<Rightarrow> None
                    | Some (n, t) \<Rightarrow>
                        if is_surrogate n then
                          (case low_half n t of
                             Some (m, t) \<Rightarrow> prepend (encode_rune m) (go_read t)
                           | None \<Rightarrow> prepend (encode_rune 65533) (go_read t))
                        else prepend (encode_rune n) (go_read t))
                 else (case short_escape e of
                         None \<Rightarrow> None | Some d \<Rightarrow> prepend [d] (go_read t)))
          else if byte c < 32 then None
          else (case utf8_width s of
                  None \<Rightarrow> prepend (encode_rune 65533) (go_read t)
                | Some n \<Rightarrow> prepend (take n s) (go_read (drop n s))))"
  by pat_completeness auto
termination
  by (relation "measure length") (auto dest!: utf8_width_bounds getu4_shorter low_half_shorter)

declare go_read.simps [simp del]

subsection \<open>Tokens\<close>

datatype json = JNull | JBool bool | JNum string | JStr string | JArr "json list"
  | JObj "(string \<times> json) list"

datatype tok = TLb | TRb | TLc | TRc | TComma | TColon | TLit json | TString string

definition json_space :: "char \<Rightarrow> bool" where
  "json_space c \<longleftrightarrow> c \<in> {CHR '' '', CHR 0x09, CHR 0x0A, CHR 0x0D}"

definition digits :: "string \<Rightarrow> bool" where
  "digits s \<longleftrightarrow> s \<noteq> [] \<and> list_all (\<lambda>c. digit_val c \<noteq> None) s"

definition num_char :: "char \<Rightarrow> bool" where
  "num_char c \<longleftrightarrow> digit_val c \<noteq> None \<or> c \<in> {CHR ''-'', CHR ''+'', CHR ''.'', CHR ''e'', CHR ''E''}"

text \<open>The number grammar: optional minus, no leading zero, optional fraction and exponent.\<close>

definition number_ok :: "string \<Rightarrow> bool" where
  "number_ok s =
     (let s = trim_prefix s ''-'';
          m = takeWhile (\<lambda>c. c \<notin> {CHR ''e'', CHR ''E''}) s;
          e = dropWhile (\<lambda>c. c \<notin> {CHR ''e'', CHR ''E''}) s;
          i = takeWhile (\<lambda>c. c \<noteq> CHR ''.'') m;
          f = dropWhile (\<lambda>c. c \<noteq> CHR ''.'') m
      in digits i \<and> (hd i = CHR ''0'' \<longrightarrow> length i = 1)
         \<and> (f = [] \<or> digits (drop 1 f))
         \<and> (e = [] \<or> digits (let x = drop 1 e in
                               if x \<noteq> [] \<and> (hd x = CHR ''+'' \<or> hd x = CHR ''-'') then drop 1 x else x)))"

definition keywords_json :: "(string \<times> json) list" where
  "keywords_json = [(''true'', JBool True), (''false'', JBool False), (''null'', JNull)]"

definition punct :: "char \<Rightarrow> tok option" where
  "punct c = map_of [(CHR ''['', TLb), (CHR '']'', TRb), (CHR ''{'', TLc), (CHR ''}'', TRc),
                     (CHR '','', TComma), (CHR '':'', TColon)] c"

definition lex_one :: "string \<Rightarrow> (tok \<times> string) option" where
  "lex_one s =
     (case s of
        [] \<Rightarrow> None
      | c # t \<Rightarrow>
          (case punct c of
             Some k \<Rightarrow> Some (k, t)
           | None \<Rightarrow>
               if c = quote then map_option (\<lambda>(v, r). (TString v, r)) (go_read t)
               else if num_char c then
                 (let n = takeWhile num_char s in
                  if number_ok n then Some (TLit (JNum n), drop (length n) s) else None)
               else (case find (\<lambda>(w, j). has_prefix s w) keywords_json of
                       Some (w, j) \<Rightarrow> Some (TLit j, drop (length w) s)
                     | None \<Rightarrow> None)))"

lemma go_read_shorter: "go_read s = Some (v, t) \<Longrightarrow> length t < length s"
proof (induction s arbitrary: v t rule: measure_induct_rule [where f = length])
  case (less s)
  have step: "length t < length s" if "prepend u (go_read r) = Some (v, t)" "length r < length s" for u r
    using that less.IH [of r] by (fastforce simp: prepend_def)
  show ?case
    using less.prems step
    by (subst (asm) go_read.simps)
      (fastforce split: list.splits if_splits option.splits dest: getu4_shorter low_half_shorter utf8_width_bounds)
qed

lemma keyword_prefix: "find (\<lambda>(w, j). has_prefix s w) keywords_json = Some (w, j) \<Longrightarrow> w \<noteq> []"
  by (auto simp: keywords_json_def split: if_splits)

lemma number_ok_nonempty: "number_ok n \<Longrightarrow> n \<noteq> []"
proof
  have "\<not> number_ok []" by code_simp
  then show "number_ok n \<Longrightarrow> n = [] \<Longrightarrow> False" by simp
qed

lemma lex_one_shorter:
  assumes "lex_one s = Some (k, t)"
  shows "length t < length s"
proof (cases s)
  case Nil
  with assms show ?thesis by (simp add: lex_one_def)
next
  case (Cons c u)
  have l: "w \<noteq> [] \<Longrightarrow> t = drop (length w) s \<Longrightarrow> length t < length s" for w :: string
    using Cons by (cases w) auto
  consider (punct) "t = u"
    | (quote) v where "go_read u = Some (v, t)"
    | (num) "number_ok (takeWhile num_char s)" "t = drop (length (takeWhile num_char s)) s"
    | (word) w j where "find (\<lambda>(w, j). has_prefix s w) keywords_json = Some (w, j)" "t = drop (length w) s"
  proof (cases "punct c")
    case Some
    with assms Cons punct show ?thesis by (simp add: lex_one_def)
  next
    case n: None
    show ?thesis
    proof (cases "c = quote")
      case True
      with assms Cons n quote show ?thesis by (auto simp: lex_one_def)
    next
      case q: False
      have *: "lex_one s = (if num_char c then
          (let n = takeWhile num_char s in
             if number_ok n then Some (TLit (JNum n), drop (length n) s) else None)
          else (case find (\<lambda>(w, j). has_prefix s w) keywords_json of
                  Some (w, j) \<Rightarrow> Some (TLit j, drop (length w) s) | None \<Rightarrow> None))"
        unfolding lex_one_def Cons list.case using n q by simp
      show ?thesis
        using assms [unfolded *] num word
        by (auto simp only: Let_def option.inject prod.inject split: if_splits option.splits prod.splits)
    qed
  qed
  then show ?thesis
  proof cases
    case punct
    with Cons show ?thesis by simp
  next
    case quote
    with Cons show ?thesis by (auto dest: go_read_shorter)
  next
    case num
    then show ?thesis using l number_ok_nonempty by blast
  next
    case word
    then show ?thesis using l keyword_prefix by blast
  qed
qed

function lex_all :: "string \<Rightarrow> tok list option" where
  "lex_all s =
     (let s = dropWhile json_space s in
      if s = [] then Some []
      else (case lex_one s of None \<Rightarrow> None | Some (k, t) \<Rightarrow> map_option (Cons k) (lex_all t)))"
  by pat_completeness auto
termination
proof (relation "measure length")
  fix s x xa y z :: string and k
  assume "xa = dropWhile json_space s"
  then have l: "length xa \<le> length s" by (simp add: length_dropWhile_le)
  fix kt and t :: string and k' :: tok
  assume "lex_one xa = Some kt" "(k', t) = kt"
  then have "length t < length xa" using lex_one_shorter by metis
  with l show "(t, s) \<in> measure length" by simp
qed simp

declare lex_all.simps [simp del]

subsection \<open>Values\<close>

text \<open>Open arrays and objects, innermost first; what the scanner expects next.\<close>

datatype frame = InArr "json list" | InObj "(string \<times> json) list" string

datatype mode = MVal | MArr0 | MObj0 | MKey "(string \<times> json) list" | MColon string "(string \<times> json) list"
  | MDone json

definition maxNestingDepth :: nat where "maxNestingDepth = 10000"

definition open_value :: "frame list \<Rightarrow> tok \<Rightarrow> (mode \<times> frame list) option" where
  "open_value st t =
     (case t of
        TLit j \<Rightarrow> Some (MDone j, st)
      | TString s \<Rightarrow> Some (MDone (JStr s), st)
      | TLb \<Rightarrow> if length st < maxNestingDepth then Some (MArr0, st) else None
      | TLc \<Rightarrow> if length st < maxNestingDepth then Some (MObj0, st) else None
      | _ \<Rightarrow> None)"

definition close_value :: "json \<Rightarrow> frame list \<Rightarrow> tok \<Rightarrow> (mode \<times> frame list) option" where
  "close_value v st t =
     (case st of
        InArr a # st \<Rightarrow>
          if t = TComma then Some (MVal, InArr (a @ [v]) # st)
          else if t = TRb then Some (MDone (JArr (a @ [v])), st) else None
      | InObj a k # st \<Rightarrow>
          if t = TComma then Some (MKey (a @ [(k, v)]), st)
          else if t = TRc then Some (MDone (JObj (a @ [(k, v)])), st) else None
      | [] \<Rightarrow> None)"

definition jstep :: "mode \<Rightarrow> frame list \<Rightarrow> tok \<Rightarrow> (mode \<times> frame list) option" where
  "jstep m st t =
     (case m of
        MDone v \<Rightarrow> close_value v st t
      | MVal \<Rightarrow> open_value st t
      | MArr0 \<Rightarrow> if t = TRb then Some (MDone (JArr []), st) else open_value (InArr [] # st) t
      | MObj0 \<Rightarrow> (case t of TRc \<Rightarrow> Some (MDone (JObj []), st) | TString k \<Rightarrow> Some (MColon k [], st) | _ \<Rightarrow> None)
      | MKey a \<Rightarrow> (case t of TString k \<Rightarrow> Some (MColon k a, st) | _ \<Rightarrow> None)
      | MColon k a \<Rightarrow> if t = TColon then Some (MVal, InObj a k # st) else None)"

fun jrun :: "mode \<Rightarrow> frame list \<Rightarrow> tok list \<Rightarrow> json option" where
  "jrun m st [] = (case (m, st) of (MDone v, []) \<Rightarrow> Some v | _ \<Rightarrow> None)"
| "jrun m st (t # ts) = (case jstep m st t of None \<Rightarrow> None | Some (m, st) \<Rightarrow> jrun m st ts)"

definition json_parse :: "string \<Rightarrow> json option" where
  "json_parse s = Option.bind (lex_all s) (jrun MVal [])"

subsection \<open>Decoding a request\<close>

text \<open>
  The value of a number literal, and whether it has a nearest \<open>float64\<close> (those from
  \<open>2 ^ 1024 - 2 ^ 970\<close> on do not).
\<close>

definition num_value :: "string \<Rightarrow> rat" where
  "num_value s =
     (let n = trim_prefix s ''-'';
          m = takeWhile (\<lambda>c. c \<notin> {CHR ''e'', CHR ''E''}) n;
          e = drop (Suc (length m)) n;
          i = takeWhile (\<lambda>c. c \<noteq> CHR ''.'') m; f = drop (Suc (length i)) m;
          num = (\<lambda>d. case read_digits 0 d of None \<Rightarrow> 0 | Some k \<Rightarrow> k);
          mant = rat_of_nat (num (i @ f)) / 10 ^ length f;
          mag = (if e = '''' then mant
                 else if hd e = CHR ''-'' then mant / 10 ^ num (tl e)
                 else mant * 10 ^ num (trim_prefix e ''+''))
      in if has_prefix s ''-'' then - mag else mag)"

definition float64_ok :: "string \<Rightarrow> bool" where
  "float64_ok s \<longleftrightarrow> \<bar>num_value s\<bar> < 2 ^ 1024 - 2 ^ 970"

fun numbers_ok :: "json \<Rightarrow> bool" where
  "numbers_ok (JNum s) \<longleftrightarrow> float64_ok s"
| "numbers_ok (JArr vs) \<longleftrightarrow> list_all numbers_ok vs"
| "numbers_ok (JObj kvs) \<longleftrightarrow> list_all (\<lambda>(k, v). numbers_ok v) kvs"
| "numbers_ok _ \<longleftrightarrow> True"

text \<open>
  A JSON value in an \<open>interface{}\<close>: numbers are \<open>float64\<close> (the two zeros are one value), objects are maps, in
  which the last value of a key stays.
\<close>

datatype go_value =
    GoNil | GoBool bool | GoFloat rat | GoString string | GoSlice "go_value list" | GoMap "(string \<times> go_value) list"

fun to_interface :: "json \<Rightarrow> go_value" where
  "to_interface JNull = GoNil"
| "to_interface (JBool b) = GoBool b"
| "to_interface (JNum s) = GoFloat (to_float64 (num_value s))"
| "to_interface (JStr s) = GoString s"
| "to_interface (JArr vs) = GoSlice (map to_interface vs)"
| "to_interface (JObj kvs) =
     GoMap (fold (\<lambda>(k, v) m. AList.update k v m) (map (\<lambda>(k, v). (k, to_interface v)) kvs) [])"

record graphQLRequest =
  gr_Query :: string
  gr_Variables :: "(string \<times> go_value) list"

definition zero_request :: graphQLRequest where
  "zero_request = \<lparr>gr_Query = '''', gr_Variables = []\<rparr>"

definition decode_field :: "string \<times> json \<Rightarrow> graphQLRequest \<times> bool \<Rightarrow> graphQLRequest \<times> bool" where
  "decode_field kv st =
     (case (kv, st) of ((k, v), (req, ok)) \<Rightarrow>
        if equal_fold k ''query'' then
          (case v of JStr s \<Rightarrow> (req\<lparr>gr_Query := s\<rparr>, ok) | JNull \<Rightarrow> (req, ok) | _ \<Rightarrow> (req, False))
        else if equal_fold k ''variables'' then
          (case v of
             JObj kvs \<Rightarrow>
               (req\<lparr>gr_Variables := fold (\<lambda>(k, v) m. AList.update k (to_interface v) m) kvs (gr_Variables req)\<rparr>,
                ok \<and> list_all (\<lambda>(k, v). numbers_ok v) kvs)
           | JNull \<Rightarrow> (req\<lparr>gr_Variables := []\<rparr>, ok)
           | _ \<Rightarrow> (req, False))
        else st)"

text \<open>\<open>None\<close> is an error of \<open>Unmarshal\<close>.\<close>

definition decode_request :: "json \<Rightarrow> graphQLRequest option" where
  "decode_request j =
     (case j of
        JNull \<Rightarrow> Some zero_request
      | JObj kvs \<Rightarrow> (case fold decode_field kvs (zero_request, True) of (req, ok) \<Rightarrow> if ok then Some req else None)
      | _ \<Rightarrow> None)"

definition unmarshal_single :: "string \<Rightarrow> graphQLRequest option" where
  "unmarshal_single body = Option.bind (json_parse body) decode_request"

definition unmarshal_batch :: "string \<Rightarrow> graphQLRequest list option" where
  "unmarshal_batch body =
     (case json_parse body of Some (JArr vs) \<Rightarrow> those (map decode_request vs) | _ \<Rightarrow> None)"

subsection \<open>Literals round trip\<close>

lemma prepend_simps [simp]:
  "prepend u (Some (v, t)) = Some (u @ v, t)" "prepend u None = None"
  by (simp_all add: prepend_def)

lemma go_read_plain:
  "c \<noteq> quote \<Longrightarrow> c \<noteq> bslash \<Longrightarrow> 32 \<le> byte c \<Longrightarrow> byte c < 128 \<Longrightarrow> go_read (c # s) = prepend [c] (go_read s)"
  by (subst go_read.simps) (simp add: utf8_width_ascii)

lemma utf8_width_take: "utf8_width s = Some n \<Longrightarrow> utf8_width (take n s @ t) = Some n"
  by (cases s) (auto simp: utf8_width.simps Let_def numeral_eq_Suc split: if_splits list.splits)

lemma go_read_wide:
  assumes "utf8_width (c # u) = Some n" "128 \<le> byte c"
  shows "go_read (take n (c # u) @ t) = prepend (take n (c # u)) (go_read t)"
proof -
  obtain m where m: "n = Suc m" "m \<le> length u"
    using utf8_width_bounds [OF assms(1)] by (cases n) auto
  have "c \<noteq> quote" "c \<noteq> bslash" "\<not> byte c < 32" using assms(2) by (auto simp: quote_def bslash_def byte_def)
  moreover have "utf8_width (c # take m u @ t) = Some (Suc m)"
    using utf8_width_take [OF assms(1), of t] m by simp
  ultimately show ?thesis using m by (subst m(1), simp, subst go_read.simps, simp)
qed

lemma go_read_unicode:
  assumes "n < 65536" "\<not> is_surrogate n"
  shows "go_read (unicode_escape n @ s) = prepend (utf8_encode n) (go_read s)"
proof -
  have d: "n div 4096 mod 16 < 16" "n div 256 mod 16 < 16" "n div 16 mod 16 < 16" "n mod 16 < 16" by simp_all
  have "(((n div 4096 mod 16) * 16 + n div 256 mod 16) * 16 + n div 16 mod 16) * 16 + n mod 16 = n"
  proof -
    have "n div 256 = n div 4096 * 16 + n div 256 mod 16" "n div 16 = n div 256 * 16 + n div 16 mod 16"
      using div_mult_mod_eq [of "n div 256" 16] div_mult_mod_eq [of "n div 16" 16]
      by (simp_all add: div_mult2_eq [symmetric])
    moreover have "n div 4096 mod 16 = n div 4096" using assms by simp
    ultimately show ?thesis using div_mult_mod_eq [of n 16] by presburger
  qed
  then have "read_hex4 (hex_digit (n div 4096 mod 16)) (hex_digit (n div 256 mod 16))
      (hex_digit (n div 16 mod 16)) (hex_digit (n mod 16)) = Some n"
    using d by (simp only: read_hex4_def hex_digit_value option.case prod.case)
  with assms show ?thesis
    by (simp add: unicode_escape_def, subst go_read.simps, simp add: quote_def bslash_def encode_rune_def)
qed

lemma go_read_short:
  "short_escape e = Some d \<Longrightarrow> e \<noteq> CHR ''u'' \<Longrightarrow> go_read (bslash # e # s) = prepend [d] (go_read s)"
  by (subst go_read.simps) (simp add: quote_def bslash_def)

lemma go_read_escape_ascii:
  assumes "byte c < 128"
  shows "go_read (escape_ascii c @ s) = prepend [c] (go_read s)"
proof -
  have u: "utf8_encode (byte c) = [c]" using assms by (simp add: utf8_encode_def byte_def)
  have b: "byte c < 65536" "\<not> is_surrogate (byte c)" using assms by (simp_all add: is_surrogate_def)
  have "short_escape (CHR ''b'') = Some (CHR 0x08)" "short_escape (CHR ''f'') = Some (CHR 0x0C)"
    "short_escape (CHR ''n'') = Some (CHR 0x0A)" "short_escape (CHR ''r'') = Some (CHR 0x0D)"
    "short_escape (CHR ''t'') = Some (CHR 0x09)" "short_escape quote = Some quote"
    "short_escape bslash = Some bslash" "quote \<noteq> CHR ''u''" "bslash \<noteq> CHR ''u''"
    by (simp_all add: short_escape_def quote_def bslash_def)
  with u b assms show ?thesis
    unfolding escape_ascii_def
    by (auto simp: go_read_short go_read_unicode intro!: go_read_plain)
qed

lemma go_read_escape: "utf8_valid s \<Longrightarrow> go_read (json_escape s @ quote # r) = Some (s, r)"
proof (induction s rule: json_escape.induct)
  case (1 s)
  show ?case
  proof (cases s)
    case Nil
    then show ?thesis by (simp add: json_escape.simps [of "[]"]) (subst go_read.simps, simp)
  next
    case (Cons c t)
    have "case utf8_width s of None \<Rightarrow> False | Some n \<Rightarrow> utf8_valid (drop n s)"
      using "1.prems" Cons by (subst (asm) utf8_valid.simps) simp
    then obtain n where n: "utf8_width s = Some n" "utf8_valid (drop n s)"
      by (auto split: option.splits)
    show ?thesis
    proof (cases "byte c < 128")
      case True
      with n Cons have "utf8_valid t" by (auto simp: utf8_width_ascii)
      with "1.IH"(1) [OF Cons True] True Cons show ?thesis
        by (simp add: json_escape.simps [of "c # t"] go_read_escape_ascii)
    next
      case False
      have w: "go_read (take n s @ x) = prepend (take n s) (go_read x)" for x
        using go_read_wide [of c t n x] n(1) False unfolding Cons by simp
      have ih: "go_read (json_escape (drop n s) @ quote # r) = Some (drop n s, r)"
        using "1.IH"(3,4,5) [OF Cons False n(1)] n(2) by blast
      have s8: "\<not> is_surrogate 8232" "\<not> is_surrogate 8233" by (simp_all add: is_surrogate_def)
      have td: "take n s @ drop n s = s" by simp
      have e: "json_escape s = (if take n s = line_separators ! 0 then unicode_escape 8232
          else if take n s = line_separators ! 1 then unicode_escape 8233 else take n s) @ json_escape (drop n s)"
        using False Cons n(1) by (subst json_escape.simps) simp
      have "go_read ((if take n s = line_separators ! 0 then unicode_escape 8232
          else if take n s = line_separators ! 1 then unicode_escape 8233 else take n s) @ x)
        = prepend (take n s) (go_read x)" for x
        using go_read_unicode [of 8232 x] go_read_unicode [of 8233 x] s8 line_separator_code w [of x] by simp
      then show ?thesis unfolding e append_assoc by (simp only: ih prepend_simps td)
    qed
  qed
qed

subsection \<open>Values round trip\<close>

text \<open>\<open>json.Marshal\<close> of a value: no white space, strings escaped.\<close>

fun json_print :: "json \<Rightarrow> string" where
  "json_print JNull = ''null''"
| "json_print (JBool b) = (if b then ''true'' else ''false'')"
| "json_print (JNum s) = s"
| "json_print (JStr s) = json_string s"
| "json_print (JArr vs) = ''['' @ join '','' (map json_print vs) @ '']''"
| "json_print (JObj kvs) = ''{'' @ join '','' (map (\<lambda>(k, v). json_string k @ '':'' @ json_print v) kvs) @ ''}''"

fun sep_concat :: "'a \<Rightarrow> 'a list list \<Rightarrow> 'a list" where
  "sep_concat c [] = []"
| "sep_concat c [x] = x"
| "sep_concat c (x # y # ys) = x @ c # sep_concat c (y # ys)"

lemma join_sep: "join [c] xs = sep_concat c xs"
  by (induction c xs rule: sep_concat.induct) simp_all

fun toks :: "json \<Rightarrow> tok list" where
  "toks (JStr s) = [TString s]"
| "toks (JArr vs) = TLb # sep_concat TComma (map toks vs) @ [TRb]"
| "toks (JObj kvs) = TLc # sep_concat TComma (map (\<lambda>(k, v). TString k # TColon # toks v) kvs) @ [TRc]"
| "toks j = [TLit j]"

fun valid_json :: "json \<Rightarrow> bool" where
  "valid_json (JNum s) \<longleftrightarrow> number_ok s \<and> list_all num_char s"
| "valid_json (JStr s) \<longleftrightarrow> utf8_valid s"
| "valid_json (JArr vs) \<longleftrightarrow> list_all valid_json vs"
| "valid_json (JObj kvs) \<longleftrightarrow> list_all (\<lambda>(k, v). utf8_valid k \<and> valid_json v) kvs"
| "valid_json _ \<longleftrightarrow> True"

text \<open>Arrays and objects nested at most \<open>n\<close> deep.\<close>

fun fits :: "nat \<Rightarrow> json \<Rightarrow> bool" where
  "fits n (JArr vs) \<longleftrightarrow> 0 < n \<and> list_all (fits (n - 1)) vs"
| "fits n (JObj kvs) \<longleftrightarrow> 0 < n \<and> list_all (\<lambda>(k, v). fits (n - 1) v) kvs"
| "fits n _ \<longleftrightarrow> True"

definition stops :: "string \<Rightarrow> bool" where
  "stops r \<longleftrightarrow> r = [] \<or> \<not> num_char (hd r)"

lemma lex_all_Nil [simp]: "lex_all [] = Some []"
  by (subst lex_all.simps) simp

lemma lex_all_one: "lex_one (c # s) = Some (k, t) \<Longrightarrow> \<not> json_space c \<Longrightarrow>
    lex_all (c # s) = map_option (Cons k) (lex_all t)"
  by (subst lex_all.simps) simp

lemma lex_punct:
  assumes "punct c = Some k"
  shows "lex_all (c # s) = map_option (Cons k) (lex_all s)"
proof (rule lex_all_one)
  show "lex_one (c # s) = Some (k, s)" using assms by (simp add: lex_one_def)
  show "\<not> json_space c" using assms by (auto simp: punct_def json_space_def split: if_splits)
qed

lemma punct_chars:
  "punct (CHR ''['') = Some TLb" "punct (CHR '']'') = Some TRb" "punct (CHR ''{'') = Some TLc"
  "punct (CHR ''}'') = Some TRc" "punct (CHR '','') = Some TComma" "punct (CHR '':'') = Some TColon"
  by (simp_all add: punct_def)

lemmas lex_puncts = punct_chars [THEN lex_punct]

lemma lex_string: "utf8_valid s \<Longrightarrow> lex_all (json_string s @ r) = map_option (Cons (TString s)) (lex_all r)"
proof -
  assume "utf8_valid s"
  moreover have "punct quote = None" by (simp add: punct_def quote_def)
  ultimately have "lex_one (quote # json_escape s @ quote # r) = Some (TString s, r)"
    by (simp add: lex_one_def go_read_escape)
  then show ?thesis
    using lex_all_one [of quote "json_escape s @ quote # r"]
    by (simp add: json_string_def) (simp add: json_space_def quote_def)
qed

lemma num_char_class: "num_char c \<Longrightarrow> punct c = None \<and> c \<noteq> quote \<and> \<not> json_space c"
proof -
  have no: "list_all (\<lambda>c. \<not> num_char c) [CHR ''['', CHR '']'', CHR ''{'', CHR ''}'', CHR '','', CHR '':'',
      quote, CHR '' '', CHR 0x09, CHR 0x0A, CHR 0x0D]"
    by code_simp
  assume "num_char c"
  with no have "c \<notin> set [CHR ''['', CHR '']'', CHR ''{'', CHR ''}'', CHR '','', CHR '':'',
      quote, CHR '' '', CHR 0x09, CHR 0x0A, CHR 0x0D]"
    unfolding list_all_iff by blast
  then show ?thesis by (simp add: punct_def json_space_def)
qed

lemma lex_number:
  assumes "number_ok s" "list_all num_char s" "stops r"
  shows "lex_all (s @ r) = map_option (Cons (TLit (JNum s))) (lex_all r)"
proof -
  obtain c u where s: "s = c # u" using number_ok_nonempty assms(1) by (cases s) auto
  have "takeWhile num_char (s @ r) = s"
    using assms(2,3) by (cases r) (auto simp: stops_def list_all_iff takeWhile_append)
  then have "lex_one (c # (u @ r)) = Some (TLit (JNum s), r)"
    using num_char_class [of c] assms s by (simp add: lex_one_def)
  then show ?thesis using lex_all_one num_char_class [of c] assms(2) s by simp
qed

lemma lex_words:
  "lex_all (''null'' @ r) = map_option (Cons (TLit JNull)) (lex_all r)"
  "lex_all (''true'' @ r) = map_option (Cons (TLit (JBool True))) (lex_all r)"
  "lex_all (''false'' @ r) = map_option (Cons (TLit (JBool False))) (lex_all r)"
proof -
  note defs = lex_one_def punct_def quote_def num_char_def digit_val_def keywords_json_def json_space_def
  show "lex_all (''null'' @ r) = map_option (Cons (TLit JNull)) (lex_all r)"
    by (simp, rule lex_all_one) (simp_all add: defs)
  show "lex_all (''true'' @ r) = map_option (Cons (TLit (JBool True))) (lex_all r)"
    by (simp, rule lex_all_one) (simp_all add: defs)
  show "lex_all (''false'' @ r) = map_option (Cons (TLit (JBool False))) (lex_all r)"
    by (simp, rule lex_all_one) (simp_all add: defs)
qed

lemma lex_sep:
  assumes "\<And>x r. x \<in> set xs \<Longrightarrow> stops r \<Longrightarrow> lex_all (p x @ r) = map_option ((@) (t x)) (lex_all r)"
    and "stops r"
  shows "lex_all (sep_concat (CHR '','') (map p xs) @ r)
    = map_option ((@) (sep_concat TComma (map t xs))) (lex_all r)"
  using assms(1)
proof (induction xs)
  case (Cons x xs)
  have s: "stops (CHR '','' # u)" for u by (simp add: stops_def num_char_def digit_val_def)
  show ?case
  proof (cases xs)
    case Nil
    with Cons.prems assms(2) show ?thesis by simp
  next
    case (Cons y ys)
    with Cons.IH Cons.prems s show ?thesis
      by (simp add: lex_puncts option.map_comp o_def)
  qed
qed (cases "lex_all r"; simp)

lemma stops_close: "stops (CHR '']'' # r)" "stops (CHR ''}'' # r)" "stops [CHR '']'']" "stops [CHR ''}'']"
  by (simp_all add: stops_def num_char_def digit_val_def)

lemma append_one: "(@) [k] = Cons k"
  by auto

lemma lex_print:
  "valid_json j \<Longrightarrow> stops r \<Longrightarrow> lex_all (json_print j @ r) = map_option ((@) (toks j)) (lex_all r)"
proof (induction j arbitrary: r rule: json_print.induct)
  case (5 vs)
  then have "lex_all (sep_concat (CHR '','') (map json_print vs) @ CHR '']'' # r)
    = map_option ((@) (sep_concat TComma (map toks vs))) (lex_all (CHR '']'' # r))"
    by (intro lex_sep) (simp_all add: list_all_iff stops_close)
  then show ?case by (simp add: join_sep lex_puncts option.map_comp o_def)
next
  case (6 kvs)
  have "lex_all (sep_concat (CHR '','') (map (\<lambda>(k, v). json_string k @ '':'' @ json_print v) kvs) @ CHR ''}'' # r)
    = map_option ((@) (sep_concat TComma (map (\<lambda>(k, v). TString k # TColon # toks v) kvs)))
        (lex_all (CHR ''}'' # r))"
  proof (rule lex_sep)
    fix kv r
    assume *: "kv \<in> set kvs" "stops r"
    obtain k v where kv: "kv = (k, v)" by (cases kv)
    with * "6.prems" have ok: "utf8_valid k" "valid_json v" by (auto simp: list_all_iff)
    have ih: "lex_all (json_print v @ r) = map_option ((@) (toks v)) (lex_all r)"
      by (rule "6.IH" [OF *(1) kv [symmetric] ok(2) *(2)])
    show "lex_all ((case kv of (k, v) \<Rightarrow> json_string k @ '':'' @ json_print v) @ r)
      = map_option ((@) (case kv of (k, v) \<Rightarrow> TString k # TColon # toks v)) (lex_all r)"
      unfolding kv using ok(1) by (cases "lex_all r") (simp_all add: ih lex_string lex_puncts)
  qed (simp add: stops_close)
  then show ?case by (simp add: join_sep lex_puncts option.map_comp o_def)
qed (simp_all add: lex_words [simplified] lex_number lex_string append_one)

lemma toks_head: "\<exists>t ts. toks v = t # ts \<and> t \<noteq> TRb"
  by (cases v) auto

lemma jrun_first: "jrun MArr0 st (toks v @ ts) = jrun MVal (InArr [] # st) (toks v @ ts)"
  using toks_head [of v] by (auto simp: jstep_def)

lemma jrun_array:
  assumes "\<And>v st ts. v \<in> set (x # vs) \<Longrightarrow> length st \<le> d \<Longrightarrow> jrun MVal st (toks v @ ts) = jrun (MDone v) st ts"
    and "Suc (length st) \<le> d"
  shows "jrun MVal (InArr a # st) (sep_concat TComma (map toks (x # vs)) @ TRb # ts)
    = jrun (MDone (JArr (a @ x # vs))) st ts"
  using assms(1)
proof (induction vs arbitrary: a x)
  case Nil
  with assms(2) show ?case by (simp add: jstep_def close_value_def)
next
  case (Cons y ys)
  have "jrun MVal (InArr (a @ [x]) # st) (sep_concat TComma (map toks (y # ys)) @ TRb # ts)
    = jrun (MDone (JArr ((a @ [x]) @ y # ys))) st ts"
    by (rule Cons.IH) (use Cons.prems in auto)
  moreover have "jrun MVal (InArr a # st) (toks x @ TComma # u) = jrun MVal (InArr (a @ [x]) # st) u" for u
    using Cons.prems [of x "InArr a # st"] assms(2) by (simp add: jstep_def close_value_def)
  ultimately show ?case by simp
qed

lemma jrun_object:
  assumes "\<And>k v st ts. (k, v) \<in> set (kv # kvs) \<Longrightarrow> length st \<le> d \<Longrightarrow>
      jrun MVal st (toks v @ ts) = jrun (MDone v) st ts"
    and "Suc (length st) \<le> d"
  shows "jrun (MKey a) st (sep_concat TComma (map (\<lambda>(k, v). TString k # TColon # toks v) (kv # kvs)) @ TRc # ts)
    = jrun (MDone (JObj (a @ kv # kvs))) st ts"
  using assms(1)
proof (induction kvs arbitrary: a kv)
  case Nil
  obtain k v where kv: "kv = (k, v)" by (cases kv)
  show ?case using Nil [of k v "InObj a k # st"] assms(2) kv by (simp add: jstep_def close_value_def)
next
  case (Cons kv' kvs)
  obtain k v where kv: "kv = (k, v)" by (cases kv)
  have "jrun (MKey (a @ [kv])) st
      (sep_concat TComma (map (\<lambda>(k, v). TString k # TColon # toks v) (kv' # kvs)) @ TRc # ts)
    = jrun (MDone (JObj ((a @ [kv]) @ kv' # kvs))) st ts"
    by (rule Cons.IH) (use Cons.prems in auto)
  moreover have "jrun (MKey a) st ((TString k # TColon # toks v) @ TComma # u) = jrun (MKey (a @ [kv])) st u" for u
    using Cons.prems [of k v "InObj a k # st"] assms(2) kv by (simp add: jstep_def close_value_def)
  ultimately show ?case using kv by simp
qed

lemma jrun_toks:
  "fits d j \<Longrightarrow> d + length st \<le> maxNestingDepth \<Longrightarrow> jrun MVal st (toks j @ ts) = jrun (MDone j) st ts"
proof (induction d j arbitrary: st ts rule: fits.induct)
  case (1 n vs)
  then have l: "length st < maxNestingDepth" by simp
  show ?case
  proof (cases vs)
    case Nil
    with l show ?thesis by (simp add: jstep_def open_value_def)
  next
    case (Cons x xs)
    have "jrun MVal (InArr [] # st) (sep_concat TComma (map toks (x # xs)) @ TRb # ts)
      = jrun (MDone (JArr ([] @ x # xs))) st ts"
      by (rule jrun_array [where d = "maxNestingDepth - (n - 1)"]) (use 1 Cons in \<open>auto simp: list_all_iff\<close>)
    moreover have "jrun MArr0 st (sep_concat TComma (map toks (x # xs)) @ TRb # ts)
      = jrun MVal (InArr [] # st) (sep_concat TComma (map toks (x # xs)) @ TRb # ts)"
      using jrun_first by (cases xs) simp_all
    ultimately show ?thesis using l Cons by (simp add: jstep_def [of MVal] open_value_def)
  qed
next
  case (2 n kvs)
  then have l: "length st < maxNestingDepth" by simp
  show ?case
  proof (cases kvs)
    case Nil
    with l show ?thesis by (simp add: jstep_def open_value_def)
  next
    case (Cons kv xs)
    let ?u = "sep_concat TComma (map (\<lambda>(k, v). TString k # TColon # toks v) (kv # xs)) @ TRc # ts"
    have "jrun (MKey []) st ?u = jrun (MDone (JObj ([] @ kv # xs))) st ts"
    proof (rule jrun_object [where d = "maxNestingDepth - (n - 1)"])
      fix k v st' ts'
      assume *: "(k, v) \<in> set (kv # xs)" "length (st' :: frame list) \<le> maxNestingDepth - (n - 1)"
      then have "fits (n - 1) v" using "2.prems"(1) Cons by (auto simp: list_all_iff)
      with * Cons l "2.prems" show "jrun MVal st' (toks v @ ts') = jrun (MDone v) st' ts'"
        by (intro "2.IH" [of "(k, v)" k v]) auto
    qed (use "2.prems" in simp)
    moreover have "jrun MObj0 st ?u = jrun (MKey []) st ?u"
      by (cases kv; cases xs) (simp_all add: jstep_def)
    ultimately show ?thesis using l Cons by (simp add: jstep_def [of MVal] open_value_def)
  qed
qed (simp_all add: jstep_def open_value_def)

lemma json_parse_print:
  assumes "valid_json j" "fits maxNestingDepth j"
  shows "json_parse (json_print j) = Some j"
proof -
  have "lex_all (json_print j @ []) = Some (toks j)"
    by (subst lex_print) (use assms in \<open>simp_all add: stops_def\<close>)
  then show ?thesis
    using jrun_toks [of maxNestingDepth j "[]" "[]"] assms(2) by (simp add: json_parse_def)
qed

subsection \<open>Requests round trip\<close>

text \<open>A request as a client means it, with its numbers as literals, and as the server holds it.\<close>

record client_request =
  cr_query :: string
  cr_variables :: "(string \<times> json) list"

definition request_json :: "client_request \<Rightarrow> json" where
  "request_json c = JObj [(''query'', JStr (cr_query c)), (''variables'', JObj (cr_variables c))]"

definition as_received :: "client_request \<Rightarrow> graphQLRequest" where
  "as_received c =
     \<lparr>gr_Query = cr_query c, gr_Variables = map (\<lambda>(k, v). (k, to_interface v)) (cr_variables c)\<rparr>"

definition request_ok :: "client_request \<Rightarrow> bool" where
  "request_ok c \<longleftrightarrow>
     utf8_valid (cr_query c) \<and> valid_json (JObj (cr_variables c)) \<and> numbers_ok (JObj (cr_variables c))
     \<and> distinct (map fst (cr_variables c)) \<and> fits 9998 (JObj (cr_variables c))"

lemma fold_update_new:
  "distinct (map fst m @ map fst kvs) \<Longrightarrow>
   fold (\<lambda>(k, v) m. AList.update k (g v) m) kvs m = m @ map (\<lambda>(k, v). (k, g v)) kvs"
proof (induction kvs arbitrary: m)
  case (Cons kv kvs)
  obtain k v where kv: "kv = (k, v)" by (cases kv)
  have "k \<notin> fst ` set m" using Cons.prems kv by auto
  then have "AList.update k (g v) m = m @ [(k, g v)]" by (induction m) auto
  moreover have "distinct (map fst (m @ [(k, g v)]) @ map fst kvs)" using Cons.prems kv by simp
  ultimately show ?case using Cons.IH [of "m @ [(k, g v)]"] kv by simp
qed simp

lemma decode_request_json: "request_ok c \<Longrightarrow> decode_request (request_json c) = Some (as_received c)"
proof -
  have names: "equal_fold ''query'' ''query''" "\<not> equal_fold ''variables'' ''query''"
    "equal_fold ''variables'' ''variables''"
    by code_simp+
  assume "request_ok c"
  then show ?thesis
    using fold_update_new [of "[]" "cr_variables c" to_interface]
    by (simp add: decode_request_def request_json_def decode_field_def names zero_request_def request_ok_def as_received_def)
qed

lemma request_json_parse:
  assumes "request_ok c"
  shows "valid_json (request_json c) \<and> fits 9999 (request_json c)"
proof -
  have "utf8_valid ''query''" "utf8_valid ''variables''" by code_simp+
  with assms show ?thesis by (simp add: request_json_def request_ok_def)
qed

lemma those_decode: "list_all request_ok cs \<Longrightarrow> those (map decode_request (map request_json cs)) = Some (map as_received cs)"
  by (induction cs) (simp_all add: decode_request_json)

text \<open>Integers below \<open>2 ^ 53\<close> survive the conversion; beyond it a literal may change.\<close>

lemma num_value_int: "num_value (show_int n) = of_int n"
proof -
  have d: "c \<in> set (show_nat m) \<Longrightarrow> c \<notin> {CHR ''e'', CHR ''E'', CHR ''.'', CHR ''-''}" for c m
    using show_nat_digits [of c m] by (auto simp: digit_val_def)
  have t: "takeWhile (\<lambda>c. c \<notin> {CHR ''e'', CHR ''E''}) (show_nat m) = show_nat m"
    "takeWhile (\<lambda>c. c \<noteq> CHR ''.'') (show_nat m) = show_nat m" for m
    using d by (auto simp: takeWhile_eq_all_conv)
  have v: "(if has_prefix s ''-'' then - mag else mag) = of_int n" if "s = show_int n" "mag = of_nat (nat \<bar>n\<bar>)" for s mag
  proof (cases "n < 0")
    case True
    then show ?thesis using that by (simp add: show_int_def has_prefix_def)
  next
    case False
    obtain c u where "show_nat (nat n) = c # u" by (cases "show_nat (nat n)") simp_all
    then have "\<not> has_prefix (show_nat (nat n)) ''-''" using d [of c "nat n"] by (auto simp: has_prefix_def)
    with False that show ?thesis by (simp add: show_int_def)
  qed
  have p: "trim_prefix (show_int n) ''-'' = show_nat (nat \<bar>n\<bar>)"
  proof (cases "n < 0")
    case True
    then show ?thesis using trim_prefix_append [of "''-''" "show_nat (nat (- n))"] by (simp add: show_int_def)
  next
    case False
    obtain c u where "show_nat (nat n) = c # u" by (cases "show_nat (nat n)") simp_all
    then have "\<not> has_prefix (show_nat (nat n)) ''-''" using d [of c "nat n"] by (auto simp: has_prefix_def)
    with False show ?thesis by (simp add: show_int_def trim_prefix_def)
  qed
  show ?thesis
    unfolding num_value_def p Let_def t by (rule v) (simp_all add: read_show_nat)
qed

lemma to_interface_int: "\<bar>n\<bar> < 2 ^ 53 \<Longrightarrow> to_interface (JNum (show_int n)) = GoFloat (of_int n)"
  by (simp add: num_value_int to_float64_int)

text \<open>
  C29: Whatever queries and variables a client marshals (valid UTF-8, number literals in range, nested
  less than 9998 deep), the server receives a single request as exactly that request and a batch as
  exactly those requests in order, with every value of the variables as \<open>encoding/json\<close> puts it into an
  \<open>interface{}\<close>, and the first byte tells the two forms apart. An integer below \<open>2 ^ 53\<close> arrives as itself, any other
  number as the \<open>float64\<close> nearest to it.
\<close>

theorem marshalled_requests_decoded:
  assumes "list_all request_ok (c # cs)"
  shows "unmarshal_single (json_print (request_json c)) = Some (as_received c)
    \<and> hd (json_print (request_json c)) \<noteq> CHR ''[''
    \<and> unmarshal_batch (json_print (JArr (map request_json (c # cs)))) = Some (map as_received (c # cs))
    \<and> hd (json_print (JArr (map request_json (c # cs)))) = CHR ''[''
    \<and> (\<forall>k n. (k, JNum (show_int n)) \<in> set (cr_variables c) \<and> \<bar>n\<bar> < 2 ^ 53
         \<longrightarrow> (k, GoFloat (of_int n)) \<in> set (gr_Variables (as_received c)))"
proof (intro conjI)
  have up: "fits (n - 1) j \<Longrightarrow> fits n j" for n j
    by (induction n j rule: fits.induct) (auto simp: list_all_iff)
  have "fits maxNestingDepth (request_json c)"
    by (rule up) (use assms request_json_parse in \<open>simp add: maxNestingDepth_def\<close>)
  then have "json_parse (json_print (request_json c)) = Some (request_json c)"
    by (intro json_parse_print) (use assms request_json_parse in auto)
  with assms show "unmarshal_single (json_print (request_json c)) = Some (as_received c)"
    by (simp add: unmarshal_single_def decode_request_json)
  have "json_parse (json_print (JArr (map request_json (c # cs)))) = Some (JArr (map request_json (c # cs)))"
    by (rule json_parse_print) (use assms request_json_parse in \<open>auto simp: list_all_iff maxNestingDepth_def\<close>)
  with assms those_decode [of "c # cs"]
  show "unmarshal_batch (json_print (JArr (map request_json (c # cs)))) = Some (map as_received (c # cs))"
    by (simp add: unmarshal_batch_def del: those.simps)
  show "\<forall>k n. (k, JNum (show_int n)) \<in> set (cr_variables c) \<and> \<bar>n\<bar> < 2 ^ 53
      \<longrightarrow> (k, GoFloat (of_int n)) \<in> set (gr_Variables (as_received c))"
    using to_interface_int by (force simp: as_received_def simp del: to_interface.simps)
qed (simp_all add: request_json_def)

definition sample_request :: client_request where
  "sample_request = \<lparr>cr_query = ''{ products }'', cr_variables = [(''n'', JNum ''-1500''), (''s'', JStr ''a<b'')]\<rparr>"

theorem marshalled_requests_decoded_witness:
  "request_ok sample_request
   \<and> unmarshal_single (json_print (request_json sample_request))
       = Some \<lparr>gr_Query = ''{ products }'', gr_Variables = [(''n'', GoFloat (- 1500)), (''s'', GoString ''a<b'')]\<rparr>
   \<and> unmarshal_batch (json_print (JArr [request_json sample_request])) = Some [as_received sample_request]"
proof -
  have i: "''-1500'' = show_int (- 1500)" by code_simp
  have n: "num_value ''-1500'' = - 1500" unfolding i num_value_int by simp
  have "utf8_valid (cr_query sample_request)" "valid_json (JObj (cr_variables sample_request))"
    "fits 9998 (JObj (cr_variables sample_request))" by code_simp+
  then have ok: "request_ok sample_request"
    using n by (simp add: request_ok_def sample_request_def float64_ok_def)
  then have "list_all request_ok [sample_request]" by simp
  note r = marshalled_requests_decoded [OF this]
  have "to_interface (JNum ''-1500'') = GoFloat (- 1500)" unfolding i using to_interface_int [of "- 1500"] by simp
  then have "as_received sample_request
      = \<lparr>gr_Query = ''{ products }'', gr_Variables = [(''n'', GoFloat (- 1500)), (''s'', GoString ''a<b'')]\<rparr>"
    by (simp add: as_received_def sample_request_def del: to_interface.simps(3))
  with r ok show ?thesis by simp
qed

end
