(* ===== verification/Sha256.thy ===== *)
theory Sha256
  imports Go_Strings "HOL-Library.Word"
begin

unbundle bit_operations_syntax

text \<open>
  \<open>crypto/sha256\<close>, which \<^verbatim>\<open>authMiddleware\<close>, \<^verbatim>\<open>internal/scraper/hash.go\<close> and
  \<^verbatim>\<open>catalog/bundle.go\<close> call, on byte strings: padding, message schedule and compression on
  32-bit words (FIPS 180-4), with \<open>fmt.Sprintf("%x", sum)\<close>, and the two identifiers that
  \<^verbatim>\<open>hash.go\<close> derives from it.
\<close>

type_synonym word32 = "32 word"

definition rotr :: "nat \<Rightarrow> word32 \<Rightarrow> word32" where
  "rotr n x = drop_bit n x OR push_bit (32 - n) x"

definition round_constants :: "word32 list" where
  "round_constants =
    [0x428A2F98, 0x71374491, 0xB5C0FBCF, 0xE9B5DBA5, 0x3956C25B, 0x59F111F1,
     0x923F82A4, 0xAB1C5ED5, 0xD807AA98, 0x12835B01, 0x243185BE, 0x550C7DC3,
     0x72BE5D74, 0x80DEB1FE, 0x9BDC06A7, 0xC19BF174, 0xE49B69C1, 0xEFBE4786,
     0x0FC19DC6, 0x240CA1CC, 0x2DE92C6F, 0x4A7484AA, 0x5CB0A9DC, 0x76F988DA,
     0x983E5152, 0xA831C66D, 0xB00327C8, 0xBF597FC7, 0xC6E00BF3, 0xD5A79147,
     0x06CA6351, 0x14292967, 0x27B70A85, 0x2E1B2138, 0x4D2C6DFC, 0x53380D13,
     0x650A7354, 0x766A0ABB, 0x81C2C92E, 0x92722C85, 0xA2BFE8A1, 0xA81A664B,
     0xC24B8B70, 0xC76C51A3, 0xD192E819, 0xD6990624, 0xF40E3585, 0x106AA070,
     0x19A4C116, 0x1E376C08, 0x2748774C, 0x34B0BCB5, 0x391C0CB3, 0x4ED8AA4A,
     0x5B9CCA4F, 0x682E6FF3, 0x748F82EE, 0x78A5636F, 0x84C87814, 0x8CC70208,
     0x90BEFFFA, 0xA4506CEB, 0xBEF9A3F7, 0xC67178F2]"

definition initial_hash :: "word32 list" where
  "initial_hash =
    [0x6A09E667, 0xBB67AE85, 0x3C6EF372, 0xA54FF53A, 0x510E527F, 0x9B05688C,
     0x1F83D9AB, 0x5BE0CD19]"

text \<open>Big-endian numbers of bytes, and the bytes of a number.\<close>

definition word_of_bytes :: "string \<Rightarrow> word32" where
  "word_of_bytes s = fold (\<lambda>c w. push_bit 8 w OR word_of_nat (of_char c)) s 0"

definition bytes_of :: "nat \<Rightarrow> nat \<Rightarrow> string" where
  "bytes_of n k = map (\<lambda>i. char_of (k div 256 ^ (n - Suc i))) [0..<n]"

definition padded :: "string \<Rightarrow> string" where
  "padded s =
     (let l = length s; k = (119 - l mod 64) mod 64
      in s @ [char_of (128 :: nat)] @ replicate k (char_of (0 :: nat)) @ bytes_of 8 (8 * l))"

text \<open>The message schedule, newest word first.\<close>

definition next_word :: "word32 list \<Rightarrow> word32" where
  "next_word ws =
     (let a = ws ! 14; b = ws ! 1;
          s0 = rotr 7 a XOR rotr 18 a XOR drop_bit 3 a;
          s1 = rotr 17 b XOR rotr 19 b XOR drop_bit 10 b
      in ws ! 15 + s0 + ws ! 6 + s1)"

definition schedule :: "word32 list \<Rightarrow> word32 list" where
  "schedule ws = rev (((\<lambda>ws. next_word ws # ws) ^^ 48) (rev ws))"

fun sha_round :: "word32 \<times> word32 \<Rightarrow> word32 list \<Rightarrow> word32 list" where
  "sha_round (k, w) [a, b, c, d, e, f, g, h] =
     (let t1 = h + (rotr 6 e XOR rotr 11 e XOR rotr 25 e) + ((e AND f) XOR (NOT e AND g)) + k + w;
          t2 = (rotr 2 a XOR rotr 13 a XOR rotr 22 a) + ((a AND b) XOR (a AND c) XOR (b AND c))
      in [t1 + t2, a, b, c, d + t1, e, f, g])"
| "sha_round _ st = st"

definition sha_block :: "string \<Rightarrow> word32 list \<Rightarrow> word32 list" where
  "sha_block block st =
     map2 (+) st (fold sha_round (zip round_constants (schedule (map word_of_bytes (batches 4 block)))) st)"

definition sha256 :: "string \<Rightarrow> string" where
  "sha256 s =
     concat (map (\<lambda>w. bytes_of 4 (unat w)) (fold sha_block (batches 64 (padded s)) initial_hash))"

definition hex_lower :: "nat \<Rightarrow> char" where
  "hex_lower d = ''0123456789abcdef'' ! (d mod 16)"

definition hex_bytes :: "string \<Rightarrow> string" where
  "hex_bytes s = concat (map (\<lambda>c. [hex_lower (of_char c div 16), hex_lower (of_char c)]) s)"

text \<open>\<open>ProductHash\<close> and \<open>PriceHash\<close>: the fields joined with NUL bytes, hashed, cut to 32 digits.\<close>

definition NUL :: char where "NUL = char_of (0 :: nat)"

definition ProductHash :: "string \<Rightarrow> string \<Rightarrow> string \<Rightarrow> string \<Rightarrow> string" where
  "ProductHash vendorName region service sku =
     (let data = join [NUL] [vendorName, region, service, sku] in take 32 (hex_bytes (sha256 data)))"

definition PriceHash ::
  "string \<Rightarrow> string \<Rightarrow> string \<Rightarrow> string \<Rightarrow> string \<Rightarrow> string \<Rightarrow> string \<Rightarrow> string \<Rightarrow> string" where
  "PriceHash productHash purchaseOption unit startUsageAmount description termLength
       termPurchaseOption termOfferingClass =
     (let data = join [NUL] [productHash, purchaseOption, unit, startUsageAmount, description,
                             termLength, termPurchaseOption, termOfferingClass];
          hash = take 32 (hex_bytes (sha256 data))
      in productHash @ ''-'' @ hash)"

subsection \<open>Lengths\<close>

lemma length_bytes_of [simp]: "length (bytes_of n k) = n"
  by (simp add: bytes_of_def)

lemma length_sha_round [simp]: "length st = 8 \<Longrightarrow> length (sha_round kw st) = 8"
  by (cases "(kw, st)" rule: sha_round.cases) (auto simp: Let_def)

lemma length_sha_rounds: "length st = 8 \<Longrightarrow> length (fold sha_round kws st) = 8"
  by (induction kws arbitrary: st) simp_all

lemma length_sha_block [simp]: "length st = 8 \<Longrightarrow> length (sha_block b st) = 8"
  by (simp add: sha_block_def length_sha_rounds)

lemma length_sha_blocks: "length st = 8 \<Longrightarrow> length (fold sha_block bs st) = 8"
  by (induction bs arbitrary: st) simp_all

lemma length_concat_same: "list_all (\<lambda>x. length (f x) = n) xs \<Longrightarrow> length (concat (map f xs)) = n * length xs"
  by (induction xs) simp_all

lemma length_sha256 [simp]: "length (sha256 s) = 32"
proof -
  have "length (fold sha_block (batches 64 (padded s)) initial_hash) = 8"
    by (rule length_sha_blocks) (simp add: initial_hash_def)
  then show ?thesis
    unfolding sha256_def by (subst length_concat_same [of _ 4]) (simp_all add: list_all_iff)
qed

lemma length_hex_bytes [simp]: "length (hex_bytes s) = 2 * length s"
  unfolding hex_bytes_def by (rule length_concat_same) (simp add: list_all_iff)

lemma length_ProductHash [simp]: "length (ProductHash v r s k) = 32"
  by (simp add: ProductHash_def Let_def)

end
