(* ===== verification/Net_Addr.thy ===== *)
theory Net_Addr
  imports Go_Strings
begin

text \<open>
  The functions of Go's \<^verbatim>\<open>net\<close> package that the client-address logic uses, on byte strings:
  \<open>SplitHostPort\<close>, \<open>ParseIP\<close>, \<open>ParseCIDR\<close> and \<open>IPNet.Contains\<close>. An address is its number and its
  family; an IPv4 address in IPv6 form (\<open>::ffff:a.b.c.d\<close>) is the IPv4 address, as \<open>To4\<close> makes it.
\<close>

datatype ip = V4 nat | V6 nat

record ip_net =
  net_ip :: ip
  net_bits :: nat

definition hex_val :: "char \<Rightarrow> nat option" where
  "hex_val c =
     (let b = (of_char c :: nat) in
      if 48 \<le> b \<and> b \<le> 57 then Some (b - 48)
      else if 97 \<le> b \<and> b \<le> 102 then Some (b - 87)
      else if 65 \<le> b \<and> b \<le> 70 then Some (b - 55) else None)"

fun read_hex :: "nat \<Rightarrow> string \<Rightarrow> nat option" where
  "read_hex acc [] = Some acc"
| "read_hex acc (c # s) = (case hex_val c of None \<Rightarrow> None | Some d \<Rightarrow> read_hex (16 * acc + d) s)"

text \<open>One to three digits, no leading zero, at most 255.\<close>

definition parse_octet :: "string \<Rightarrow> nat option" where
  "parse_octet s =
     (if s = '''' \<or> length s > 3 \<or> (length s > 1 \<and> hd s = CHR ''0'') then None
      else (case read_digits 0 s of None \<Rightarrow> None | Some n \<Rightarrow> if n \<le> 255 then Some n else None))"

definition parse_v4 :: "string \<Rightarrow> nat option" where
  "parse_v4 s =
     (case split_on (CHR ''.'') s of
        [a, b, c, d] \<Rightarrow>
          (case (parse_octet a, parse_octet b, parse_octet c, parse_octet d) of
             (Some w, Some x, Some y, Some z) \<Rightarrow> Some (((w * 256 + x) * 256 + y) * 256 + z)
           | _ \<Rightarrow> None)
      | _ \<Rightarrow> None)"

definition parse_group :: "string \<Rightarrow> nat option" where
  "parse_group s = (if s = '''' \<or> length s > 4 then None else read_hex 0 s)"

text \<open>The 16-bit groups of one side of \<open>::\<close>; the last may be an IPv4 address, two groups.\<close>

fun groups :: "string list \<Rightarrow> nat list option" where
  "groups [] = Some []"
| "groups [g] =
     (case parse_group g of
        Some n \<Rightarrow> Some [n]
      | None \<Rightarrow> (case parse_v4 g of Some n \<Rightarrow> Some [n div 65536, n mod 65536] | None \<Rightarrow> None))"
| "groups (g # gs) =
     (case (parse_group g, groups gs) of (Some n, Some ns) \<Rightarrow> Some (n # ns) | _ \<Rightarrow> None)"

definition side :: "string \<Rightarrow> nat list option" where
  "side s = (if s = '''' then Some [] else groups (split_on (CHR '':'') s))"

definition number_of :: "nat list \<Rightarrow> nat" where
  "number_of gs = foldl (\<lambda>n g. n * 65536 + g) 0 gs"

definition parse_v6 :: "string \<Rightarrow> nat option" where
  "parse_v6 s =
     (case index_sub s ''::'' of
        None \<Rightarrow> (case side s of Some gs \<Rightarrow> if length gs = 8 then Some (number_of gs) else None | None \<Rightarrow> None)
      | Some i \<Rightarrow>
          (case (side (take i s), side (drop (i + 2) s)) of
             (Some l, Some r) \<Rightarrow>
               if length l + length r \<le> 7
               then Some (number_of (l @ replicate (8 - length l - length r) 0 @ r)) else None
           | _ \<Rightarrow> None))"

definition to4 :: "nat \<Rightarrow> ip" where
  "to4 n = (if n div 2 ^ 32 = 65535 then V4 (n mod 2 ^ 32) else V6 n)"

definition ParseIP :: "string \<Rightarrow> ip option" where
  "ParseIP s = (if CHR '':'' \<in> set s then map_option to4 (parse_v6 s) else map_option V4 (parse_v4 s))"

definition masked :: "nat \<Rightarrow> nat \<Rightarrow> nat \<Rightarrow> nat" where
  "masked w bits n = n div 2 ^ (w - bits) * 2 ^ (w - bits)"

definition ParseCIDR :: "string \<Rightarrow> ip_net option" where
  "ParseCIDR s =
     (case index_byte s (CHR ''/'') of
        None \<Rightarrow> None
      | Some i \<Rightarrow>
          (let addr = take i s; mask = drop (i + 1) s in
           case read_digits 0 mask of
             None \<Rightarrow> None
           | Some p \<Rightarrow>
               if mask = '''' then None
               else if CHR '':'' \<in> set addr then
                 (case parse_v6 addr of
                    None \<Rightarrow> None
                  | Some n \<Rightarrow>
                      if p > 128 then None
                      else (case to4 (masked 128 p n) of
                              V4 m \<Rightarrow> Some \<lparr>net_ip = V4 m, net_bits = p - 96\<rparr>
                            | V6 m \<Rightarrow> Some \<lparr>net_ip = V6 m, net_bits = p\<rparr>))
               else (case parse_v4 addr of
                       None \<Rightarrow> None
                     | Some n \<Rightarrow> if p > 32 then None
                                else Some \<lparr>net_ip = V4 (masked 32 p n), net_bits = p\<rparr>)))"

definition net_contains :: "ip_net \<Rightarrow> ip option \<Rightarrow> bool" where
  "net_contains n a =
     (case (net_ip n, a) of
        (V4 m, Some (V4 x)) \<Rightarrow> m div 2 ^ (32 - net_bits n) = x div 2 ^ (32 - net_bits n)
      | (V6 m, Some (V6 x)) \<Rightarrow> m div 2 ^ (128 - net_bits n) = x div 2 ^ (128 - net_bits n)
      | _ \<Rightarrow> False)"

text \<open>\<open>SplitHostPort\<close>: the host, or \<open>None\<close> for its errors.\<close>

definition SplitHostPort :: "string \<Rightarrow> string option" where
  "SplitHostPort hostport =
     (case last_index_byte hostport (CHR '':'') of
        None \<Rightarrow> None
      | Some i \<Rightarrow>
          if has_prefix hostport ''['' then
            (case index_byte hostport (CHR '']'') of
               None \<Rightarrow> None
             | Some e \<Rightarrow>
                 if e + 1 \<noteq> i then None
                 else (let host = drop 1 (take e hostport); rest = drop (e + 1) hostport in
                       if CHR ''['' \<in> set (drop 1 hostport) \<or> CHR '']'' \<in> set rest then None else Some host))
          else
            (let host = take i hostport in
             if CHR '':'' \<in> set host \<or> CHR ''['' \<in> set hostport \<or> CHR '']'' \<in> set hostport then None
             else Some host))"

subsection \<open>Membership of a network\<close>

text \<open>The top bits of a number below \<open>2 ^ w\<close> agree with those of a masked one.\<close>

lemma masked_div: "masked w p n div 2 ^ (w - p) = n div 2 ^ (w - p)"
  by (simp add: masked_def)

text \<open>An IPv4 network holds exactly the addresses whose first \<open>p\<close> bits are those of its address.\<close>

lemma cidr_contains:
  assumes "ParseCIDR s = Some n" "CHR '':'' \<notin> set s" "a = Some (V4 x)"
  shows "\<exists>i m p. index_byte s (CHR ''/'') = Some i \<and> parse_v4 (take i s) = Some m
     \<and> read_digits 0 (drop (i + 1) s) = Some p \<and> p \<le> 32
     \<and> (net_contains n a \<longleftrightarrow> m div 2 ^ (32 - p) = x div 2 ^ (32 - p))"
proof -
  obtain i where i: "index_byte s (CHR ''/'') = Some i" using assms(1) by (auto simp: ParseCIDR_def split: option.splits)
  have "CHR '':'' \<notin> set (take i s)" using assms(2) by (meson in_set_takeD)
  with assms i show ?thesis
    by (auto simp: ParseCIDR_def Let_def net_contains_def masked_div split: option.splits if_splits)
qed

end
