(* ===== verification/Config.thy ===== *)
theory Config
  imports Go_Strings
begin

text \<open>
  \<^verbatim>\<open>internal/config/config.go\<close>: the configuration read from the environment, its defaults and its
  validation. The environment is a function \<open>env\<close> (\<open>os.Getenv\<close>: an unset variable reads as
  \<open>''''\<close>). \<open>parse_float\<close> is \<open>strconv.ParseFloat\<close> on the decimal rates the variable holds, and
  \<open>url_sslmode\<close> the \<open>sslmode\<close> query parameter \<open>net/url\<close> finds in a URL, or the parse error.
\<close>

record config =
  cfg_Port :: string
  cfg_DatabaseURL :: string
  cfg_APIKey :: string
  cfg_GCPAPIKey :: string
  cfg_ScrapeConcurrency :: int
  cfg_ScrapeConcurrencyAWS :: int
  cfg_ScrapeConcurrencyAzure :: int
  cfg_ScrapeConcurrencyGCP :: int
  cfg_EnablePriceSnapshots :: bool
  cfg_LogLevel :: string
  cfg_MaxRequestBodyMB :: int
  cfg_MaxBatchSize :: int
  cfg_QueryTimeoutSecs :: int
  cfg_RateLimitPerSec :: int
  cfg_MaxQueryDepth :: int
  cfg_DisableIntrospection :: bool
  cfg_CNYUSDRate :: rat
  cfg_CORSOrigins :: string
  cfg_DBMaxConns :: int
  cfg_DBMinConns :: int
  cfg_Env :: string
  cfg_MetricsAddr :: string
  cfg_MaxProductsPerRequest :: int
  cfg_MaxProductQueriesPerRequest :: int
  cfg_MaxInflightRequests :: int
  cfg_InflightWaitMillis :: int

type_synonym env = "string \<Rightarrow> string"

subsection \<open>Reading variables\<close>

definition getEnv :: "env \<Rightarrow> string \<Rightarrow> string \<Rightarrow> string" where
  "getEnv env key fallback = (let v = env key in if v \<noteq> '''' then v else fallback)"

definition getEnvInt :: "env \<Rightarrow> string \<Rightarrow> int \<Rightarrow> int" where
  "getEnvInt env key fallback =
     (let v = env key in
      if v \<noteq> '''' then (case parse_int v of Some i \<Rightarrow> i | None \<Rightarrow> fallback) else fallback)"

definition getEnvFloat :: "(string \<Rightarrow> rat option) \<Rightarrow> env \<Rightarrow> string \<Rightarrow> rat \<Rightarrow> rat" where
  "getEnvFloat parse_float env key fallback =
     (let v = env key in
      if v \<noteq> '''' then (case parse_float v of Some f \<Rightarrow> f | None \<Rightarrow> fallback) else fallback)"

definition parse_bool :: "string \<Rightarrow> bool option" where
  "parse_bool s =
     (if s \<in> {''1'', ''t'', ''T'', ''TRUE'', ''true'', ''True''} then Some True
      else if s \<in> {''0'', ''f'', ''F'', ''FALSE'', ''false'', ''False''} then Some False
      else None)"

definition getEnvBool :: "env \<Rightarrow> string \<Rightarrow> bool \<Rightarrow> bool" where
  "getEnvBool env key fallback =
     (let v = env key in
      if v \<noteq> '''' then (case parse_bool v of Some b \<Rightarrow> b | None \<Rightarrow> fallback) else fallback)"

definition DefaultMetricsAddr :: string where "DefaultMetricsAddr = ''127.0.0.1:9090''"

definition metricsAddr :: "env \<Rightarrow> string" where
  "metricsAddr env =
     (let v = trim_space (env ''METRICS_ADDR'') in
      if v \<noteq> '''' then v
      else (let p = trim_space (env ''METRICS_PORT'') in
            if p \<noteq> '''' then (if p = ''0'' then ''off'' else '':'' @ p)
            else DefaultMetricsAddr))"

definition Load :: "(string \<Rightarrow> rat option) \<Rightarrow> env \<Rightarrow> config" where
  "Load parse_float env =
     \<lparr>cfg_Port = getEnv env ''PORT'' ''4000'',
      cfg_DatabaseURL = getEnv env ''DATABASE_URL'' '''',
      cfg_APIKey = getEnv env ''API_KEY'' '''',
      cfg_GCPAPIKey = getEnv env ''GCP_API_KEY'' '''',
      cfg_ScrapeConcurrency = getEnvInt env ''SCRAPE_CONCURRENCY'' 4,
      cfg_ScrapeConcurrencyAWS = getEnvInt env ''SCRAPE_CONCURRENCY_AWS'' 0,
      cfg_ScrapeConcurrencyAzure = getEnvInt env ''SCRAPE_CONCURRENCY_AZURE'' 8,
      cfg_ScrapeConcurrencyGCP = getEnvInt env ''SCRAPE_CONCURRENCY_GCP'' 0,
      cfg_EnablePriceSnapshots = getEnvBool env ''ENABLE_PRICE_SNAPSHOTS'' False,
      cfg_LogLevel = getEnv env ''LOG_LEVEL'' ''info'',
      cfg_MaxRequestBodyMB = getEnvInt env ''MAX_REQUEST_BODY_MB'' 4,
      cfg_MaxBatchSize = getEnvInt env ''MAX_BATCH_SIZE'' 50,
      cfg_QueryTimeoutSecs = getEnvInt env ''QUERY_TIMEOUT_SECS'' 30,
      cfg_RateLimitPerSec = getEnvInt env ''RATE_LIMIT_PER_SEC'' 100,
      cfg_MaxQueryDepth = getEnvInt env ''MAX_QUERY_DEPTH'' 10,
      cfg_DisableIntrospection = getEnvBool env ''DISABLE_INTROSPECTION''
        (equal_fold (getEnv env ''ENV'' ''development'') ''production''),
      cfg_CNYUSDRate = getEnvFloat parse_float env ''CNY_USD_RATE'' (62069 / 10000),
      cfg_CORSOrigins = getEnv env ''CORS_ALLOWED_ORIGINS'' '''',
      cfg_DBMaxConns = getEnvInt env ''DB_MAX_CONNS'' 0,
      cfg_DBMinConns = getEnvInt env ''DB_MIN_CONNS'' 0,
      cfg_Env = getEnv env ''ENV'' ''development'',
      cfg_MetricsAddr = metricsAddr env,
      cfg_MaxProductsPerRequest = getEnvInt env ''MAX_PRODUCTS_PER_REQUEST'' 5000,
      cfg_MaxProductQueriesPerRequest = getEnvInt env ''MAX_PRODUCT_QUERIES_PER_REQUEST'' 50,
      cfg_MaxInflightRequests = getEnvInt env ''MAX_INFLIGHT_REQUESTS'' 0,
      cfg_InflightWaitMillis = getEnvInt env ''INFLIGHT_WAIT_MS'' 250\<rparr>"

subsection \<open>Validation\<close>

text \<open>The loop over \<open>strings.Fields\<close> of the keyword/value form.\<close>

fun keyword_sslmode :: "string list \<Rightarrow> string" where
  "keyword_sslmode [] = ''''"
| "keyword_sslmode (kv # kvs) =
     (case index_byte kv (CHR ''='') of
        Some eq \<Rightarrow>
          if eq > 0 \<and> equal_fold (take eq kv) ''sslmode'' then to_lower (drop (eq + 1) kv)
          else keyword_sslmode kvs
      | None \<Rightarrow> keyword_sslmode kvs)"

definition extractSSLMode :: "(string \<Rightarrow> string + string) \<Rightarrow> string \<Rightarrow> string + string" where
  "extractSSLMode url_sslmode connStr =
     (let s = trim_space connStr in
      if has_prefix s ''postgres://'' \<or> has_prefix s ''postgresql://''
      then (case url_sslmode s of
              Inl e \<Rightarrow> Inl (''invalid URL: '' @ e)
            | Inr v \<Rightarrow> Inr (to_lower v))
      else Inr (keyword_sslmode (str_fields s)))"

definition errMissingConfig :: "string \<Rightarrow> string" where
  "errMissingConfig field = ''required environment variable '' @ field @ '' is not set''"

definition Validate :: "(string \<Rightarrow> string + string) \<Rightarrow> config \<Rightarrow> string option" where
  "Validate url_sslmode c =
     (if cfg_DatabaseURL c = '''' then Some (errMissingConfig ''DATABASE_URL'')
      else if equal_fold (cfg_Env c) ''production'' then
        (case extractSSLMode url_sslmode (cfg_DatabaseURL c) of
           Inl e \<Rightarrow> Some (''DATABASE_URL: '' @ e)
         | Inr sslmode \<Rightarrow>
             if sslmode = ''disable'' \<or> sslmode = ''allow'' \<or> sslmode = ''prefer''
             then Some (''DATABASE_URL: sslmode='' @ sslmode
                        @ '' is forbidden in production; use require, verify-ca, or verify-full'')
             else None)
      else None)"

definition ConcurrencyForVendor :: "config \<Rightarrow> string \<Rightarrow> int" where
  "ConcurrencyForVendor c vendor =
     (let v = to_lower vendor in
      if v = ''aws'' \<and> cfg_ScrapeConcurrencyAWS c > 0 then cfg_ScrapeConcurrencyAWS c
      else if v = ''azure'' \<and> cfg_ScrapeConcurrencyAzure c > 0 then cfg_ScrapeConcurrencyAzure c
      else if v = ''gcp'' \<and> cfg_ScrapeConcurrencyGCP c > 0 then cfg_ScrapeConcurrencyGCP c
      else cfg_ScrapeConcurrency c)"

subsection \<open>The properties of the configuration\<close>

text \<open>
  A keyword/value connection string as libpq reads it: keys and values may be separated from the
  \<open>=\<close> by spaces, values may be quoted, a later setting overrides an earlier one. \<open>libpq_sslmode\<close>
  reads the setting of the unquoted and the quoted form after removing the spaces around \<open>=\<close>.
\<close>

definition libpq_fields :: "string list \<Rightarrow> (string \<times> string) list" where
  "libpq_fields ws =
     map (\<lambda>w. case index_byte w (CHR ''='') of
                None \<Rightarrow> (w, '''')
              | Some i \<Rightarrow>
                  (let v = drop (i + 1) w in
                   (take i w,
                    if length v \<ge> 2 \<and> hd v = CHR 0x27 \<and> last v = CHR 0x27
                    then butlast (tl v) else v))) ws"

fun glue_equals :: "string list \<Rightarrow> string list" where
  "glue_equals (k # e # v # ws) = (if e = ''='' then (k @ e @ v) # glue_equals ws else k # glue_equals (e # v # ws))"
| "glue_equals ws = ws"

definition libpq_sslmode :: "string \<Rightarrow> string" where
  "libpq_sslmode s =
     (case filter (\<lambda>(k, v). k = ''sslmode'') (libpq_fields (glue_equals (str_fields s))) of
        [] \<Rightarrow> ''prefer''
      | xs \<Rightarrow> snd (last xs))"

text \<open>
  The production guard on \<open>sslmode\<close> is not tight. A production configuration is accepted although
  its connection string asks for an insecure mode when the mode is left out (the library's default is
  \<open>prefer\<close>), quoted, written with spaces around the equals sign, or set twice.
\<close>

theorem sslmode_guard_bypassed:
  "list_all (\<lambda>url. Validate (\<lambda>u. Inr '''')
        ((Load (\<lambda>s. None) (\<lambda>k. if k = ''DATABASE_URL'' then url else if k = ''ENV'' then ''production'' else ''''))) = None
      \<and> libpq_sslmode url \<in> {''disable'', ''prefer''})
     [''host=db user=u'', ''host=db sslmode='' @ [CHR 0x27] @ ''disable'' @ [CHR 0x27],
      ''host=db sslmode = disable'', ''host=db sslmode=require sslmode=disable'']"
  by code_simp

text \<open>
  On connection strings of plain \<open>key=value\<close> words that set \<open>sslmode\<close> once the guard does what it
  says: in production the configuration is accepted exactly when the mode is not \<open>disable\<close>,
  \<open>allow\<close> or \<open>prefer\<close> in any spelling of upper and lower case.
\<close>

theorem sslmode_guard_plain:
  assumes "trim_space (cfg_DatabaseURL c) = s" "str_fields s = before @ (k @ ''='' @ v) # after"
    and "cfg_DatabaseURL c \<noteq> ''''" "equal_fold (cfg_Env c) ''production''"
    and "has_prefix s ''postgres://'' = False" "has_prefix s ''postgresql://'' = False"
    and "equal_fold k ''sslmode''" "CHR ''='' \<notin> set k"
    and "\<forall>w \<in> set before. \<forall>i. index_byte w (CHR ''='') = Some i \<longrightarrow> \<not> equal_fold (take i w) ''sslmode''"
  shows "Validate url_sslmode c = None \<longleftrightarrow> to_lower v \<notin> {''disable'', ''allow'', ''prefer''}"
proof -
  have idx: "index_byte (k @ ''='' @ v) (CHR ''='') = Some (length k)"
    using assms(8) by (induction k) auto
  have k: "0 < length k"
    using assms(7) by (cases k) (simp_all add: equal_fold_def to_lower_def)
  have "keyword_sslmode (before @ (k @ ''='' @ v) # after) = to_lower v"
    using assms(9)
  proof (induction before)
    case Nil
    from idx k assms(7) show ?case by simp
  next
    case (Cons w ws)
    then show ?case by (auto split: option.split)
  qed
  then have "extractSSLMode url_sslmode (cfg_DatabaseURL c) = Inr (to_lower v)"
    using assms by (simp add: extractSSLMode_def Let_def)
  with assms(3,4) show ?thesis by (simp add: Validate_def)
qed

definition production_config :: config where
  "production_config = Load (\<lambda>s. None)
     (\<lambda>k. if k = ''DATABASE_URL'' then ''host=db SSLMode=Disable'' else if k = ''ENV'' then ''Production'' else '''')"

theorem sslmode_guard_plain_witness:
  "Validate (\<lambda>u. Inl ''x'') production_config \<noteq> None"
proof -
  let ?s = "''host=db SSLMode=Disable''"
  have f: "str_fields ?s = [''host=db''] @ (''SSLMode'' @ ''='' @ ''Disable'') # []" by code_simp
  have w: "\<forall>w \<in> set [''host=db'']. \<forall>i. index_byte w (CHR ''='') = Some i \<longrightarrow> \<not> equal_fold (take i w) ''sslmode''"
    by (simp add: equal_fold_def to_lower_def)
  have u: "cfg_DatabaseURL production_config = ?s" "cfg_Env production_config = ''Production''"
    by code_simp+
  have t: "trim_space (cfg_DatabaseURL production_config) = ?s" unfolding u by code_simp
  have e: "equal_fold (cfg_Env production_config) ''production''" unfolding u by code_simp
  have p: "has_prefix ?s ''postgres://'' = False" "has_prefix ?s ''postgresql://'' = False" by code_simp+
  have l: "equal_fold ''SSLMode'' ''sslmode''" "to_lower ''Disable'' = ''disable''" by code_simp+
  have "CHR ''='' \<notin> set ''SSLMode''" by simp
  from sslmode_guard_plain [OF t f _ e p l(1) this w, of "\<lambda>u. Inl ''x''"] l(2) u(1) show ?thesis by simp
qed

end
