(* ===== verification/Regex_Filter.thy ===== *)
theory Regex_Filter
  imports Pricing_Types
begin

text \<open>
  The regex matcher and the price filter of \<^verbatim>\<open>internal/db/queries.go\<close>: \<open>compileRegex\<close> with its
  bounded cache, \<open>MatchRegexPattern\<close> with the simulation of negative lookahead and lookbehind,
  the conversion for PostgreSQL, and \<open>FilterPrices\<close>.

  Go's regex engine is a parameter \<open>re\<close>: \<open>regexp.Compile\<close> as a partial function to a compiled
  expression with the three operations the code calls. Everything else is translated. A string
  slice out of range panics in Go; every slice of the code goes through \<open>go_slice\<close>, whose
  \<open>None\<close> is that panic, and \<open>match_pattern_total\<close> shows that it never happens.
\<close>

record regexp =
  re_match :: "string \<Rightarrow> bool"                         \<comment> \<open>\<open>MatchString\<close>\<close>
  re_find :: "string \<Rightarrow> (nat \<times> nat) option"             \<comment> \<open>\<open>FindStringIndex\<close>\<close>
  re_replace :: "string \<Rightarrow> string \<Rightarrow> string"             \<comment> \<open>\<open>ReplaceAllString\<close>\<close>

type_synonym engine = "string \<Rightarrow> regexp option"
type_synonym re_cache = "(string \<times> regexp) list"

definition engine_ok :: "engine \<Rightarrow> bool" where
  "engine_ok re \<longleftrightarrow> (\<forall>p r v i j. re p = Some r \<longrightarrow> re_find r v = Some (i, j) \<longrightarrow> i \<le> j \<and> j \<le> length v)"

subsection \<open>The compiled-pattern cache\<close>

definition compileRegex :: "engine \<Rightarrow> re_cache \<Rightarrow> string \<Rightarrow> regexp option \<times> re_cache" where
  "compileRegex re cache pattern =
     (case map_of cache pattern of
        Some r \<Rightarrow> (Some r, cache)
      | None \<Rightarrow>
          (case re pattern of
             None \<Rightarrow> (None, cache)
           | Some r \<Rightarrow>
               (Some r, if length cache < maxRegexCacheSize then (pattern, r) # cache else cache)))"

definition cache_ok :: "engine \<Rightarrow> re_cache \<Rightarrow> bool" where
  "cache_ok re cache \<longleftrightarrow>
     length cache \<le> maxRegexCacheSize \<and> distinct (map fst cache)
     \<and> list_all (\<lambda>(p, r). re p = Some r) cache"

lemma cache_ok_empty [simp]: "cache_ok re []"
  by (simp add: cache_ok_def)

lemma cache_ok_lookup: "cache_ok re cache \<Longrightarrow> map_of cache p = Some r \<Longrightarrow> re p = Some r"
  by (auto simp: cache_ok_def list_all_iff dest: map_of_SomeD)

lemma compileRegex_result [simp]:
  "cache_ok re cache \<Longrightarrow> fst (compileRegex re cache p) = re p"
  by (cases "map_of cache p") (auto simp: compileRegex_def split: option.splits dest: cache_ok_lookup)

lemma compileRegex_cache [inv_intros]:
  "cache_ok re cache \<Longrightarrow> cache_ok re (snd (compileRegex re cache p))"
  by (auto simp: compileRegex_def cache_ok_def map_of_eq_None_iff split: option.splits)

subsection \<open>Patterns\<close>

definition go_slice :: "string \<Rightarrow> nat \<Rightarrow> nat \<Rightarrow> string option" where
  "go_slice s i j = (if i \<le> j \<and> j \<le> length s then Some (take (j - i) (drop i s)) else None)"

lemma go_slice_length: "go_slice s i j = Some t \<Longrightarrow> i \<le> j \<and> length t = j - i \<and> j \<le> length s"
  by (auto simp: go_slice_def split: if_splits)

abbreviation backslash :: char where "backslash \<equiv> CHR 0x5C"

definition normalizeRegexForPrefix :: "string \<Rightarrow> string" where
  "normalizeRegexForPrefix pattern =
     (if has_prefix pattern [backslash, CHR ''-''] then ''(^|-)'' @ drop 2 pattern else pattern)"

definition parseRegexForPostgres :: "string \<Rightarrow> string \<times> bool" where
  "parseRegexForPostgres pattern =
     (if \<not> has_prefix pattern ''/'' then (pattern, False)
      else (case last_index_byte (drop 1 pattern) (CHR ''/'') of
              None \<Rightarrow> ('''', False)
            | Some i \<Rightarrow>
                (let lastSlash = i + 1;
                     regexBody = take (lastSlash - 1) (drop 1 pattern);
                     flags = drop (lastSlash + 1) pattern
                 in (regexBody, contains flags ''i''))))"

text \<open>The scan for the parenthesis that closes a group; \<open>depth\<close> counts the open ones.\<close>

fun scan_close :: "nat \<Rightarrow> int \<Rightarrow> string \<Rightarrow> nat option" where
  "scan_close i depth [] = None"
| "scan_close i depth (c # s) =
     (if c = CHR ''('' then scan_close (i + 1) (depth + 1) s
      else if c = CHR '')'' then
        (if depth - 1 = 0 then Some i else scan_close (i + 1) (depth - 1) s)
      else scan_close (i + 1) depth s)"

definition closing_paren :: "string \<Rightarrow> nat \<Rightarrow> nat option" where
  "closing_paren s start = scan_close start 0 (drop start s)"

lemma scan_close_bounds: "scan_close i depth s = Some e \<Longrightarrow> i \<le> e \<and> e < i + length s"
  by (induction i depth s rule: scan_close.induct) (force split: if_splits)+

lemma take_drop_split: "take (length p) (drop i s) = p \<Longrightarrow> drop i s = p @ drop (i + length p) s"
  by (metis append_take_drop_id add.commute drop_drop)

lemma closing_paren_group:
  assumes "index_sub s (CHR ''('' # p) = Some start" and "closing_paren s start = Some e"
    and "CHR ''('' \<notin> set p" "CHR '')'' \<notin> set p"
  shows "start + 1 + length p \<le> e \<and> e < length s"
proof -
  have skip: "scan_close i d (q @ t) = scan_close (i + length q) d t"
    if "CHR ''('' \<notin> set q" "CHR '')'' \<notin> set q" for i d q t
    using that by (induction q arbitrary: i) auto
  from index_sub_Some [OF assms(1)]
  have le: "start + 1 + length p \<le> length s"
    and d: "drop start s = (CHR ''('' # p) @ drop (start + 1 + length p) s"
    using take_drop_split [of "CHR ''('' # p" start s] by simp_all
  from assms(2) d have "scan_close (start + 1 + length p) 1 (drop (start + 1 + length p) s) = Some e"
    using assms(3,4) by (simp add: closing_paren_def skip)
  from scan_close_bounds [OF this] le show ?thesis by (auto simp: Suc_le_eq)
qed

subsection \<open>Negative lookahead\<close>

text \<open>
  The extraction loop of \<open>matchWithNegativeLookahead\<close>: \<open>Some True\<close> when a listed alternative
  occurs in the value (the function then answers \<open>false\<close>), \<open>Some False\<close> when the loop ends.
\<close>

definition exclusion_alternatives :: "bool \<Rightarrow> string \<Rightarrow> string list" where
  "exclusion_alternatives caseInsensitive exclusion =
     (let e1 = trim_prefix exclusion ''.*'';
          e2 = trim_suffix e1 ''$'';
          e3 = trim_prefix e2 ''('';
          e4 = trim_suffix e3 '')'';
          e5 = (if caseInsensitive then to_lower e4 else e4)
      in map trim_space (split_on (CHR ''|'') e5))"

function lookahead_excluded :: "bool \<Rightarrow> string \<Rightarrow> string \<Rightarrow> bool option" where
  "lookahead_excluded ci testValue remaining =
     (case index_sub remaining ''(?!'' of
        None \<Rightarrow> Some False
      | Some start \<Rightarrow>
          (case closing_paren remaining start of
             None \<Rightarrow> Some False
           | Some e \<Rightarrow>
               (case go_slice remaining (start + 3) e of
                  None \<Rightarrow> None
                | Some exclusion \<Rightarrow>
                    if list_ex (\<lambda>alt. alt \<noteq> '''' \<and> contains testValue alt)
                         (exclusion_alternatives ci exclusion)
                    then Some True
                    else (case go_slice remaining (e + 1) (length remaining) of
                            None \<Rightarrow> None
                          | Some rest \<Rightarrow> lookahead_excluded ci testValue rest))))"
  by pat_completeness auto
termination
  by (relation "measure (\<lambda>(ci, v, r). length r)") (auto dest!: go_slice_length)

declare lookahead_excluded.simps [simp del]

definition lookaheadCleaner :: string where
  "lookaheadCleaner = backslash # ''('' @ backslash # ''?![^)]*'' @ [backslash] @ '')''"

definition matchWithNegativeLookahead ::
  "engine \<Rightarrow> re_cache \<Rightarrow> string \<Rightarrow> string \<Rightarrow> bool \<Rightarrow> bool option \<times> re_cache" where
  "matchWithNegativeLookahead re cache pattern value caseInsensitive =
     (let testValue = (if caseInsensitive then to_lower value else value) in
      case lookahead_excluded caseInsensitive testValue pattern of
        None \<Rightarrow> (None, cache)
      | Some True \<Rightarrow> (Some False, cache)
      | Some False \<Rightarrow>
          (case compileRegex re cache lookaheadCleaner of
             (None, cache) \<Rightarrow> (Some True, cache)
           | (Some cleanerRe, cache) \<Rightarrow>
               (let cleaned = replace_all ''(?i)'' '''' (re_replace cleanerRe pattern '''') in
                if cleaned = '''' \<or> cleaned = ''^.*$'' \<or> cleaned = ''.*'' then (Some True, cache)
                else (case compileRegex re cache
                             ((if caseInsensitive then ''(?i)'' else '''') @ cleaned) of
                        (None, cache) \<Rightarrow> (Some True, cache)
                      | (Some r, cache) \<Rightarrow> (Some (re_match r value), cache)))))"

subsection \<open>Negative lookbehind\<close>

text \<open>The extraction loop: the excluded texts, in order, and the pattern without its groups.\<close>

function lookbehind_split :: "bool \<Rightarrow> string list \<Rightarrow> string \<Rightarrow> (string list \<times> string) option" where
  "lookbehind_split ci exclusions remaining =
     (case index_sub remaining ''(?<!'' of
        None \<Rightarrow> Some (exclusions, remaining)
      | Some start \<Rightarrow>
          (case closing_paren remaining start of
             None \<Rightarrow> Some (exclusions, remaining)
           | Some e \<Rightarrow>
               (case go_slice remaining (start + 4) e of
                  None \<Rightarrow> None
                | Some exclusion \<Rightarrow>
                    (case (go_slice remaining 0 start, go_slice remaining (e + 1) (length remaining)) of
                       (Some before, Some rest) \<Rightarrow>
                         lookbehind_split ci
                           (exclusions @ [if ci then to_lower exclusion else exclusion])
                           (before @ rest)
                     | _ \<Rightarrow> None))))"
  by pat_completeness auto
termination
  by (relation "measure (\<lambda>(ci, xs, r). length r)")
     (auto dest!: go_slice_length go_slice_length [OF sym])

declare lookbehind_split.simps [simp del]

definition matchWithNegativeLookbehind ::
  "engine \<Rightarrow> re_cache \<Rightarrow> string \<Rightarrow> string \<Rightarrow> bool \<Rightarrow> bool option \<times> re_cache" where
  "matchWithNegativeLookbehind re cache pattern value caseInsensitive =
     (let testValue = (if caseInsensitive then to_lower value else value) in
      case lookbehind_split caseInsensitive [] pattern of
        None \<Rightarrow> (None, cache)
      | Some (exclusions, remaining) \<Rightarrow>
          if remaining = '''' \<or> remaining = ''$'' then (Some True, cache)
          else (case compileRegex re cache
                       ((if caseInsensitive then ''(?i)'' else '''') @ remaining) of
                  (None, cache) \<Rightarrow> (Some False, cache)
                | (Some r, cache) \<Rightarrow>
                    (case re_find r testValue of
                       None \<Rightarrow> (Some False, cache)
                     | Some (matchStart, _) \<Rightarrow>
                         (case go_slice testValue 0 matchStart of
                            None \<Rightarrow> (None, cache)
                          | Some textBefore \<Rightarrow>
                              (Some (list_all (\<lambda>excl. \<not> has_suffix textBefore excl) exclusions),
                               cache)))))"

subsection \<open>Matching a pattern\<close>

definition MatchRegexPattern ::
  "engine \<Rightarrow> re_cache \<Rightarrow> string \<Rightarrow> string \<Rightarrow> bool option \<times> re_cache" where
  "MatchRegexPattern re cache pattern value =
     (if length pattern > maxRegexLength then (Some False, cache)
      else if \<not> has_prefix pattern ''/'' then
        (case compileRegex re cache pattern of
           (None, cache) \<Rightarrow> (Some False, cache)
         | (Some r, cache) \<Rightarrow> (Some (re_match r value), cache))
      else
        (case last_index_byte (drop 1 pattern) (CHR ''/'') of
           None \<Rightarrow> (Some False, cache)
         | Some i \<Rightarrow>
             (let lastSlash = i + 1 in
              case (go_slice pattern 1 lastSlash, go_slice pattern (lastSlash + 1) (length pattern)) of
                (Some body, Some flags) \<Rightarrow>
                  (let caseInsensitive = contains flags ''i'';
                       regexBody = normalizeRegexForPrefix body
                   in if contains regexBody ''(?!'' then
                        matchWithNegativeLookahead re cache regexBody value caseInsensitive
                      else if contains regexBody ''(?<!'' then
                        matchWithNegativeLookbehind re cache regexBody value caseInsensitive
                      else (case compileRegex re cache
                                   ((if caseInsensitive then ''(?i)'' else '''') @ regexBody) of
                              (None, cache) \<Rightarrow> (Some False, cache)
                            | (Some r, cache) \<Rightarrow> (Some (re_match r value), cache)))
              | _ \<Rightarrow> (None, cache))))"

lemma index_sub_split:
  "index_sub s sub = Some i \<Longrightarrow> s = take i s @ sub @ drop (i + length sub) s"
  using index_sub_Some [of s sub i] take_drop_split [of sub i s]
  by (metis append_take_drop_id)

lemma lookahead_total: "lookahead_excluded ci v r \<noteq> None"
proof (induction ci v r rule: lookahead_excluded.induct)
  case (1 ci v r)
  show ?case
  proof (cases "index_sub r ''(?!''")
    case None
    then show ?thesis by (simp add: lookahead_excluded.simps [of ci v r])
  next
    case start: (Some start)
    show ?thesis
    proof (cases "closing_paren r start")
      case None
      with start show ?thesis by (simp add: lookahead_excluded.simps [of ci v r])
    next
      case e: (Some e)
      with closing_paren_group [OF start e] have "start + 3 \<le> e" "e < length r" by simp_all
      then have "go_slice r (start + 3) e = Some (take (e - (start + 3)) (drop (start + 3) r))"
        and "go_slice r (e + 1) (length r) = Some (drop (e + 1) r)"
        by (simp_all add: go_slice_def)
      with start e "1.IH" show ?thesis
        by (auto simp: lookahead_excluded.simps [of ci v r])
    qed
  qed
qed

lemma lookbehind_total: "lookbehind_split ci xs r \<noteq> None"
proof (induction ci xs r rule: lookbehind_split.induct)
  case (1 ci xs r)
  show ?case
  proof (cases "index_sub r ''(?<!''")
    case None
    then show ?thesis by (simp add: lookbehind_split.simps [of ci xs r])
  next
    case start: (Some start)
    show ?thesis
    proof (cases "closing_paren r start")
      case None
      with start show ?thesis by (simp add: lookbehind_split.simps [of ci xs r])
    next
      case e: (Some e)
      with closing_paren_group [OF start e] have "start + 4 \<le> e" "e < length r" by simp_all
      then have "go_slice r (start + 4) e = Some (take (e - (start + 4)) (drop (start + 4) r))"
        and "go_slice r 0 start = Some (take start r)"
        and "go_slice r (e + 1) (length r) = Some (drop (e + 1) r)"
        by (simp_all add: go_slice_def)
      with start e "1.IH" show ?thesis
        by (simp add: lookbehind_split.simps [of ci xs r])
    qed
  qed
qed

subsection \<open>Caching and panics do not matter\<close>

text \<open>
  \<open>answers re X b\<close>: the call \<open>X\<close> returns \<open>b\<close> (so it does not panic) and leaves a consistent
  cache. The rule for \<open>compileRegex\<close> replaces a cached compilation by the engine itself, so each
  matcher is shown to compute a function of the engine alone.
\<close>

definition answers :: "engine \<Rightarrow> 'a option \<times> re_cache \<Rightarrow> 'a \<Rightarrow> bool" where
  "answers re X b \<longleftrightarrow> fst X = Some b \<and> cache_ok re (snd X)"

lemma answers_pair [simp]: "answers re (Some a, c) b \<longleftrightarrow> a = b \<and> cache_ok re c"
  by (simp add: answers_def)

lemma answers_compile:
  assumes "cache_ok re c" and "\<And>c'. cache_ok re c' \<Longrightarrow> answers re (f (re p) c') b"
  shows "answers re (case compileRegex re c p of (x, c') \<Rightarrow> f x c') b"
  using compileRegex_result [OF assms(1), of p] compileRegex_cache [OF assms(1), of p] assms(2)
  by (cases "compileRegex re c p") simp

definition lookahead_spec :: "engine \<Rightarrow> string \<Rightarrow> string \<Rightarrow> bool \<Rightarrow> bool" where
  "lookahead_spec re pattern value ci \<longleftrightarrow>
     lookahead_excluded ci (if ci then to_lower value else value) pattern = Some False
     \<and> (case re lookaheadCleaner of
          None \<Rightarrow> True
        | Some cl \<Rightarrow>
            (let cleaned = replace_all ''(?i)'' '''' (re_replace cl pattern '''') in
             cleaned = '''' \<or> cleaned = ''^.*$'' \<or> cleaned = ''.*''
             \<or> (case re ((if ci then ''(?i)'' else '''') @ cleaned) of
                  None \<Rightarrow> True | Some r \<Rightarrow> re_match r value)))"

lemma lookahead_answers:
  assumes "cache_ok re c"
  shows "answers re (matchWithNegativeLookahead re c p v ci) (lookahead_spec re p v ci)"
proof -
  let ?t = "if ci then to_lower v else v"
  obtain x where x: "lookahead_excluded ci ?t p = Some x"
    using lookahead_total by blast
  show ?thesis
  proof (cases x)
    case True
    with x assms show ?thesis
      by (simp add: matchWithNegativeLookahead_def lookahead_spec_def)
  next
    case False
    with x show ?thesis
      unfolding matchWithNegativeLookahead_def lookahead_spec_def Let_def
      by (simp only: option.case bool.case) (rule answers_compile [OF assms],
        auto split: option.split intro!: answers_compile)
  qed
qed

definition lookbehind_spec :: "engine \<Rightarrow> string \<Rightarrow> string \<Rightarrow> bool \<Rightarrow> bool" where
  "lookbehind_spec re pattern value ci \<longleftrightarrow>
     (let testValue = (if ci then to_lower value else value);
          (exclusions, remaining) = the (lookbehind_split ci [] pattern)
      in remaining = '''' \<or> remaining = ''$''
         \<or> (case re ((if ci then ''(?i)'' else '''') @ remaining) of
              None \<Rightarrow> False
            | Some r \<Rightarrow>
                (case re_find r testValue of
                   None \<Rightarrow> False
                 | Some (i, _) \<Rightarrow> list_all (\<lambda>x. \<not> has_suffix (take i testValue) x) exclusions)))"

lemma lookbehind_answers:
  assumes "cache_ok re c" "engine_ok re"
  shows "answers re (matchWithNegativeLookbehind re c p v ci) (lookbehind_spec re p v ci)"
proof -
  obtain xs r where x: "lookbehind_split ci [] p = Some (xs, r)"
    using lookbehind_total by (metis not_None_eq surj_pair)
  have slice: "go_slice t 0 i = Some (take i t)"
    if "re q = Some e" "re_find e t = Some (i, j)" for q e t i j
    using that assms(2) unfolding engine_ok_def go_slice_def by fastforce
  show ?thesis
  proof (cases "r = '''' \<or> r = ''$''")
    case True
    with x assms(1) show ?thesis
      by (auto simp: matchWithNegativeLookbehind_def lookbehind_spec_def Let_def)
  next
    case False
    with x show ?thesis
      unfolding matchWithNegativeLookbehind_def lookbehind_spec_def Let_def
      by (simp only: option.case prod.case if_False option.sel) (rule answers_compile [OF assms(1)],
        auto simp: slice split: option.split)
  qed
qed

text \<open>What \<open>MatchRegexPattern\<close> answers, as a function of the engine only.\<close>

definition match_spec :: "engine \<Rightarrow> string \<Rightarrow> string \<Rightarrow> bool" where
  "match_spec re pattern value \<longleftrightarrow>
     length pattern \<le> maxRegexLength
     \<and> (let plain = (\<lambda>p. case re p of None \<Rightarrow> False | Some r \<Rightarrow> re_match r value) in
        if \<not> has_prefix pattern ''/'' then plain pattern
        else if CHR ''/'' \<notin> set (drop 1 pattern) then False
        else (let (body, ci) = parseRegexForPostgres pattern;
                  regexBody = normalizeRegexForPrefix body
              in if contains regexBody ''(?!'' then lookahead_spec re regexBody value ci
                 else if contains regexBody ''(?<!'' then lookbehind_spec re regexBody value ci
                 else plain ((if ci then ''(?i)'' else '''') @ regexBody)))"

lemma slash_slices:
  assumes "has_prefix pattern ''/''" "last_index_byte (drop 1 pattern) (CHR ''/'') = Some i"
  shows "go_slice pattern 1 (i + 1) = Some (fst (parseRegexForPostgres pattern))"
    and "go_slice pattern (i + 1 + 1) (length pattern) = Some (drop (i + 2) pattern)"
    and "snd (parseRegexForPostgres pattern) = contains (drop (i + 2) pattern) ''i''"
proof -
  from last_index_byte_Some [OF assms(2)] have "i + 2 \<le> length pattern"
    by (auto simp: less_diff_conv)
  with assms show "go_slice pattern 1 (i + 1) = Some (fst (parseRegexForPostgres pattern))"
    and "go_slice pattern (i + 1 + 1) (length pattern) = Some (drop (i + 2) pattern)"
    and "snd (parseRegexForPostgres pattern) = contains (drop (i + 2) pattern) ''i''"
    by (simp_all add: go_slice_def parseRegexForPostgres_def Let_def)
qed

lemma match_answers:
  assumes "cache_ok re c" "engine_ok re"
  shows "answers re (MatchRegexPattern re c p v) (match_spec re p v)"
proof -
  have plain: "answers re
      (case compileRegex re c q of (None, c) \<Rightarrow> (Some False, c) | (Some r, c) \<Rightarrow> (Some (re_match r v), c))
      (case re q of None \<Rightarrow> False | Some r \<Rightarrow> re_match r v)" for q
    by (rule answers_compile [OF assms(1)]) (simp split: option.split)
  show ?thesis
  proof (cases "length p \<le> maxRegexLength \<and> has_prefix p ''/''")
    case False
    with plain [of p] assms(1) show ?thesis
      by (auto simp: MatchRegexPattern_def match_spec_def Let_def)
  next
    case True
    show ?thesis
    proof (cases "last_index_byte (drop 1 p) (CHR ''/'')")
      case None
      then have "CHR ''/'' \<notin> set (drop 1 p)" by (simp add: last_index_byte_None)
      with True None assms(1) show ?thesis
        by (simp add: MatchRegexPattern_def match_spec_def Let_def)
    next
      case (Some i)
      then have mem: "CHR ''/'' \<in> set (drop 1 p)"
        using last_index_byte_None [of "drop 1 p" "CHR ''/''"] by auto
      obtain body ci where bc: "parseRegexForPostgres p = (body, ci)" by fastforce
      note sl = slash_slices [OF conjunct2 [OF True] Some, unfolded bc fst_conv snd_conv]
      note la = lookahead_answers [OF assms(1), of _ v]
        and lb = lookbehind_answers [OF assms, of _ v]
      from True mem have "MatchRegexPattern re c p v =
          (if contains (normalizeRegexForPrefix body) ''(?!''
           then matchWithNegativeLookahead re c (normalizeRegexForPrefix body) v ci
           else if contains (normalizeRegexForPrefix body) ''(?<!''
           then matchWithNegativeLookbehind re c (normalizeRegexForPrefix body) v ci
           else (case compileRegex re c ((if ci then ''(?i)'' else '''') @ normalizeRegexForPrefix body) of
                   (None, c) \<Rightarrow> (Some False, c) | (Some r, c) \<Rightarrow> (Some (re_match r v), c)))"
        unfolding MatchRegexPattern_def Let_def
        by (simp only: Some sl option.case prod.case) (simp add: sl(3) [symmetric])
      moreover from True mem have "match_spec re p v =
          (if contains (normalizeRegexForPrefix body) ''(?!''
           then lookahead_spec re (normalizeRegexForPrefix body) v ci
           else if contains (normalizeRegexForPrefix body) ''(?<!''
           then lookbehind_spec re (normalizeRegexForPrefix body) v ci
           else (case re ((if ci then ''(?i)'' else '''') @ normalizeRegexForPrefix body) of
                   None \<Rightarrow> False | Some r \<Rightarrow> re_match r v))"
        by (simp add: match_spec_def bc Let_def)
      ultimately show ?thesis
        using la lb plain by (simp only: split: if_split) blast
    qed
  qed
qed

lemma MatchRegexPattern_result:
  "cache_ok re c \<Longrightarrow> engine_ok re \<Longrightarrow> fst (MatchRegexPattern re c p v) = Some (match_spec re p v)"
  using match_answers by (simp add: answers_def)

lemma MatchRegexPattern_cache [inv_intros]:
  "cache_ok re c \<Longrightarrow> engine_ok re \<Longrightarrow> cache_ok re (snd (MatchRegexPattern re c p v))"
  using match_answers by (simp add: answers_def)

text \<open>The \<open>/PATTERN/flags\<close> notation is read back as written when the flags hold no slash.\<close>

lemma last_index_byte_append:
  "b \<notin> set v \<Longrightarrow> last_index_byte (u @ b # v) b = Some (length u)"
proof (induction u)
  case Nil
  then have "last_index_byte v b = None" by (simp add: last_index_byte_None)
  then show ?case by simp
qed simp

lemma parse_slashes:
  "CHR ''/'' \<notin> set flags \<Longrightarrow>
   parseRegexForPostgres (''/'' @ body @ ''/'' @ flags) = (body, contains flags ''i'')"
  by (simp add: parseRegexForPostgres_def last_index_byte_append)

subsection \<open>Selecting prices\<close>

definition normalizePurchaseOption :: "string \<Rightarrow> string" where
  "normalizePurchaseOption s = replace_all ''_'' '''' (replace_all ''-'' '''' (to_lower s))"

definition differs :: "string option \<Rightarrow> string \<Rightarrow> bool" where
  "differs wanted x = (case wanted of None \<Rightarrow> False | Some w \<Rightarrow> x \<noteq> w)"

text \<open>One turn of the loop of \<open>FilterPrices\<close>, its conditions in the order of the code.\<close>

definition price_kept ::
  "engine \<Rightarrow> re_cache \<Rightarrow> priceFilter \<Rightarrow> price \<Rightarrow> bool option \<times> re_cache" where
  "price_kept re cache f p =
     (if differs (map_option normalizePurchaseOption (pf_purchaseOption f))
           (normalizePurchaseOption (pr_purchaseOption p)) then (Some False, cache)
      else if differs (pf_unit f) (pr_unit p) then (Some False, cache)
      else if differs (pf_description f) (pr_description p) then (Some False, cache)
      else
        (case (case pf_descriptionRegex f of
                 None \<Rightarrow> (Some True, cache)
               | Some r \<Rightarrow> MatchRegexPattern re cache r (pr_description p)) of
           (None, cache) \<Rightarrow> (None, cache)
         | (Some False, cache) \<Rightarrow> (Some False, cache)
         | (Some True, cache) \<Rightarrow>
             (let pStart = (if pr_startUsage p = '''' then ''0'' else pr_startUsage p) in
              if differs (pf_startUsage f) pStart then (Some False, cache)
              else if differs (pf_endUsage f) (pr_endUsage p) then (Some False, cache)
              else if differs (pf_termLength f) (pr_termLength p) then (Some False, cache)
              else if differs (pf_termPurchaseOption f) (pr_termPurchaseOption p)
              then (Some False, cache)
              else if differs (pf_termOfferingClass f) (pr_termOfferingClass p)
              then (Some False, cache)
              else (Some True, cache))))"

fun filter_loop ::
  "engine \<Rightarrow> re_cache \<Rightarrow> priceFilter \<Rightarrow> price list \<Rightarrow> price list option \<times> re_cache" where
  "filter_loop re cache f [] = (Some [], cache)"
| "filter_loop re cache f (p # ps) =
     (case price_kept re cache f p of
        (None, cache) \<Rightarrow> (None, cache)
      | (Some keep, cache) \<Rightarrow>
          (case filter_loop re cache f ps of
             (None, cache) \<Rightarrow> (None, cache)
           | (Some rest, cache) \<Rightarrow> (Some (if keep then p # rest else rest), cache)))"

definition FilterPrices ::
  "engine \<Rightarrow> re_cache \<Rightarrow> price list \<Rightarrow> priceFilter option \<Rightarrow> price list option \<times> re_cache" where
  "FilterPrices re cache prices pf =
     (case pf of None \<Rightarrow> (Some prices, cache) | Some f \<Rightarrow> filter_loop re cache f prices)"

text \<open>What a filter asks of a price: every field it sets must agree.\<close>

definition price_selected :: "engine \<Rightarrow> priceFilter \<Rightarrow> price \<Rightarrow> bool" where
  "price_selected re f p \<longleftrightarrow>
     \<not> differs (map_option normalizePurchaseOption (pf_purchaseOption f))
         (normalizePurchaseOption (pr_purchaseOption p))
     \<and> \<not> differs (pf_unit f) (pr_unit p)
     \<and> \<not> differs (pf_description f) (pr_description p)
     \<and> (case pf_descriptionRegex f of None \<Rightarrow> True | Some r \<Rightarrow> match_spec re r (pr_description p))
     \<and> \<not> differs (pf_startUsage f) (if pr_startUsage p = '''' then ''0'' else pr_startUsage p)
     \<and> \<not> differs (pf_endUsage f) (pr_endUsage p)
     \<and> \<not> differs (pf_termLength f) (pr_termLength p)
     \<and> \<not> differs (pf_termPurchaseOption f) (pr_termPurchaseOption p)
     \<and> \<not> differs (pf_termOfferingClass f) (pr_termOfferingClass p)"

lemma price_kept_answers:
  assumes "cache_ok re c" "engine_ok re"
  shows "answers re (price_kept re c f p) (price_selected re f p)"
proof -
  let ?r = "case pf_descriptionRegex f of None \<Rightarrow> (Some True, c)
    | Some r \<Rightarrow> MatchRegexPattern re c r (pr_description p)"
  obtain b c' where r: "?r = (Some b, c')" "cache_ok re c'"
    "b = (case pf_descriptionRegex f of None \<Rightarrow> True | Some r \<Rightarrow> match_spec re r (pr_description p))"
    using match_answers [OF assms] assms(1)
    by (cases "pf_descriptionRegex f") (auto simp: answers_def, metis prod.collapse)
  show ?thesis
    unfolding price_kept_def price_selected_def r(1) r(3) [symmetric] Let_def
    using assms(1) r(2) by (cases b) (auto simp: Let_def)
qed

lemma filter_loop_answers:
  assumes "cache_ok re c" "engine_ok re"
  shows "answers re (filter_loop re c f ps) (filter (price_selected re f) ps)"
  using assms(1)
proof (induction ps arbitrary: c)
  case (Cons p ps)
  from price_kept_answers [OF Cons.prems assms(2), of f p] obtain c1 where
    1: "price_kept re c f p = (Some (price_selected re f p), c1)" "cache_ok re c1"
    unfolding answers_def by (metis prod.collapse)
  from Cons.IH [OF 1(2)] obtain c2 where
    "filter_loop re c1 f ps = (Some (filter (price_selected re f) ps), c2)" "cache_ok re c2"
    unfolding answers_def by (metis prod.collapse)
  with 1 show ?case by simp
qed simp

lemma FilterPrices_answers:
  assumes "cache_ok re c" "engine_ok re"
  shows "answers re (FilterPrices re c ps pf)
     (case pf of None \<Rightarrow> ps | Some f \<Rightarrow> filter (price_selected re f) ps)"
  using filter_loop_answers [OF assms] assms(1)
  by (auto simp: FilterPrices_def split: option.split)

subsection \<open>Exclusion patterns\<close>

text \<open>
  The text of a fixed pattern, \<open>\(\?![^)]*\)\<close>, is all the code compiles to strip the groups it has
  handled. \<open>remove_groups\<close> is what that pattern means: each leftmost \<open>(?!\<close> and the text up to the
  next closing parenthesis is deleted.
\<close>

function remove_groups :: "string \<Rightarrow> string" where
  "remove_groups [] = []"
| "remove_groups (c # s) =
     (if has_prefix (c # s) ''(?!'' \<and> CHR '')'' \<in> set s
      then remove_groups (drop 1 (dropWhile (\<lambda>x. x \<noteq> CHR '')'') s))
      else c # remove_groups s)"
  by pat_completeness auto
termination
  by (relation "measure length")
     (auto intro!: le_imp_less_Suc order_trans [OF diff_le_self] length_dropWhile_le)

definition cleaner_ok :: "engine \<Rightarrow> bool" where
  "cleaner_ok re \<longleftrightarrow>
     (\<exists>cl. re lookaheadCleaner = Some cl \<and> (\<forall>s. re_replace cl s '''' = remove_groups s))"

definition plain_alt :: "string \<Rightarrow> bool" where
  "plain_alt a \<longleftrightarrow> a \<noteq> '''' \<and> trim_space a = a \<and> set a \<inter> set ''()|$/?'' = {}"

definition exclusion_pattern :: "string list \<Rightarrow> string" where
  "exclusion_pattern alts = ''/^(?!.*'' @ join ''|'' alts @ '').*$/''"

lemma set_join: "set (join [sep] xs) \<subseteq> insert sep (\<Union> (set ` set xs))"
  by (induction xs rule: join.induct [of "\<lambda>_ xs. P xs" for P]) auto

lemma join_plain:
  assumes "list_all plain_alt alts"
  shows "set (join ''|'' alts) \<inter> set ''()$/?'' = {}"
proof -
  have "set (join ''|'' alts) \<subseteq> insert (CHR ''|'') (\<Union> (set ` set alts))" by (rule set_join)
  with assms show ?thesis by (fastforce simp: list_all_iff plain_alt_def)
qed

lemma scan_close_plain:
  "CHR ''('' \<notin> set q \<Longrightarrow> CHR '')'' \<notin> set q \<Longrightarrow> scan_close i d (q @ t) = scan_close (i + length q) d t"
  by (induction q arbitrary: i) auto

lemma no_trim:
  assumes "b \<notin> set s"
  shows "trim_prefix s [b] = s" "trim_suffix s [b] = s"
proof -
  have "\<not> has_prefix s [b]" using assms by (auto simp: has_prefix_iff)
  then show "trim_prefix s [b] = s" by (simp add: trim_prefix_def)
  have "\<not> has_suffix s [b]" using assms by (auto simp: has_suffix_iff)
  then show "trim_suffix s [b] = s" by (simp add: trim_suffix_def)
qed

lemma exclusion_alternatives_plain:
  assumes "list_all plain_alt alts" "alts \<noteq> []"
  shows "exclusion_alternatives False (''.*'' @ join ''|'' alts) = alts"
proof -
  note j = join_plain [OF assms(1)]
  have 1: "trim_prefix (''.*'' @ join ''|'' alts) ''.*'' = join ''|'' alts"
    by (rule trim_prefix_append)
  have "list_all (\<lambda>w. CHR ''|'' \<notin> set w) alts"
    using assms(1) by (auto simp: list_all_iff plain_alt_def)
  then have 2: "split_on CHR ''|'' (join ''|'' alts) = alts"
    by (rule split_on_join [OF assms(2)])
  have 3: "map trim_space alts = alts"
    using assms(1) by (auto simp: list_all_iff plain_alt_def intro: map_idI)
  from j show ?thesis
    by (simp only: exclusion_alternatives_def Let_def 1 if_False)
       (simp add: no_trim 2 3)
qed

lemma lookahead_excluded_plain:
  assumes "list_all plain_alt alts" "alts \<noteq> []"
  shows "lookahead_excluded False v (''^(?!.*'' @ join ''|'' alts @ '').*$'')
     = Some (list_ex (contains v) alts)"
proof -
  let ?J = "join ''|'' alts" and ?s = "''^(?!.*'' @ join ''|'' alts @ '').*$''"
  note j = join_plain [OF assms(1)]
  have i: "index_sub ?s ''(?!'' = Some 1" by simp
  have c: "closing_paren ?s 1 = Some (6 + length ?J)"
    using j by (simp add: closing_paren_def scan_close_plain)
  have g: "go_slice ?s (1 + 3) (6 + length ?J) = Some (''.*'' @ ?J)"
    "go_slice ?s (6 + length ?J + 1) (length ?s) = Some ''.*$''"
    by (simp_all add: go_slice_def numeral_eq_Suc)
  have r: "lookahead_excluded False v ''.*$'' = Some False"
    by (simp add: lookahead_excluded.simps)
  have ex: "list_ex (\<lambda>alt. alt \<noteq> '''' \<and> contains v alt) alts = list_ex (contains v) alts"
    using assms(1) by (induction alts) (auto simp: plain_alt_def)
  show ?thesis
    by (subst lookahead_excluded.simps)
       (simp only: i c g r option.case exclusion_alternatives_plain [OF assms] ex, simp)
qed

lemma remove_groups_plain:
  assumes "list_all plain_alt alts"
  shows "remove_groups (''^(?!.*'' @ join ''|'' alts @ '').*$'') = ''^.*$''"
proof -
  have "dropWhile (\<lambda>x. x \<noteq> CHR '')'') (join ''|'' alts @ '').*$'') = '').*$''"
    using join_plain [OF assms] by (subst dropWhile_append2) auto
  then show ?thesis by simp
qed

subsection \<open>Properties\<close>

text \<open>
  C15: \<open>MatchRegexPattern\<close> terminates without a panic on every pattern and value, however its
  parentheses are balanced, and its answer does not depend on what the pattern cache holds: for
  any two consistent caches (at most 1024 entries, each the engine's own compilation) it returns
  the same boolean, and it leaves the cache consistent and bounded.
\<close>

theorem match_pattern_total:
  assumes "engine_ok re" and "cache_ok re c" and "cache_ok re c'"
  shows "\<exists>b d d'. MatchRegexPattern re c p v = (Some b, d) \<and> MatchRegexPattern re c' p v = (Some b, d')
           \<and> cache_ok re d \<and> length d \<le> maxRegexCacheSize"
proof -
  have "answers re (MatchRegexPattern re c p v) (match_spec re p v)"
    and "answers re (MatchRegexPattern re c' p v) (match_spec re p v)"
    using assms by (simp_all add: match_answers)
  moreover have "cache_ok re d \<Longrightarrow> length d \<le> maxRegexCacheSize" for d
    by (simp add: cache_ok_def)
  ultimately show ?thesis unfolding answers_def by (metis prod.collapse)
qed

definition literal_engine :: engine where
  "literal_engine p =
     Some \<lparr>re_match = (\<lambda>v. contains v p),
           re_find = (\<lambda>v. map_option (\<lambda>i. (i, i + length p)) (index_sub v p)),
           re_replace = (\<lambda>s r. remove_groups s)\<rparr>"

lemma literal_engine_ok: "engine_ok literal_engine"
  by (auto simp: engine_ok_def literal_engine_def dest: index_sub_Some)

lemma literal_cleaner_ok: "cleaner_ok literal_engine"
  by (simp add: cleaner_ok_def literal_engine_def)

lemma match_pattern_total_witness:
  "\<exists>b d d'. MatchRegexPattern literal_engine [] ''/a(?!b(c/'' ''abc'' = (Some b, d)
     \<and> MatchRegexPattern literal_engine [] ''/a(?!b(c/'' ''abc'' = (Some b, d')
     \<and> cache_ok literal_engine d \<and> length d \<le> maxRegexCacheSize"
  by (rule match_pattern_total [OF literal_engine_ok cache_ok_empty cache_ok_empty])

text \<open>
  C16: On the exclusion patterns the clients send, \<open>/^(?!.*A|B|...).*$/\<close>, the simulated negative
  lookahead means what it says: a value matches exactly when it contains none of the listed texts.
\<close>

theorem exclusion_pattern_meaning:
  assumes "engine_ok re" "cleaner_ok re" "cache_ok re c"
    and "alts \<noteq> []" "list_all plain_alt alts" "length (exclusion_pattern alts) \<le> maxRegexLength"
  shows "fst (MatchRegexPattern re c (exclusion_pattern alts) v)
           = Some (\<not> (\<exists>a \<in> set alts. contains v a))"
proof -
  let ?b = "''^(?!.*'' @ join ''|'' alts @ '').*$''"
  have "parseRegexForPostgres (exclusion_pattern alts) = (?b, False)"
    using parse_slashes [of "''''" ?b] by (simp add: exclusion_pattern_def contains_def)
  moreover have "normalizeRegexForPrefix ?b = ?b" by (simp add: normalizeRegexForPrefix_def)
  moreover have "contains ?b ''(?!''" by (simp add: contains_def)
  moreover have "lookahead_spec re ?b v False \<longleftrightarrow> \<not> list_ex (contains v) alts"
    using assms(2) lookahead_excluded_plain [OF assms(5,4)] remove_groups_plain [OF assms(5)]
    by (auto simp: lookahead_spec_def cleaner_ok_def Let_def replace_all.simps)
  ultimately have "match_spec re (exclusion_pattern alts) v \<longleftrightarrow> \<not> list_ex (contains v) alts"
    using assms(6) by (simp add: match_spec_def exclusion_pattern_def)
  then show ?thesis
    using MatchRegexPattern_result [OF assms(3,1)] by (simp add: list_ex_iff)
qed

lemma exclusion_pattern_meaning_witness:
  "fst (MatchRegexPattern literal_engine [] (exclusion_pattern [''Spot'', ''Dedicated'']) ''Linux Spot'')
     = Some (\<not> (\<exists>a \<in> set [''Spot'', ''Dedicated'']. contains ''Linux Spot'' a))"
  by (rule exclusion_pattern_meaning [OF literal_engine_ok literal_cleaner_ok cache_ok_empty])
     code_simp+

text \<open>
  \<open>FilterPrices\<close> is selection: without a filter the prices come back unchanged, and with one
  the result is exactly the prices on which every field that the filter sets agrees, in their
  original order, whatever the state of the regex cache.
\<close>

theorem FilterPrices_selects:
  assumes "engine_ok re" "cache_ok re c"
  shows "fst (FilterPrices re c ps pf)
           = Some (case pf of None \<Rightarrow> ps | Some f \<Rightarrow> filter (price_selected re f) ps)
         \<and> cache_ok re (snd (FilterPrices re c ps pf))"
  using FilterPrices_answers [OF assms(2,1)] by (simp add: answers_def)

definition example_price :: price where
  "example_price = \<lparr>pr_hash = ''h'', pr_purchaseOption = ''on_demand'', pr_unit = ''Hrs'',
     pr_USD = ''0.1'', pr_startUsage = '''', pr_endUsage = '''', pr_description = ''m5 Linux'',
     pr_termLength = '''', pr_termPurchaseOption = '''', pr_termOfferingClass = ''''\<rparr>"

lemma FilterPrices_selects_witness:
  "fst (FilterPrices literal_engine []
         [example_price, example_price\<lparr>pr_purchaseOption := ''reserved''\<rparr>]
         (Some (empty_priceFilter\<lparr>pf_purchaseOption := Some ''OnDemand'', pf_startUsage := Some ''0''\<rparr>)))
     = Some [example_price]"
  by (subst FilterPrices_selects [OF literal_engine_ok cache_ok_empty, THEN conjunct1]) code_simp

end
