(* ===== verification/Rate_Limit.thy ===== *)
theory Rate_Limit
  imports Regex_Filter
begin

text \<open>
  The per-IP rate limiter of \<^verbatim>\<open>internal/server/server.go\<close>: \<open>getLimiter\<close> and \<open>evictIdleLimiters\<close> on
  the map \<open>rateLimiters\<close> and the list \<open>rateLRU\<close> (front first), and the middleware's decision. The
  token bucket is \<^verbatim>\<open>golang.org/x/time/rate\<close>: \<open>new_bucket rate burst\<close> and \<open>allow b now\<close> are
  parameters. The map holds pointers into the list; an element is identified by its IP, which
  \<open>lru_ok\<close> shows to be unique in both.

  \<open>bounded_cache\<close> is the contract this cache shares with the cache of compiled patterns of
  \<^verbatim>\<open>Regex_Filter\<close>; it is interpreted on both.
\<close>

locale bounded_cache =
  fixes get :: "'k \<Rightarrow> 's \<Rightarrow> 'v \<times> 's" and ok :: "'s \<Rightarrow> bool" and count :: "'s \<Rightarrow> nat" and cap :: nat
  assumes get_ok: "ok s \<Longrightarrow> ok (snd (get k s))"
    and ok_count: "ok s \<Longrightarrow> count s \<le> cap"
begin

lemma always_bounded:
  assumes "ok s"
  shows "ok (fold (\<lambda>k s. snd (get k s)) ks s) \<and> count (fold (\<lambda>k s. snd (get k s)) ks s) \<le> cap"
  using assms by (induction ks arbitrary: s) (simp_all add: ok_count get_ok)

end

interpretation rc: bounded_cache "\<lambda>p c. compileRegex re c p" "cache_ok re" length maxRegexCacheSize for re
  by unfold_locales (simp_all add: compileRegex_cache, simp add: cache_ok_def)

subsection \<open>The code\<close>

record 'b ipLimiter =
  il_ip :: string
  il_limiter :: 'b
  il_lastUse :: int

record 'b limiters =
  rateLimiters :: "string list"
  rateLRU :: "'b ipLimiter list"

definition maxRateLimiters :: nat where "maxRateLimiters = 10000"

definition no_limiters :: "'b limiters" where
  "no_limiters = \<lparr>rateLimiters = [], rateLRU = []\<rparr>"

definition burst_of :: "int \<Rightarrow> int" where
  "burst_of perSec = (let burst = perSec * 2 in if burst < 1 then 1 else burst)"

text \<open>\<open>MoveToFront\<close> of the element of an IP after setting its \<open>lastUse\<close>.\<close>

definition move_to_front :: "string \<Rightarrow> int \<Rightarrow> 'b ipLimiter list \<Rightarrow> 'b ipLimiter list" where
  "move_to_front ip now l =
     (case find (\<lambda>e. il_ip e = ip) l of
        None \<Rightarrow> l
      | Some e \<Rightarrow> e\<lparr>il_lastUse := now\<rparr> # filter (\<lambda>e. il_ip e \<noteq> ip) l)"

definition evict_back :: "'b limiters \<Rightarrow> 'b limiters" where
  "evict_back s =
     (if length (rateLRU s) \<ge> maxRateLimiters \<and> rateLRU s \<noteq> []
      then \<lparr>rateLimiters = remove1 (il_ip (last (rateLRU s))) (rateLimiters s),
            rateLRU = butlast (rateLRU s)\<rparr>
      else s)"

definition getLimiter ::
  "(int \<Rightarrow> int \<Rightarrow> 'b) \<Rightarrow> int \<Rightarrow> int \<Rightarrow> string \<Rightarrow> 'b limiters \<Rightarrow> 'b option \<times> 'b limiters" where
  "getLimiter new_bucket perSec now ip s =
     (if ip \<in> set (rateLimiters s)
      then (map_option il_limiter (find (\<lambda>e. il_ip e = ip) (rateLRU s)),
            s\<lparr>rateLRU := move_to_front ip now (rateLRU s)\<rparr>)
      else
        (let s = evict_back s;
             il = \<lparr>il_ip = ip, il_limiter = new_bucket perSec (burst_of perSec), il_lastUse = now\<rparr>
         in (Some (il_limiter il),
             \<lparr>rateLimiters = ip # rateLimiters s, rateLRU = il # rateLRU s\<rparr>)))"

text \<open>The loop of \<open>evictIdleLimiters\<close> from the back; it returns at the first recent element.\<close>

fun evict_idle :: "int \<Rightarrow> 'b ipLimiter list \<Rightarrow> string list \<Rightarrow> 'b ipLimiter list \<times> string list" where
  "evict_idle cutoff [] keys = ([], keys)"
| "evict_idle cutoff (e # rev_rest) keys =
     (if il_lastUse e > cutoff then (e # rev_rest, keys)
      else evict_idle cutoff rev_rest (remove1 (il_ip e) keys))"

definition evictIdleLimiters :: "int \<Rightarrow> int \<Rightarrow> 'b limiters \<Rightarrow> 'b limiters" where
  "evictIdleLimiters now maxAge s =
     (case evict_idle (now - maxAge) (rev (rateLRU s)) (rateLimiters s) of
        (l, keys) \<Rightarrow> \<lparr>rateLimiters = keys, rateLRU = rev l\<rparr>)"

text \<open>\<open>Allow\<close> changes the bucket in place; an evicted bucket is no longer in the list.\<close>

definition allow_bucket ::
  "('b \<Rightarrow> int \<Rightarrow> bool \<times> 'b) \<Rightarrow> int \<Rightarrow> string \<Rightarrow> 'b \<Rightarrow> 'b limiters \<Rightarrow> bool \<times> 'b limiters" where
  "allow_bucket allow now ip b s =
     (case allow b now of (ok, b') \<Rightarrow>
        (ok, s\<lparr>rateLRU := map (\<lambda>e. if il_ip e = ip then e\<lparr>il_limiter := b'\<rparr> else e) (rateLRU s)\<rparr>))"

text \<open>The decision of \<open>rateLimitMiddleware\<close>: whether the request goes on.\<close>

definition rate_admit ::
  "(int \<Rightarrow> int \<Rightarrow> 'b) \<Rightarrow> ('b \<Rightarrow> int \<Rightarrow> bool \<times> 'b) \<Rightarrow> int \<Rightarrow> int \<Rightarrow> string \<Rightarrow> 'b limiters \<Rightarrow> bool \<times> 'b limiters" where
  "rate_admit new_bucket allow perSec now ip s =
     (if perSec \<le> 0 then (True, s)
      else (case getLimiter new_bucket perSec now ip s of
              (Some b, s) \<Rightarrow> allow_bucket allow now ip b s
            | (None, s) \<Rightarrow> (True, s)))"

subsection \<open>The invariant\<close>

definition lru_ok :: "'b limiters \<Rightarrow> bool" where
  "lru_ok s \<longleftrightarrow>
     distinct (rateLimiters s) \<and> distinct (map il_ip (rateLRU s))
     \<and> set (rateLimiters s) = il_ip ` set (rateLRU s) \<and> length (rateLRU s) \<le> maxRateLimiters"

lemma maxRateLimiters_pos: "0 < maxRateLimiters"
  by (simp add: maxRateLimiters_def)

lemma filter_key_one:
  "distinct (map key l) \<Longrightarrow> e \<in> set l \<Longrightarrow> key e = k \<Longrightarrow> length (filter (\<lambda>e. key e = k) l) = 1"
  by (induction l) (auto simp: filter_empty_conv image_iff)

lemma find_key:
  "k \<in> key ` set l \<Longrightarrow> \<exists>e. find (\<lambda>e. key e = k) l = Some e \<and> e \<in> set l \<and> key e = k"
  by (induction l) auto

lemma move_to_front_ips:
  assumes "distinct (map il_ip l)" "ip \<in> il_ip ` set l"
  shows "il_ip ` set (move_to_front ip now l) = il_ip ` set l"
    "distinct (map il_ip (move_to_front ip now l))" "length (move_to_front ip now l) = length l"
proof -
  obtain e where e: "find (\<lambda>e. il_ip e = ip) l = Some e" "e \<in> set l" "il_ip e = ip"
    using find_key [OF assms(2)] by blast
  show "il_ip ` set (move_to_front ip now l) = il_ip ` set l"
    using e by (auto simp: move_to_front_def)
  show "distinct (map il_ip (move_to_front ip now l))"
    using e assms(1) by (auto simp: move_to_front_def distinct_map_filter)
  have "length (filter (\<lambda>e. il_ip e = ip) l) = 1" by (rule filter_key_one [OF assms(1) e(2,3)])
  then have "length (filter (\<lambda>e. il_ip e \<noteq> ip) l) = length l - 1"
    using sum_length_filter_compl [of "\<lambda>e. il_ip e = ip" l] by simp
  then show "length (move_to_front ip now l) = length l"
    using e length_pos_if_in_set [OF e(2)] by (simp add: move_to_front_def)
qed

lemma evict_back_ok:
  assumes "lru_ok s"
  shows "lru_ok (evict_back s)" "length (rateLRU (evict_back s)) < maxRateLimiters"
    "set (rateLimiters (evict_back s)) \<subseteq> set (rateLimiters s)"
proof -
  show "lru_ok (evict_back s)"
  proof (cases "rateLRU s" rule: rev_cases)
    case (snoc l e)
    with assms show ?thesis
      by (auto simp: lru_ok_def evict_back_def)
  qed (use assms in \<open>simp add: evict_back_def\<close>)
  show "length (rateLRU (evict_back s)) < maxRateLimiters"
    using assms maxRateLimiters_pos by (cases "rateLRU s = []") (auto simp: evict_back_def lru_ok_def)
  show "set (rateLimiters (evict_back s)) \<subseteq> set (rateLimiters s)"
    using set_remove1_subset [of "il_ip (last (rateLRU s))" "rateLimiters s"] by (simp add: evict_back_def)
qed

lemma getLimiter_ok:
  assumes "lru_ok s"
  shows "lru_ok (snd (getLimiter new_bucket perSec now ip s))"
proof (cases "ip \<in> set (rateLimiters s)")
  case True
  with assms move_to_front_ips [of "rateLRU s" ip now] show ?thesis
    by (auto simp: lru_ok_def getLimiter_def)
next
  case False
  then have "ip \<notin> set (rateLimiters (evict_back s))"
    using evict_back_ok(3) [OF assms] by blast
  with False evict_back_ok(1,2) [OF assms] show ?thesis
    by (auto simp: lru_ok_def getLimiter_def Let_def)
qed

interpretation lc: bounded_cache "\<lambda>(ip, now). getLimiter new_bucket perSec now ip" lru_ok
    "\<lambda>s. length (rateLRU s)" maxRateLimiters for new_bucket perSec
  by unfold_locales (auto simp: getLimiter_ok, auto simp: lru_ok_def)

lemma getLimiter_Some:
  "lru_ok s \<Longrightarrow> fst (getLimiter new_bucket perSec now ip s) \<noteq> None"
  by (auto simp: getLimiter_def lru_ok_def Let_def find_None simp del: not_None_eq)

lemma allow_bucket_ok: "lru_ok s \<Longrightarrow> lru_ok (snd (allow_bucket allow now ip b s))"
proof -
  let ?f = "\<lambda>b' e. if il_ip e = ip then e\<lparr>il_limiter := b'\<rparr> else e"
  have m: "map il_ip (map (?f b') l) = map il_ip l" for b' l by simp
  then have i: "il_ip ` set (map (?f b') l) = il_ip ` set l" for b' l by (metis set_map)
  assume "lru_ok s"
  then show ?thesis
    unfolding allow_bucket_def lru_ok_def by (simp add: split_beta m i del: map_map set_map)
qed

lemma evict_idle_suffix:
  "\<exists>k. fst (evict_idle c l keys) = drop k l \<and> (\<forall>e \<in> set (take k l). il_lastUse e \<le> c)
     \<and> (\<forall>e. fst (evict_idle c l keys) \<noteq> [] \<longrightarrow> il_lastUse (hd (fst (evict_idle c l keys))) > c)
     \<and> snd (evict_idle c l keys) = fold remove1 (map il_ip (take k l)) keys"
proof (induction c l keys rule: evict_idle.induct)
  case (2 c e l keys)
  show ?case
  proof (cases "il_lastUse e > c")
    case True
    then show ?thesis by (intro exI [of _ 0]) simp
  next
    case False
    with 2 obtain k where k: "fst (evict_idle c l (remove1 (il_ip e) keys)) = drop k l"
      "\<forall>e \<in> set (take k l). il_lastUse e \<le> c"
      "fst (evict_idle c l (remove1 (il_ip e) keys)) \<noteq> []
        \<longrightarrow> il_lastUse (hd (fst (evict_idle c l (remove1 (il_ip e) keys)))) > c"
      "snd (evict_idle c l (remove1 (il_ip e) keys)) = fold remove1 (map il_ip (take k l)) (remove1 (il_ip e) keys)"
      by blast
    with False show ?thesis by (intro exI [of _ "Suc k"]) auto
  qed
qed simp

subsection \<open>Clients do not disturb each other\<close>

text \<open>\<open>holds_bucket S ip b s\<close>: \<open>ip\<close> has bucket \<open>b\<close>, and only clients of \<open>S\<close> are before it.\<close>

definition holds_bucket :: "string set \<Rightarrow> string \<Rightarrow> 'b \<Rightarrow> 'b limiters \<Rightarrow> bool" where
  "holds_bucket S ip b s \<longleftrightarrow> lru_ok s \<and>
     (\<exists>pre e post. rateLRU s = pre @ e # post \<and> il_ip e = ip \<and> il_limiter e = b \<and> il_ip ` set pre \<subseteq> S)"

lemma holds_bucket_get:
  assumes "holds_bucket S ip b s" "jp \<in> S" "ip \<notin> S" "finite S" "card S < maxRateLimiters"
  shows "holds_bucket S ip b (snd (getLimiter new_bucket perSec now jp s))"
proof -
  obtain pre e post where l: "rateLRU s = pre @ e # post" "il_ip e = ip" "il_limiter e = b"
      "il_ip ` set pre \<subseteq> S" and ok: "lru_ok s"
    using assms(1) by (auto simp: holds_bucket_def)
  have ne: "jp \<noteq> ip" using assms(2,3) by blast
  show ?thesis
  proof (cases "jp \<in> set (rateLimiters s)")
    case True
    then have m: "jp \<in> il_ip ` set (rateLRU s)" using ok by (simp add: lru_ok_def)
    obtain x where x: "find (\<lambda>e. il_ip e = jp) (rateLRU s) = Some x" "il_ip x = jp"
      using find_key [OF m] by blast
    let ?P = "filter (\<lambda>e. il_ip e \<noteq> jp)"
    have "move_to_front jp now (rateLRU s) = (x\<lparr>il_lastUse := now\<rparr> # ?P pre) @ e # ?P post"
      unfolding move_to_front_def x(1) using l(1,2) ne by simp
    moreover have "il_ip ` set (x\<lparr>il_lastUse := now\<rparr> # ?P pre) \<subseteq> S"
      using l(4) x(2) assms(2) by auto
    ultimately show ?thesis
      using getLimiter_ok [OF ok, of new_bucket perSec now jp] True l(2,3)
      unfolding holds_bucket_def
      by (intro conjI exI [of _ "x\<lparr>il_lastUse := now\<rparr> # ?P pre"] exI [of _ e] exI [of _ "?P post"])
        (simp_all add: getLimiter_def)
  next
    case False
    have "post \<noteq> [] \<or> length (rateLRU s) < maxRateLimiters"
    proof (rule ccontr)
      assume c: "\<not> ?thesis"
      have d: "distinct (map il_ip pre)" "jp \<notin> il_ip ` set pre"
        using ok l(1) False by (auto simp: lru_ok_def)
      then have "length pre = card (il_ip ` set pre)"
        by (metis distinct_card length_map set_map)
      also have "\<dots> \<le> card (S - {jp})"
        by (rule card_mono) (use assms(4) l(4) d(2) in auto)
      also have "\<dots> < card S" using assms(2,4) by (intro card_Diff1_less)
      finally show False using c l(1) assms(5) by simp
    qed
    then have "\<exists>post'. rateLRU (evict_back s) = pre @ e # post'"
      by (cases post rule: rev_cases) (auto simp: evict_back_def l(1) butlast_append)
    then obtain post' where p: "rateLRU (evict_back s) = pre @ e # post'" ..
    have "\<exists>n. il_ip n = jp \<and> rateLRU (snd (getLimiter new_bucket perSec now jp s)) = (n # pre) @ e # post'"
      using False p by (simp add: getLimiter_def Let_def)
    then obtain n where "il_ip n = jp" "rateLRU (snd (getLimiter new_bucket perSec now jp s)) = (n # pre) @ e # post'"
      by blast
    moreover have "il_ip ` set (n # pre) \<subseteq> S" using calculation(1) l(4) assms(2) by auto
    ultimately show ?thesis
      using getLimiter_ok [OF ok] l(2,3) unfolding holds_bucket_def by blast
  qed
qed

lemma holds_bucket_allow:
  assumes "holds_bucket S ip b s" "jp \<noteq> ip"
  shows "holds_bucket S ip b (snd (allow_bucket allow now jp b' s))"
proof -
  obtain pre e post where l: "rateLRU s = pre @ e # post" "il_ip e = ip" "il_limiter e = b"
      "il_ip ` set pre \<subseteq> S" and ok: "lru_ok s"
    using assms(1) by (auto simp: holds_bucket_def)
  let ?f = "\<lambda>x. if il_ip x = jp then x\<lparr>il_limiter := snd (allow b' now)\<rparr> else x"
  have "rateLRU (snd (allow_bucket allow now jp b' s)) = map ?f pre @ e # map ?f post"
    using l(1,2) assms(2) by (simp add: allow_bucket_def split_beta)
  moreover have "il_ip ` set (map ?f pre) \<subseteq> S" using l(4) by auto
  ultimately show ?thesis
    using allow_bucket_ok [OF ok] l(2,3) unfolding holds_bucket_def by blast
qed

lemma holds_bucket_admit:
  assumes "holds_bucket S ip b s" "jp \<in> S" "ip \<notin> S" "finite S" "card S < maxRateLimiters"
  shows "holds_bucket S ip b (snd (rate_admit new_bucket allow perSec now jp s))"
proof -
  obtain x s1 where g: "getLimiter new_bucket perSec now jp s = (x, s1)" by fastforce
  have "holds_bucket S ip b s1" using holds_bucket_get [OF assms] g by (metis snd_conv)
  with holds_bucket_allow [of S ip b s1 jp allow now] assms g show ?thesis
    by (auto simp: rate_admit_def split: option.split)
qed

definition bucket_of :: "string \<Rightarrow> 'b limiters \<Rightarrow> 'b option" where
  "bucket_of ip s = map_option il_limiter (find (\<lambda>e. il_ip e = ip) (rateLRU s))"

lemma holds_bucket_of: "holds_bucket S ip b s \<Longrightarrow> ip \<notin> S \<Longrightarrow> bucket_of ip s = Some b"
proof -
  assume h: "holds_bucket S ip b s" "ip \<notin> S"
  from h(1) obtain pre e post where l: "rateLRU s = pre @ e # post" "il_ip e = ip" "il_limiter e = b"
      "il_ip ` set pre \<subseteq> S"
    unfolding holds_bucket_def by blast
  with h(2) have "find (\<lambda>e. il_ip e = ip) pre = None" by (auto simp: find_None)
  then have "find (\<lambda>e. il_ip e = ip) (pre @ e # post) = Some e"
    using l(2) by (induction pre) (auto split: if_splits)
  with l show ?thesis by (simp add: bucket_of_def)
qed

lemma getLimiter_front:
  assumes "lru_ok s"
  shows "\<exists>e post. rateLRU (snd (getLimiter new_bucket perSec now ip s)) = e # post \<and> il_ip e = ip
    \<and> fst (getLimiter new_bucket perSec now ip s) = Some (il_limiter e)"
proof (cases "ip \<in> set (rateLimiters s)")
  case True
  then have m: "ip \<in> il_ip ` set (rateLRU s)" using assms by (simp add: lru_ok_def)
  obtain x where "find (\<lambda>e. il_ip e = ip) (rateLRU s) = Some x" "il_ip x = ip"
    using find_key [OF m] by blast
  with True show ?thesis by (simp add: getLimiter_def move_to_front_def)
qed (simp add: getLimiter_def Let_def)

lemma rate_admit_front:
  assumes "lru_ok s" "0 < perSec"
  shows "\<exists>b. holds_bucket S ip b (snd (rate_admit new_bucket allow perSec now ip s))"
proof -
  obtain x s1 where g: "getLimiter new_bucket perSec now ip s = (x, s1)" by fastforce
  obtain e post where e: "rateLRU s1 = e # post" "il_ip e = ip" "x = Some (il_limiter e)"
    using getLimiter_front [OF assms(1), of new_bucket perSec now ip] g by auto
  have ok: "lru_ok s1" using getLimiter_ok [OF assms(1)] g by (metis snd_conv)
  let ?r = "snd (allow_bucket allow now ip (il_limiter e) s1)"
  have "rateLRU ?r = [] @ (e\<lparr>il_limiter := snd (allow (il_limiter e) now)\<rparr>) #
      map (\<lambda>x. if il_ip x = ip then x\<lparr>il_limiter := snd (allow (il_limiter e) now)\<rparr> else x) post"
    using e by (simp add: allow_bucket_def split_beta)
  then have "holds_bucket S ip (snd (allow (il_limiter e) now)) ?r"
    using allow_bucket_ok [OF ok] e(2) unfolding holds_bucket_def by fastforce
  moreover have "snd (rate_admit new_bucket allow perSec now ip s) = ?r"
    using assms(2) g e(3) by (simp add: rate_admit_def)
  ultimately show ?thesis by auto
qed

text \<open>
  C22: one client cannot reset or spend another's bucket. After a request of \<open>ip\<close>, any number of
  requests by fewer than 10000 other clients, at any times, leaves the token bucket of \<open>ip\<close> in the
  cache, exactly as the request left it; the cache never holds more than 10000 buckets, one for each
  IP.
\<close>

theorem bucket_survives_other_clients:
  assumes "lru_ok s" "0 < perSec" "finite S" "card S < 10000" "ip \<notin> S" "\<forall>(jp, t) \<in> set reqs. jp \<in> S"
  shows "let s1 = snd (rate_admit new_bucket allow perSec now ip s);
             s2 = fold (\<lambda>(jp, t) s. snd (rate_admit new_bucket allow perSec t jp s)) reqs s1
         in bucket_of ip s2 = bucket_of ip s1 \<and> bucket_of ip s1 \<noteq> None
            \<and> length (rateLRU s2) \<le> 10000 \<and> distinct (map il_ip (rateLRU s2))"
proof -
  let ?s1 = "snd (rate_admit new_bucket allow perSec now ip s)"
  let ?step = "\<lambda>(jp, t) s. snd (rate_admit new_bucket allow perSec t jp s)"
  obtain b where b: "holds_bucket S ip b ?s1" using rate_admit_front [OF assms(1,2)] by blast
  have "holds_bucket S ip b (fold ?step reqs s')" if "holds_bucket S ip b s'" for s'
    using assms(6) that
  proof (induction reqs arbitrary: s')
    case (Cons r reqs)
    obtain jp t where r: "r = (jp, t)" by fastforce
    have "holds_bucket S ip b (?step r s')"
      using holds_bucket_admit [OF Cons.prems(2) _ assms(5,3), of jp new_bucket allow perSec t] Cons.prems(1)
        assms(4) r by (simp add: maxRateLimiters_def)
    with Cons show ?case by simp
  qed simp
  from this [OF b] have h: "holds_bucket S ip b (fold ?step reqs ?s1)" .
  then have "lru_ok (fold ?step reqs ?s1)" by (simp add: holds_bucket_def)
  with holds_bucket_of [OF h assms(5)] holds_bucket_of [OF b assms(5)] show ?thesis
    by (simp add: lru_ok_def maxRateLimiters_def Let_def)
qed

text \<open>A token bucket that counts: the tokens left, refilled by time at the rate.\<close>

definition counting_bucket :: "int \<Rightarrow> int \<Rightarrow> int \<times> int \<times> int \<times> int" where
  "counting_bucket r burst = (r, burst, burst, 0)"

definition counting_allow :: "int \<times> int \<times> int \<times> int \<Rightarrow> int \<Rightarrow> bool \<times> (int \<times> int \<times> int \<times> int)" where
  "counting_allow = (\<lambda>(r, burst, tokens, last) now.
     let tokens = min burst (tokens + r * (now - last))
     in if tokens \<ge> 1 then (True, (r, burst, tokens - 1, now)) else (False, (r, burst, tokens, now)))"

theorem bucket_survives_other_clients_witness:
  "bucket_of ''10.0.0.1'' (fold (\<lambda>(jp, t) s. snd (rate_admit counting_bucket counting_allow 3 t jp s))
       [(''10.0.0.2'', 5), (''10.0.0.3'', 6), (''10.0.0.2'', 6)]
       (snd (rate_admit counting_bucket counting_allow 3 4 ''10.0.0.1'' no_limiters)))
     = Some (3, 6, 5, 4)"
proof -
  let ?reqs = "[(''10.0.0.2'', 5), (''10.0.0.3'', 6), (''10.0.0.2'', 6)]"
  let ?S = "{''10.0.0.2'', ''10.0.0.3''}"
  have 1: "lru_ok no_limiters" by (simp add: lru_ok_def no_limiters_def)
  have 2: "finite ?S" "card ?S < 10000" "''10.0.0.1'' \<notin> ?S" "\<forall>(jp, t) \<in> set ?reqs. jp \<in> ?S" by simp_all
  have 3: "bucket_of ''10.0.0.1'' (snd (rate_admit counting_bucket counting_allow 3 4 ''10.0.0.1'' no_limiters))
      = Some (3, 6, 5, 4)"
    by (simp add: bucket_of_def rate_admit_def getLimiter_def no_limiters_def evict_back_def Let_def
        maxRateLimiters_def counting_bucket_def counting_allow_def burst_of_def allow_bucket_def)
  have 4: "0 < (3 :: int)" by simp
  show ?thesis
    by (rule trans [OF conjunct1 [OF bucket_survives_other_clients [OF 1 4 2, unfolded Let_def]] 3])
qed

subsection \<open>Idle limiters\<close>

definition time_ok :: "int \<Rightarrow> 'b limiters \<Rightarrow> bool" where
  "time_ok t s \<longleftrightarrow> sorted_wrt (\<ge>) (map il_lastUse (rateLRU s)) \<and> list_all (\<lambda>e. il_lastUse e \<le> t) (rateLRU s)"

text \<open>The server: requests and idle evictions, the clock never going back.\<close>

inductive rate_step ::
  "(int \<Rightarrow> int \<Rightarrow> 'b) \<Rightarrow> ('b \<Rightarrow> int \<Rightarrow> bool \<times> 'b) \<Rightarrow> int \<Rightarrow> int \<times> 'b limiters \<Rightarrow> int \<times> 'b limiters \<Rightarrow> bool"
  for new_bucket allow perSec where
  Request: "t \<le> t' \<Longrightarrow> rate_step new_bucket allow perSec (t, s)
      (t', snd (rate_admit new_bucket allow perSec t' ip s))"
| Idle: "t \<le> t' \<Longrightarrow> rate_step new_bucket allow perSec (t, s) (t', evictIdleLimiters t' maxAge s)"

lemma sorted_filter_ge: "sorted_wrt R (map k l) \<Longrightarrow> sorted_wrt R (map k (filter P l))"
  by (induction l) auto

lemma time_ok_get:
  assumes "time_ok t s" "t \<le> now"
  shows "time_ok now (snd (getLimiter new_bucket perSec now ip s))"
proof -
  have a: "\<forall>e \<in> set (rateLRU s). il_lastUse e \<le> now" using assms by (fastforce simp: time_ok_def list_all_iff)
  have f: "sorted_wrt (\<ge>) (map il_lastUse (filter P (rateLRU s)))" for P
    using assms(1) sorted_filter_ge by (fastforce simp: time_ok_def)
  have b: "sorted_wrt (\<ge>) (map il_lastUse (rateLRU (evict_back s)))"
    "\<forall>e \<in> set (rateLRU (evict_back s)). il_lastUse e \<le> now"
  proof -
    have "sorted_wrt (\<ge>) (map il_lastUse (butlast (rateLRU s)))"
      using assms(1) unfolding time_ok_def
      by (cases "rateLRU s" rule: rev_cases) (auto simp: sorted_wrt_append)
    with assms(1) show "sorted_wrt (\<ge>) (map il_lastUse (rateLRU (evict_back s)))"
      by (auto simp: evict_back_def time_ok_def)
    show "\<forall>e \<in> set (rateLRU (evict_back s)). il_lastUse e \<le> now"
      using a by (auto simp: evict_back_def dest: in_set_butlastD)
  qed
  show ?thesis
    using a b f assms
    by (auto simp: getLimiter_def time_ok_def move_to_front_def Let_def list_all_iff split: option.split)
qed

lemma time_ok_admit:
  assumes "time_ok t s" "t \<le> now"
  shows "time_ok now (snd (rate_admit new_bucket allow perSec now ip s))"
proof -
  obtain x s1 where g: "getLimiter new_bucket perSec now ip s = (x, s1)" by fastforce
  have t: "time_ok now s1" using time_ok_get [OF assms] g by (metis snd_conv)
  have "time_ok now (snd (allow_bucket allow now ip b s1))" for b
  proof -
    let ?f = "\<lambda>e. if il_ip e = ip then e\<lparr>il_limiter := snd (allow b now)\<rparr> else e"
    have m: "map il_lastUse (map ?f (rateLRU s1)) = map il_lastUse (rateLRU s1)" by simp
    have "list_all (\<lambda>e. il_lastUse e \<le> now) (map ?f (rateLRU s1))"
      using t by (auto simp: time_ok_def list_all_iff)
    with t m show ?thesis
      by (simp add: allow_bucket_def split_beta time_ok_def del: map_map)
  qed
  moreover have "time_ok now s" using assms by (fastforce simp: time_ok_def list_all_iff)
  ultimately show ?thesis using g t by (auto simp: rate_admit_def split: option.split)
qed

lemma evict_idle_filter:
  "sorted_wrt (\<le>) (map il_lastUse l) \<Longrightarrow> fst (evict_idle c l keys) = filter (\<lambda>e. c < il_lastUse e) l"
proof (induction c l keys rule: evict_idle.induct)
  case (2 c e l keys)
  have "filter (\<lambda>e. c < il_lastUse e) l = l" if "c < il_lastUse e"
    using that "2.prems" by (intro filter_True) fastforce
  with 2 show ?case by simp
qed simp

lemma evict_idle_keys:
  "snd (evict_idle c l keys) = fold remove1 (map il_ip (take (length l - length (fst (evict_idle c l keys))) l)) keys
   \<and> fst (evict_idle c l keys) = drop (length l - length (fst (evict_idle c l keys))) l"
proof (induction c l keys rule: evict_idle.induct)
  case (2 c e l keys)
  have "length (fst (evict_idle c l k)) \<le> length l" for k
    by (induction c l k rule: evict_idle.induct) auto
  with 2 show ?case by (auto simp: Suc_diff_le)
qed simp

lemma set_fold_remove1:
  "distinct keys \<Longrightarrow> set (fold remove1 xs keys) = set keys - set xs \<and> distinct (fold remove1 xs keys)"
  by (induction xs arbitrary: keys) (auto simp: set_remove1_eq)

lemma evictIdle_rate:
  assumes "time_ok t s"
  shows "rateLRU (evictIdleLimiters now maxAge s) = filter (\<lambda>e. now - maxAge < il_lastUse e) (rateLRU s)"
proof -
  have "sorted_wrt (\<le>) (map il_lastUse (rev (rateLRU s)))"
    using assms by (simp add: time_ok_def rev_map [symmetric] sorted_wrt_rev)
  from evict_idle_filter [OF this] show ?thesis
    by (simp add: evictIdleLimiters_def split_beta rev_filter)
qed

lemma evictIdle_ok:
  assumes "lru_ok s"
  shows "lru_ok (evictIdleLimiters now maxAge s)"
proof -
  let ?l = "rev (rateLRU s)"
  let ?r = "evict_idle (now - maxAge) ?l (rateLimiters s)"
  obtain k where r: "snd ?r = fold remove1 (map il_ip (take k ?l)) (rateLimiters s)" "fst ?r = drop k ?l"
    using evict_idle_keys [of "now - maxAge" ?l "rateLimiters s"] by blast
  have d: "distinct (map il_ip ?l)" using assms by (simp add: lru_ok_def rev_map [symmetric])
  then have "distinct (map il_ip (take k ?l) @ map il_ip (drop k ?l))"
    by (simp only: map_append [symmetric] append_take_drop_id)
  then have dis: "distinct (map il_ip (drop k ?l))"
    "set (map il_ip (take k ?l)) \<inter> set (map il_ip (drop k ?l)) = {}"
    by (simp_all only: distinct_append)
  have "set (rateLimiters s) = set (map il_ip (take k ?l)) \<union> set (map il_ip (drop k ?l))"
  proof -
    have "set (rateLimiters s) = set (map il_ip ?l)" using assms by (simp add: lru_ok_def)
    also have "\<dots> = set (map il_ip (take k ?l) @ map il_ip (drop k ?l))"
      by (simp only: map_append [symmetric] append_take_drop_id)
    finally show ?thesis by simp
  qed
  with dis(2) set_fold_remove1 [of "rateLimiters s" "map il_ip (take k ?l)"] assms
  have "set (snd ?r) = il_ip ` set (fst ?r)" "distinct (snd ?r)"
    unfolding r lru_ok_def by auto
  moreover have "distinct (map il_ip (fst ?r))" unfolding r(2) by (rule dis(1))
  moreover have "length (fst ?r) \<le> maxRateLimiters"
    using assms unfolding r(2) lru_ok_def by auto
  ultimately show ?thesis
    by (simp add: evictIdleLimiters_def split_beta lru_ok_def rev_map [symmetric])
qed

text \<open>
  Idle eviction removes exactly the idle. In every state the server can reach, \<open>rateLimiters\<close>
  and \<open>rateLRU\<close> name the same IPs, the list is ordered by last use, and an eviction pass, which stops
  at the first recent element, removes every limiter unused for \<open>maxAge\<close> and no other.
\<close>

theorem idle_eviction_exact:
  assumes "(rate_step new_bucket allow perSec)\<^sup>*\<^sup>* (t0, no_limiters) (t, s)"
  shows "lru_ok s \<and> time_ok t s
    \<and> rateLRU (evictIdleLimiters now maxAge s) = filter (\<lambda>e. now - maxAge < il_lastUse e) (rateLRU s)
    \<and> set (rateLimiters (evictIdleLimiters now maxAge s))
        = il_ip ` {e \<in> set (rateLRU s). now - maxAge < il_lastUse e}"
proof -
  have inv: "lru_ok (snd u) \<and> time_ok (fst u) (snd u)"
    if "(rate_step new_bucket allow perSec)\<^sup>*\<^sup>* (t0, no_limiters) u" for u
    using that
  proof (induction rule: rtranclp_induct)
    case base
    then show ?case by (simp add: lru_ok_def time_ok_def no_limiters_def)
  next
    case (step u v)
    from step(2) show ?case
    proof cases
      case (Request t t' s ip)
      obtain x s1 where g: "getLimiter new_bucket perSec t' ip s = (x, s1)" by fastforce
      have "lru_ok s1" using getLimiter_ok [of s new_bucket perSec t' ip] step(3) Request(1) g by simp
      then have "lru_ok (snd (rate_admit new_bucket allow perSec t' ip s))"
        using step(3) Request(1) g allow_bucket_ok by (auto simp: rate_admit_def split: option.split)
      with Request step(3) time_ok_admit [of t s t'] show ?thesis by simp
    next
      case (Idle t t' s maxAge)
      have "time_ok t' s" using step(3) Idle by (fastforce simp: time_ok_def list_all_iff)
      then have "time_ok t' (evictIdleLimiters t' maxAge s)"
        using evictIdle_rate [of t s t' maxAge] step(3) Idle sorted_filter_ge
        by (fastforce simp: time_ok_def list_all_iff)
      with Idle step(3) evictIdle_ok [of s t' maxAge] show ?thesis by simp
    qed
  qed
  from inv [OF assms] have s: "lru_ok s" "time_ok t s" by simp_all
  note e = evictIdle_rate [OF s(2), of now maxAge]
  have "set (rateLimiters (evictIdleLimiters now maxAge s)) = il_ip ` set (rateLRU (evictIdleLimiters now maxAge s))"
    using evictIdle_ok [OF s(1), of now maxAge] by (simp add: lru_ok_def)
  with s e show ?thesis by simp
qed

theorem idle_eviction_exact_witness:
  "rateLRU (evictIdleLimiters 700 600 (snd (rate_admit counting_bucket counting_allow 3 200 ''b''
      (snd (rate_admit counting_bucket counting_allow 3 50 ''a'' no_limiters)))))
   = [\<lparr>il_ip = ''b'', il_limiter = (3, 6, 5, 200), il_lastUse = 200\<rparr>]"
proof -
  let ?s1 = "snd (rate_admit counting_bucket counting_allow 3 50 ''a'' no_limiters)"
  let ?s2 = "snd (rate_admit counting_bucket counting_allow 3 200 ''b'' ?s1)"
  have "rate_step counting_bucket counting_allow 3 (0, no_limiters) (50, ?s1)"
    "rate_step counting_bucket counting_allow 3 (50, ?s1) (200, ?s2)"
    by (rule Request; simp)+
  then have "(rate_step counting_bucket counting_allow 3)\<^sup>*\<^sup>* (0, no_limiters) (200, ?s2)" by simp
  from idle_eviction_exact [OF this, of 700 600]
  have "rateLRU (evictIdleLimiters 700 600 ?s2) = filter (\<lambda>e. 100 < il_lastUse e) (rateLRU ?s2)" by simp
  then show ?thesis
    by (simp add: rate_admit_def getLimiter_def no_limiters_def evict_back_def Let_def
        maxRateLimiters_def counting_bucket_def counting_allow_def burst_of_def allow_bucket_def)
qed

end
