(* ===== verification/Sql_Select.thy ===== *)
theory Sql_Select
  imports Database Json_String
begin

text \<open>
  The \<open>SELECT\<close> on products as PostgreSQL executes it: the text of the statement is read, its parameters are bound
  to the arguments, and the clauses are evaluated on the table. The reader knows the grammar that the lookups
  of \<^verbatim>\<open>internal/db/queries.go\<close> are written in, with every condition, the order, the limit and the offset optional;
  any other text is a syntax error. The regular expressions are PostgreSQL's: \<open>pg ci pat\<close> is the compiled
  pattern, or \<open>None\<close> where PostgreSQL rejects it.
\<close>

datatype q_arg = QStr string | QInt int

subsection \<open>Conditions\<close>

text \<open>A condition of the text names its parameters by their number; a clause has its arguments in their place.\<close>

datatype sql_cond =
    PEq string nat            \<comment> \<open>column, parameter\<close>
  | PAfter nat
  | PContains nat
  | PMatches bool nat nat     \<comment> \<open>case-insensitive, key, pattern\<close>
  | PNotGlobal

datatype clause =
    ColumnEq string string
  | After string
  | Contains string           \<comment> \<open>the JSON object the attributes must contain\<close>
  | Matches bool string string
  | NotGlobal

definition text_columns :: "string list" where
  "text_columns = [''product_hash'', ''sku'', ''vendor_name'', ''region'', ''service'', ''product_family'']"

definition column_of :: "string \<Rightarrow> product \<Rightarrow> string" where
  "column_of col p =
     (if col = ''product_hash'' then p_hash p else if col = ''sku'' then p_sku p
      else if col = ''vendor_name'' then p_vendor p else if col = ''region'' then p_region p
      else if col = ''service'' then p_service p else p_family p)"

definition global_usage :: "product \<Rightarrow> bool" where
  "global_usage p \<longleftrightarrow>
     (case map_of (p_attrs p) ''usagetype'' of None \<Rightarrow> False | Some u \<Rightarrow> has_prefix u ''Global'')"

text \<open>The object of a containment test, as \<open>jsonb\<close> reads it.\<close>

definition read_object :: "string \<Rightarrow> (string \<times> string) option" where
  "read_object j =
     (case j of
        [] \<Rightarrow> None
      | c # s \<Rightarrow>
          if c \<noteq> CHR ''{'' then None
          else (case read_string s of
                  None \<Rightarrow> None
                | Some (k, t) \<Rightarrow>
                    (case t of
                       [] \<Rightarrow> None
                     | c # t' \<Rightarrow>
                         if c \<noteq> CHR '':'' then None
                         else (case read_string t' of
                                 Some (v, u) \<Rightarrow> if u = ''}'' then Some (k, v) else None
                               | None \<Rightarrow> None))))"

type_synonym pg_regex = "bool \<Rightarrow> string \<Rightarrow> (string \<Rightarrow> bool) option"

definition pattern_ok :: "pg_regex \<Rightarrow> clause \<Rightarrow> bool" where
  "pattern_ok pg c = (case c of Matches ci k p \<Rightarrow> pg ci p \<noteq> None | _ \<Rightarrow> True)"

definition clause_holds :: "pg_regex \<Rightarrow> product \<Rightarrow> clause \<Rightarrow> bool" where
  "clause_holds pg p c =
     (case c of
        ColumnEq col v \<Rightarrow> column_of col p = v
      | After h \<Rightarrow> h < p_hash p
      | Contains j \<Rightarrow> (case read_object j of
                         None \<Rightarrow> False | Some (k, v) \<Rightarrow> map_of (p_attrs p) k = Some v)
      | Matches ci k pat \<Rightarrow>
          (case (map_of (p_attrs p) k, pg ci pat) of
             (Some v, Some m) \<Rightarrow> m v | _ \<Rightarrow> False)
      | NotGlobal \<Rightarrow> \<not> global_usage p)"

text \<open>Hashes order by their bytes; without an order the rows come as they lie in the table.\<close>

definition sql_select :: "pg_regex \<Rightarrow> clause list \<Rightarrow> bool \<Rightarrow> nat option \<Rightarrow> nat option \<Rightarrow> product list stmt" where
  "sql_select pg cs ordered limit offset d =
     (if list_all (pattern_ok pg) cs
      then (let ps = filter (\<lambda>p. list_all (clause_holds pg p) cs) (map (r_product \<circ> snd) (tbl_products d));
                ps = (if ordered then sort_key p_hash ps else ps);
                ps = (case offset of None \<Rightarrow> ps | Some k \<Rightarrow> drop k ps);
                ps = (case limit of None \<Rightarrow> ps | Some n \<Rightarrow> take n ps)
            in (Inr ps, d))
      else (Inl ''invalid regular expression'', d))"

subsection \<open>Reading the text\<close>

definition select_words :: "string list" where
  "select_words =
     [''SELECT'', ''product_hash,'', ''sku,'', ''vendor_name,'', ''region,'', ''service,'', ''product_family,'',
      ''attributes,'', ''prices'', ''FROM'', ''products'', ''WHERE'', ''1=1'']"

definition not_global_words :: "string list" where
  "not_global_words =
     [''(attributes->>'' @ [CHR 0x27] @ ''usagetype'' @ [CHR 0x27], ''IS'', ''NULL'', ''OR'',
      ''attributes->>'' @ [CHR 0x27] @ ''usagetype'' @ [CHR 0x27], ''NOT'', ''LIKE'',
      [CHR 0x27] @ ''Global%'' @ [CHR 0x27] @ '')'']"

definition read_param :: "string \<Rightarrow> nat option" where
  "read_param w =
     (case w of c # ds \<Rightarrow> if c = CHR ''$'' \<and> ds \<noteq> [] then read_digits 0 ds else None | [] \<Rightarrow> None)"

definition read_cond :: "string list \<Rightarrow> sql_cond option" where
  "read_cond ws =
     (if ws = not_global_words then Some PNotGlobal
      else (case ws of
        [l, oper, r] \<Rightarrow>
          if oper = ''='' \<and> l \<in> set text_columns then map_option (PEq l) (read_param r)
          else if oper = ''>'' \<and> l = ''product_hash'' then map_option PAfter (read_param r)
          else if oper = ''@>'' \<and> l = ''attributes'' \<and> has_suffix r ''::jsonb''
            then map_option PContains (read_param (trim_suffix r ''::jsonb''))
          else if (oper = ''~'' \<or> oper = ''~*'') \<and> has_prefix l ''attributes->>'' then
            (case (read_param (trim_prefix l ''attributes->>''), read_param r) of
               (Some k, Some p) \<Rightarrow> Some (PMatches (oper = ''~*'') k p) | _ \<Rightarrow> None)
          else None
      | _ \<Rightarrow> None))"

text \<open>An optional \<open>LIMIT\<close> or \<open>OFFSET\<close> at the front of the words.\<close>

definition read_count :: "string \<Rightarrow> string list \<Rightarrow> nat option option \<times> string list" where
  "read_count keyword ws =
     (case ws of
        w # p # rest \<Rightarrow> if w = keyword then (map_option Some (read_param p), rest) else (Some None, ws)
      | _ \<Rightarrow> (Some None, ws))"

type_synonym select_text = "sql_cond list \<times> bool \<times> nat option \<times> nat option"

definition read_tail :: "string list \<Rightarrow> (bool \<times> nat option \<times> nat option) option" where
  "read_tail ws =
     (let ordered = (take 3 ws = [''ORDER'', ''BY'', ''product_hash'']);
          ws = (if ordered then drop 3 ws else ws)
      in case read_count ''LIMIT'' ws of (limit, ws) \<Rightarrow>
         (case read_count ''OFFSET'' ws of (offset, ws) \<Rightarrow>
           (case (limit, offset) of
              (Some l, Some k) \<Rightarrow> if ws = [] then Some (ordered, l, k) else None
            | _ \<Rightarrow> None)))"

fun split_at :: "string \<Rightarrow> string list \<Rightarrow> string list list" where
  "split_at sep [] = [[]]"
| "split_at sep (w # ws) =
     (if w = sep then [] # split_at sep ws
      else (case split_at sep ws of [] \<Rightarrow> [[w]] | x # xs \<Rightarrow> (w # x) # xs))"

definition in_body :: "string \<Rightarrow> bool" where
  "in_body w \<longleftrightarrow> w \<notin> {''ORDER'', ''LIMIT'', ''OFFSET''}"

definition read_select :: "string \<Rightarrow> select_text option" where
  "read_select query =
     (let ws = split_on (CHR '' '') query in
      case split_at ''AND'' (takeWhile in_body ws) of
        [] \<Rightarrow> None
      | h # conds \<Rightarrow>
          if h \<noteq> select_words then None
          else (case (those (map read_cond conds), read_tail (dropWhile in_body ws)) of
                  (Some cs, Some (ordered, l, k)) \<Rightarrow> Some (cs, ordered, l, k)
                | _ \<Rightarrow> None))"

subsection \<open>Binding the parameters\<close>

definition str_arg :: "q_arg list \<Rightarrow> nat \<Rightarrow> string option" where
  "str_arg args i =
     (if 1 \<le> i \<and> i \<le> length args then (case args ! (i - 1) of QStr s \<Rightarrow> Some s | QInt n \<Rightarrow> None) else None)"

definition count_arg :: "q_arg list \<Rightarrow> nat option \<Rightarrow> nat option option" where
  "count_arg args i =
     (case i of
        None \<Rightarrow> Some None
      | Some i \<Rightarrow>
          if 1 \<le> i \<and> i \<le> length args
          then (case args ! (i - 1) of QInt n \<Rightarrow> if n < 0 then None else Some (Some (nat n)) | QStr s \<Rightarrow> None)
          else None)"

definition bind_cond :: "q_arg list \<Rightarrow> sql_cond \<Rightarrow> clause option" where
  "bind_cond args c =
     (case c of
        PEq col i \<Rightarrow> map_option (ColumnEq col) (str_arg args i)
      | PAfter i \<Rightarrow> map_option After (str_arg args i)
      | PContains i \<Rightarrow> map_option Contains (str_arg args i)
      | PMatches ci i j \<Rightarrow>
          (case (str_arg args i, str_arg args j) of (Some k, Some p) \<Rightarrow> Some (Matches ci k p) | _ \<Rightarrow> None)
      | PNotGlobal \<Rightarrow> Some NotGlobal)"

definition cond_params :: "sql_cond \<Rightarrow> nat list" where
  "cond_params c =
     (case c of PEq col i \<Rightarrow> [i] | PAfter i \<Rightarrow> [i] | PContains i \<Rightarrow> [i] | PMatches ci i j \<Rightarrow> [i, j] | PNotGlobal \<Rightarrow> [])"

definition select_params :: "select_text \<Rightarrow> nat list" where
  "select_params st =
     (case st of (cs, ordered, l, k) \<Rightarrow>
        concat (map cond_params cs) @ (case l of None \<Rightarrow> [] | Some i \<Rightarrow> [i]) @ (case k of None \<Rightarrow> [] | Some i \<Rightarrow> [i]))"

text \<open>The parameters of the text and the arguments must correspond, one to one and of the right type.\<close>

definition sql_query :: "pg_regex \<Rightarrow> string \<Rightarrow> q_arg list \<Rightarrow> product list stmt" where
  "sql_query pg query args d =
     (case read_select query of
        None \<Rightarrow> (Inl ''syntax error'', d)
      | Some st \<Rightarrow>
          if set (select_params st) \<noteq> set [1..<Suc (length args)]
          then (Inl ''parameters and arguments do not correspond'', d)
          else (case st of (cs, ordered, l, k) \<Rightarrow>
            (case (those (map (bind_cond args) cs), count_arg args l, count_arg args k) of
               (Some cs, Some limit, Some offset) \<Rightarrow> sql_select pg cs ordered limit offset d
             | _ \<Rightarrow> (Inl ''invalid argument'', d))))"

subsection \<open>Printing and reading\<close>

lemma split_on_mid: "split_on s (u @ s # v) = split_on s u @ split_on s v"
proof (induction u)
  case (Cons c u)
  then show ?case by (cases "split_on s u") auto
qed simp

lemma split_at_nonempty [simp]: "split_at s ws \<noteq> []"
  by (induction ws) (auto split: list.splits)

lemma split_at_mid: "split_at s (u @ s # v) = split_at s u @ split_at s v"
proof (induction u)
  case (Cons c u)
  then show ?case by (cases "split_at s u") (auto split: list.splits)
qed simp

lemma split_at_free: "s \<notin> set u \<Longrightarrow> split_at s u = [u]"
  by (induction u) auto

lemma split_at_segments:
  "s \<notin> set h \<Longrightarrow> list_all (\<lambda>u. s \<notin> set u) us \<Longrightarrow> split_at s (h @ concat (map ((#) s) us)) = h # us"
proof (induction us arbitrary: h)
  case (Cons u us)
  have "split_at s (h @ concat (map ((#) s) (u # us))) = split_at s h @ split_at s (u @ concat (map ((#) s) us))"
    by (simp add: split_at_mid)
  with Cons show ?case by (simp add: split_at_free)
qed (simp add: split_at_free)

lemma no_space_nat [simp]: "CHR '' '' \<notin> set (show_nat n)"
  using show_nat_digits [of "CHR '' ''" n] by (auto simp: digit_val_def)

lemma read_param_dollar: "read_param (CHR ''$'' # show_nat i) = Some i"
  by (simp add: read_param_def read_show_nat)

text \<open>The condition that a clause is printed to, its words, and how many arguments it takes.\<close>

definition cond_words :: "sql_cond \<Rightarrow> string list" where
  "cond_words c =
     (case c of
        PEq col i \<Rightarrow> [col, ''='', CHR ''$'' # show_nat i]
      | PAfter i \<Rightarrow> [''product_hash'', ''>'', CHR ''$'' # show_nat i]
      | PContains i \<Rightarrow> [''attributes'', ''@>'', CHR ''$'' # show_nat i @ ''::jsonb'']
      | PMatches ci i j \<Rightarrow>
          [''attributes->>$'' @ show_nat i, if ci then ''~*'' else ''~'', CHR ''$'' # show_nat j]
      | PNotGlobal \<Rightarrow> not_global_words)"

definition known_cond :: "sql_cond \<Rightarrow> bool" where
  "known_cond c = (case c of PEq col i \<Rightarrow> col \<in> set text_columns | _ \<Rightarrow> True)"

lemma read_cond_words: "known_cond c \<Longrightarrow> read_cond (cond_words c) = Some c"
proof (cases c)
  case (PMatches ci i j)
  have "has_prefix (''attributes->>$'' @ show_nat i) ''attributes->>''" by (simp add: has_prefix_def)
  moreover have "trim_prefix (''attributes->>$'' @ show_nat i) ''attributes->>'' = CHR ''$'' # show_nat i"
    using trim_prefix_append [of "''attributes->>''" "CHR ''$'' # show_nat i"] by simp
  ultimately show ?thesis
    using PMatches by (simp add: cond_words_def read_cond_def not_global_words_def read_param_dollar)
next
  case (PContains i)
  have "has_suffix (CHR ''$'' # show_nat i @ ''::jsonb'') ''::jsonb''"
    "trim_suffix (CHR ''$'' # show_nat i @ ''::jsonb'') ''::jsonb'' = CHR ''$'' # show_nat i"
    by (simp_all add: has_suffix_def trim_suffix_def)
  with PContains show ?thesis
    by (simp add: cond_words_def read_cond_def not_global_words_def read_param_dollar)
qed (auto simp: known_cond_def cond_words_def read_cond_def not_global_words_def read_param_dollar text_columns_def)

lemma read_conds_words:
  "list_all known_cond cs \<Longrightarrow> those (map read_cond (map cond_words cs)) = Some cs"
  by (induction cs) (simp_all add: read_cond_words)

lemma cond_words_body: "known_cond c \<Longrightarrow> w \<in> set (cond_words c) \<Longrightarrow> in_body w \<and> w \<noteq> ''AND''"
  by (cases c) (auto simp: cond_words_def in_body_def known_cond_def text_columns_def not_global_words_def split: if_splits)

definition tail_words :: "nat \<Rightarrow> nat option \<Rightarrow> string list" where
  "tail_words i k = [''ORDER'', ''BY'', ''product_hash'', ''LIMIT'', CHR ''$'' # show_nat i]
     @ (case k of None \<Rightarrow> [] | Some j \<Rightarrow> [''OFFSET'', CHR ''$'' # show_nat j])"

lemma read_tail_words: "read_tail (tail_words i k) = Some (True, Some i, k)"
  by (cases k) (simp_all add: read_tail_def tail_words_def read_count_def read_param_dollar)

text \<open>A text whose words are those of the conditions and of the end is read as these.\<close>

lemma read_select_words:
  assumes "split_on (CHR '' '') query = select_words @ concat (map (\<lambda>c. ''AND'' # cond_words c) cs) @ tail_words i k"
    and "list_all known_cond cs"
  shows "read_select query = Some (cs, True, Some i, k)"
proof -
  let ?b = "select_words @ concat (map (\<lambda>c. ''AND'' # cond_words c) cs)"
  have b: "\<forall>w \<in> set ?b. in_body w"
    using assms(2) cond_words_body by (auto simp: list_all_iff in_body_def select_words_def)
  have t: "takeWhile in_body (?b @ tail_words i k) = ?b" "dropWhile in_body (?b @ tail_words i k) = tail_words i k"
    using b by (simp_all add: takeWhile_append dropWhile_append tail_words_def in_body_def)
  have "split_at ''AND'' (select_words @ concat (map ((#) ''AND'') (map cond_words cs))) = select_words # map cond_words cs"
    by (rule split_at_segments) (use assms(2) cond_words_body in \<open>auto simp: list_all_iff select_words_def\<close>)
  then have s: "split_at ''AND'' ?b = select_words # map cond_words cs" by (simp add: comp_def)
  have ws: "split_on (CHR '' '') query = ?b @ tail_words i k" using assms(1) by simp
  show ?thesis
    unfolding read_select_def Let_def ws t s using read_conds_words [OF assms(2)]
    by (simp add: read_tail_words)
qed

end
