(* ===== verification/Product_Query.thy ===== *)
theory Product_Query
  imports Regex_Filter Store_Invariants Sql_Select
begin

text \<open>
  The products lookup: \<open>buildProductQuery\<close> renders SQL text and arguments as the code does, and
  \<open>QueryProducts\<close> executes this text with these arguments (\<open>sql_query\<close> of \<open>Sql_Select\<close>). That the text read
  back is the WHERE clause the filter asks for (\<open>filter_clauses\<close>) with its order, limit and offset is a lemma,
  \<open>lookup_reads\<close>, on which the properties rest.
\<close>

subsection \<open>The code\<close>

definition json_attribute :: "string \<Rightarrow> string \<Rightarrow> string" where
  "json_attribute k v = ''{'' @ json_string k @ '':'' @ json_string v @ ''}''"

definition select_from :: string where
  "select_from = ''SELECT product_hash, sku, vendor_name, region, service, product_family, attributes, prices FROM products WHERE 1=1''"

definition not_global :: string where
  "not_global = '' AND (attributes->>'usagetype' IS NULL OR attributes->>'usagetype' NOT LIKE 'Global%')''"

text \<open>The state of the builder: the text, the arguments, \<open>argIdx\<close>.\<close>

type_synonym builder = "string \<times> q_arg list \<times> nat"

definition put_eq :: "string \<Rightarrow> string option \<Rightarrow> builder \<Rightarrow> builder" where
  "put_eq column value b =
     (case value of
        None \<Rightarrow> b
      | Some v \<Rightarrow> (case b of (query, args, argIdx) \<Rightarrow>
          (query @ '' AND '' @ column @ '' = $'' @ show_nat argIdx, args @ [QStr v], argIdx + 1)))"

definition put_region :: "string option \<Rightarrow> builder \<Rightarrow> builder" where
  "put_region value b =
     (case value of
        None \<Rightarrow> b
      | Some v \<Rightarrow> (case put_eq ''region'' (Some v) b of (query, args, argIdx) \<Rightarrow>
          (query @ not_global, args, argIdx)))"

definition put_attribute :: "attributeFilter \<Rightarrow> builder \<Rightarrow> builder" where
  "put_attribute af b =
     (case b of (query, args, argIdx) \<Rightarrow>
      (case af_value af of
         Some v \<Rightarrow>
           (query @ '' AND attributes @> $'' @ show_nat argIdx @ ''::jsonb'',
            args @ [QStr (json_attribute (af_key af) v)], argIdx + 1)
       | None \<Rightarrow>
           (case af_regex af of
              None \<Rightarrow> b
            | Some r \<Rightarrow>
                (case parseRegexForPostgres r of (pgRegex, caseInsensitive) \<Rightarrow>
                 if pgRegex \<noteq> '''' then
                   (let pgRegex = normalizeRegexForPrefix pgRegex;
                        oper = (if caseInsensitive then ''~*'' else ''~'')
                    in (query @ '' AND attributes->>$'' @ show_nat argIdx @ '' '' @ oper @ '' $''
                          @ show_nat (argIdx + 1),
                        args @ [QStr (af_key af), QStr pgRegex], argIdx + 2))
                 else b))))"

definition too_long :: "attributeFilter \<Rightarrow> bool" where
  "too_long af \<longleftrightarrow> (case af_regex af of None \<Rightarrow> False | Some r \<Rightarrow> length r > maxRegexLength)"

definition buildProductQuery :: "productFilter \<Rightarrow> string + (string \<times> q_arg list)" where
  "buildProductQuery flt =
     (case find too_long (f_attrs flt) of
        Some af \<Rightarrow>
          Inl (''regex pattern too long: '' @ show_nat (length (the (af_regex af)))
               @ '' chars exceeds maximum of '' @ show_nat maxRegexLength)
      | None \<Rightarrow>
          (let b = (select_from, [], 1);
               b = put_eq ''vendor_name'' (f_vendor flt) b;
               b = put_eq ''service'' (f_service flt) b;
               b = put_eq ''product_family'' (f_family flt) b;
               b = put_region (f_region flt) b;
               b = put_eq ''sku'' (f_sku flt) b;
               b = fold put_attribute (f_attrs flt) b;
               limit = EffectiveLimit (f_limit flt)
           in (case b of (query, args, argIdx) \<Rightarrow>
               if f_afterHash flt \<noteq> '''' then
                 Inr (query @ '' AND product_hash > $'' @ show_nat argIdx
                        @ '' ORDER BY product_hash LIMIT $'' @ show_nat (argIdx + 1),
                      args @ [QStr (f_afterHash flt), QInt limit])
               else if f_offset flt > 0 then
                 Inr (query @ '' ORDER BY product_hash LIMIT $'' @ show_nat argIdx
                        @ '' OFFSET $'' @ show_nat (argIdx + 1),
                      args @ [QInt limit, QInt (f_offset flt)])
               else
                 Inr (query @ '' ORDER BY product_hash LIMIT $'' @ show_nat argIdx,
                      args @ [QInt limit]))))"

subsection \<open>The WHERE clause as data\<close>

definition clause_text :: "nat \<Rightarrow> clause \<Rightarrow> string" where
  "clause_text i c =
     (case c of
        ColumnEq col v \<Rightarrow> '' AND '' @ col @ '' = $'' @ show_nat i
      | NotGlobal \<Rightarrow> not_global
      | Contains j \<Rightarrow> '' AND attributes @> $'' @ show_nat i @ ''::jsonb''
      | Matches ci k p \<Rightarrow> '' AND attributes->>$'' @ show_nat i @ '' ''
                          @ (if ci then ''~*'' else ''~'') @ '' $'' @ show_nat (i + 1)
      | After h \<Rightarrow> '' AND product_hash > $'' @ show_nat i)"

definition clause_args :: "clause \<Rightarrow> q_arg list" where
  "clause_args c =
     (case c of
        ColumnEq col v \<Rightarrow> [QStr v] | NotGlobal \<Rightarrow> [] | Contains j \<Rightarrow> [QStr j]
      | Matches ci k p \<Rightarrow> [QStr k, QStr p] | After h \<Rightarrow> [QStr h])"

fun render :: "nat \<Rightarrow> clause list \<Rightarrow> string" where
  "render i [] = ''''"
| "render i (c # cs) = clause_text i c @ render (i + length (clause_args c)) cs"

abbreviation args_of :: "clause list \<Rightarrow> q_arg list" where
  "args_of cs \<equiv> concat (map clause_args cs)"

definition eq_clause :: "string \<Rightarrow> string option \<Rightarrow> clause list" where
  "eq_clause column value = (case value of None \<Rightarrow> [] | Some v \<Rightarrow> [ColumnEq column v])"

definition attribute_clause :: "attributeFilter \<Rightarrow> clause list" where
  "attribute_clause af =
     (case (af_value af, af_regex af) of
        (Some v, _) \<Rightarrow> [Contains (json_attribute (af_key af) v)]
      | (None, None) \<Rightarrow> []
      | (None, Some r) \<Rightarrow>
          (case parseRegexForPostgres r of (p, ci) \<Rightarrow>
             if p = '''' then [] else [Matches ci (af_key af) (normalizeRegexForPrefix p)]))"

definition where_clauses :: "productFilter \<Rightarrow> clause list" where
  "where_clauses f =
     eq_clause ''vendor_name'' (f_vendor f) @ eq_clause ''service'' (f_service f)
     @ eq_clause ''product_family'' (f_family f)
     @ (case f_region f of None \<Rightarrow> [] | Some v \<Rightarrow> [ColumnEq ''region'' v, NotGlobal])
     @ eq_clause ''sku'' (f_sku f) @ concat (map attribute_clause (f_attrs f))"

definition filter_clauses :: "productFilter \<Rightarrow> clause list" where
  "filter_clauses f =
     where_clauses f @ (if f_afterHash f \<noteq> '''' then [After (f_afterHash f)] else [])"

definition page_text :: "nat \<Rightarrow> productFilter \<Rightarrow> string" where
  "page_text i f =
     '' ORDER BY product_hash LIMIT $'' @ show_nat i
     @ (if f_afterHash f = '''' \<and> f_offset f > 0 then '' OFFSET $'' @ show_nat (i + 1) else '''')"

definition page_args :: "productFilter \<Rightarrow> q_arg list" where
  "page_args f =
     QInt (EffectiveLimit (f_limit f))
     # (if f_afterHash f = '''' \<and> f_offset f > 0 then [QInt (f_offset f)] else [])"

text \<open>The builder prints the clauses.\<close>

definition prints :: "clause list \<Rightarrow> builder \<Rightarrow> bool" where
  "prints cs b \<longleftrightarrow> b = (select_from @ render 1 cs, args_of cs, 1 + length (args_of cs))"

lemma render_append: "render i (cs @ ds) = render i cs @ render (i + length (args_of cs)) ds"
  by (induction cs arbitrary: i) (simp_all add: add.assoc)

lemma prints_eq: "prints cs b \<Longrightarrow> prints (cs @ eq_clause col v) (put_eq col v b)"
  by (auto simp: prints_def put_eq_def eq_clause_def render_append clause_text_def clause_args_def
      split: option.split)

lemma prints_region:
  "prints cs b \<Longrightarrow> prints (cs @ (case v of None \<Rightarrow> [] | Some v \<Rightarrow> [ColumnEq ''region'' v, NotGlobal])) (put_region v b)"
  by (auto simp: prints_def put_eq_def put_region_def render_append clause_text_def clause_args_def
      split: option.split)

lemma prints_attribute: "prints cs b \<Longrightarrow> prints (cs @ attribute_clause af) (put_attribute af b)"
  by (auto simp: prints_def put_attribute_def attribute_clause_def render_append clause_text_def
      clause_args_def Let_def split: option.split prod.split)

lemma prints_attributes:
  "prints cs b \<Longrightarrow> prints (cs @ concat (map attribute_clause afs)) (fold put_attribute afs b)"
proof (induction afs arbitrary: cs b)
  case (Cons af afs)
  from Cons.IH [OF prints_attribute [OF Cons.prems, of af]] show ?case by simp
qed simp

lemma build_prints:
  assumes "find too_long (f_attrs f) = None"
  shows "buildProductQuery f =
    Inr (select_from @ render 1 (filter_clauses f) @ page_text (1 + length (args_of (filter_clauses f))) f,
         args_of (filter_clauses f) @ page_args f)"
proof -
  have p0: "prints [] (select_from, [], 1)" by (simp add: prints_def)
  have p1: "prints (eq_clause col v) (put_eq col v (select_from, [], 1))" for col v
    using prints_eq [OF p0, of col v] by simp
  have w: "prints (where_clauses f)
      (fold put_attribute (f_attrs f) (put_eq ''sku'' (f_sku f) (put_region (f_region f)
        (put_eq ''product_family'' (f_family f) (put_eq ''service'' (f_service f)
          (put_eq ''vendor_name'' (f_vendor f) (select_from, [], 1)))))))"
    unfolding where_clauses_def append_assoc [symmetric]
    by (intro prints_attributes prints_eq prints_region p1)
  show ?thesis
    unfolding buildProductQuery_def Let_def w [unfolded prints_def] assms
    by (simp add: filter_clauses_def page_text_def page_args_def render_append clause_text_def
        clause_args_def)
qed

subsection \<open>Reading the text back\<close>

definition cond_at :: "nat \<Rightarrow> clause \<Rightarrow> sql_cond" where
  "cond_at i c =
     (case c of ColumnEq col v \<Rightarrow> PEq col i | NotGlobal \<Rightarrow> PNotGlobal | Contains j \<Rightarrow> PContains i
      | Matches ci k p \<Rightarrow> PMatches ci i (i + 1) | After h \<Rightarrow> PAfter i)"

fun conds_from :: "nat \<Rightarrow> clause list \<Rightarrow> sql_cond list" where
  "conds_from i [] = []"
| "conds_from i (c # cs) = cond_at i c # conds_from (i + length (clause_args c)) cs"

definition known_clause :: "clause \<Rightarrow> bool" where
  "known_clause c = (case c of ColumnEq col v \<Rightarrow> col \<in> set text_columns | _ \<Rightarrow> True)"

lemma column_words: "col \<in> set text_columns \<Longrightarrow> CHR '' '' \<notin> set col"
  by (auto simp: text_columns_def)

lemma split_words:
  "CHR '' '' \<notin> set u \<Longrightarrow> CHR '' '' \<notin> set v \<Longrightarrow> CHR '' '' \<notin> set w
   \<Longrightarrow> split_on (CHR '' '') (''AND'' @ CHR '' '' # u @ CHR '' '' # v @ CHR '' '' # w) = [''AND'', u, v, w]"
  by (subst split_on_append, simp)+ (simp add: split_on_single)

lemma clause_words:
  assumes "known_clause c"
  shows "\<exists>t. clause_text i c = CHR '' '' # t \<and> split_on (CHR '' '') t = ''AND'' # cond_words (cond_at i c)"
proof (cases c)
  case (ColumnEq col v)
  with assms have "col \<in> set text_columns" by (simp add: known_clause_def)
  with split_words [OF column_words, of col "''=''" "CHR ''$'' # show_nat i"] ColumnEq show ?thesis
    by (simp add: clause_text_def cond_words_def cond_at_def)
next
  case (After h)
  with split_words [of "''product_hash''" "''>''" "CHR ''$'' # show_nat i"] show ?thesis
    by (simp add: clause_text_def cond_words_def cond_at_def)
next
  case (Contains j)
  with split_words [of "''attributes''" "''@>''" "CHR ''$'' # show_nat i @ ''::jsonb''"] show ?thesis
    by (simp add: clause_text_def cond_words_def cond_at_def)
next
  case (Matches ci k p)
  with split_words [of "''attributes->>$'' @ show_nat i" "if ci then ''~*'' else ''~''" "CHR ''$'' # show_nat (i + 1)"]
  show ?thesis by (simp add: clause_text_def cond_words_def cond_at_def)
next
  case NotGlobal
  then show ?thesis by (simp add: clause_text_def cond_words_def cond_at_def not_global_def not_global_words_def)
qed

lemma split_render:
  "list_all known_clause cs \<Longrightarrow>
   split_on (CHR '' '') (u @ render i cs @ CHR '' '' # v)
     = split_on (CHR '' '') u @ concat (map (\<lambda>c. ''AND'' # cond_words c) (conds_from i cs)) @ split_on (CHR '' '') v"
proof (induction cs arbitrary: u i)
  case (Cons c cs)
  obtain t where t: "clause_text i c = CHR '' '' # t" "split_on (CHR '' '') t = ''AND'' # cond_words (cond_at i c)"
    using clause_words [of c i] Cons.prems by auto
  have "split_on (CHR '' '') (u @ render i (c # cs) @ CHR '' '' # v)
      = split_on (CHR '' '') (u @ CHR '' '' # (t @ render (i + length (clause_args c)) cs @ CHR '' '' # v))"
    by (simp add: t(1))
  also have "\<dots> = split_on (CHR '' '') u @ split_on (CHR '' '') (t @ render (i + length (clause_args c)) cs @ CHR '' '' # v)"
    by (rule split_on_mid)
  finally show ?case using Cons by (simp add: t(2))
qed (simp add: split_on_mid)

definition paged :: "productFilter \<Rightarrow> bool" where
  "paged f \<longleftrightarrow> f_afterHash f = '''' \<and> f_offset f > 0"

lemma page_words:
  "\<exists>t. page_text i f = CHR '' '' # t
     \<and> split_on (CHR '' '') t = tail_words i (if paged f then Some (i + 1) else None)"
proof -
  have s: "split_on (CHR '' '') (CHR ''$'' # show_nat i) = [CHR ''$'' # show_nat i]" for i
    by (rule split_on_single) simp
  have o: "split_on (CHR '' '') ((CHR ''$'' # show_nat i) @ CHR '' '' # ''OFFSET'' @ CHR '' '' # CHR ''$'' # show_nat (i + 1))
      = [CHR ''$'' # show_nat i, ''OFFSET'', CHR ''$'' # show_nat (i + 1)]"
    by (subst split_on_append, simp)+ (simp only: s)
  show ?thesis
    using o s by (simp add: page_text_def tail_words_def paged_def)
qed

lemma known_eq: "col \<in> set text_columns \<Longrightarrow> list_all known_clause (eq_clause col v)"
  by (simp add: eq_clause_def known_clause_def split: option.split)

lemma known_attribute: "list_all known_clause (attribute_clause af)"
  by (simp add: attribute_clause_def known_clause_def split: option.split prod.split)

lemma known_clauses: "list_all known_clause (filter_clauses f)"
proof -
  have c: "''vendor_name'' \<in> set text_columns" "''service'' \<in> set text_columns" "''product_family'' \<in> set text_columns"
    "''sku'' \<in> set text_columns" "''region'' \<in> set text_columns"
    by code_simp+
  have a: "list_all known_clause (concat (map attribute_clause afs))" for afs
    by (induction afs) (simp_all add: known_attribute)
  have r: "list_all known_clause (case v of None \<Rightarrow> [] | Some v \<Rightarrow> [ColumnEq ''region'' v, NotGlobal])" for v
    using c(5) by (simp add: known_clause_def split: option.split)
  have t: "list_all known_clause (if f_afterHash f \<noteq> '''' then [After (f_afterHash f)] else [])"
    by (simp add: known_clause_def)
  show ?thesis
    unfolding filter_clauses_def where_clauses_def list_all_append
    by (intro conjI known_eq c(1,2,3,4) a r t)
qed

lemma known_conds: "list_all known_clause cs \<Longrightarrow> list_all known_cond (conds_from i cs)"
  by (induction cs arbitrary: i) (auto simp: known_clause_def known_cond_def cond_at_def split: clause.splits)

lemma read_lookup_text:
  "read_select (select_from @ render 1 (filter_clauses f) @ page_text n f)
     = Some (conds_from 1 (filter_clauses f), True, Some n, if paged f then Some (n + 1) else None)"
proof -
  obtain t where t: "page_text n f = CHR '' '' # t"
      "split_on (CHR '' '') t = tail_words n (if paged f then Some (n + 1) else None)"
    using page_words [of n f] by blast
  have "split_on (CHR '' '') select_from = select_words" by code_simp
  with split_render [OF known_clauses, of select_from 1 f t] show ?thesis
    by (intro read_select_words known_conds known_clauses) (simp add: t)
qed

text \<open>The parameters are numbered in the order of the arguments, so each is bound to its own.\<close>

lemma conds_params: "concat (map cond_params (conds_from i cs)) = [i..<i + length (args_of cs)]"
proof (induction cs arbitrary: i)
  case (Cons c cs)
  have c: "cond_params (cond_at i c) = [i..<i + length (clause_args c)]"
    by (cases c) (simp_all add: cond_params_def cond_at_def clause_args_def upt_rec)
  show ?case
    using upt_add_eq_append [of i "i + length (clause_args c)" "length (args_of cs)"]
    by (simp add: c Cons.IH add.assoc)
qed simp

lemma str_arg_nth: "str_arg (pre @ QStr s # post) (Suc (length pre)) = Some s"
  by (simp add: str_arg_def)

lemma bind_conds:
  "those (map (bind_cond (pre @ args_of cs @ post)) (conds_from (Suc (length pre)) cs)) = Some cs"
proof (induction cs arbitrary: pre)
  case (Cons c cs)
  have "bind_cond (pre @ clause_args c @ args_of cs @ post) (cond_at (Suc (length pre)) c) = Some c"
    using str_arg_nth [of pre] str_arg_nth [of "pre @ [x]" for x]
    by (cases c) (simp_all add: bind_cond_def cond_at_def clause_args_def)
  with Cons.IH [of "pre @ clause_args c"] show ?case by simp
qed simp

subsection \<open>The code's lookup\<close>

definition QueryProducts :: "pg_regex \<Rightarrow> productFilter \<Rightarrow> product list stmt" where
  "QueryProducts pg f d =
     (case buildProductQuery f of
        Inl e \<Rightarrow> (Inl e, d)
      | Inr (query, args) \<Rightarrow>
          (case exec (sql_query pg query args) d of
             (Inl e, d) \<Rightarrow> (Inl (''query failed: '' @ e), d)
           | (Inr ps, d) \<Rightarrow> (Inr ps, d)))"

text \<open>What the statement of a filter means.\<close>

definition lookup_stmt :: "pg_regex \<Rightarrow> productFilter \<Rightarrow> product list stmt" where
  "lookup_stmt pg f =
     sql_select pg (filter_clauses f) True (Some (nat (EffectiveLimit (f_limit f))))
       (if paged f then Some (nat (f_offset f)) else None)"

lemma lookup_reads:
  assumes "find too_long (f_attrs f) = None"
  shows "\<exists>query args. buildProductQuery f = Inr (query, args) \<and> sql_query pg query args = lookup_stmt pg f"
proof -
  let ?cs = "filter_clauses f" and ?args = "args_of (filter_clauses f) @ page_args f"
  let ?n = "1 + length (args_of ?cs)"
  let ?k = "if paged f then Some (?n + 1) else None"
  have L: "0 < EffectiveLimit (f_limit f)" using EffectiveLimit_pos [of "f_limit f"] by simp
  have p: "set (select_params (conds_from 1 ?cs, True, Some ?n, ?k)) = set [1..<Suc (length ?args)]"
    unfolding select_params_def prod.case conds_params set_append
    by (auto simp: page_args_def paged_def)
  have b: "those (map (bind_cond ?args) (conds_from 1 ?cs)) = Some ?cs"
    using bind_conds [of "[]" ?cs "page_args f"] by simp
  have c: "count_arg ?args (Some ?n) = Some (Some (nat (EffectiveLimit (f_limit f))))"
    "count_arg ?args ?k = Some (if paged f then Some (nat (f_offset f)) else None)"
    using L by (auto simp: count_arg_def page_args_def paged_def nth_append)
  have "sql_query pg (select_from @ render 1 ?cs @ page_text ?n f) ?args d = lookup_stmt pg f d" for d
    unfolding sql_query_def read_lookup_text option.case p prod.case b c lookup_stmt_def by simp
  with build_prints [OF assms] show ?thesis by blast
qed

lemma QueryProducts_lookup:
  "QueryProducts pg f d =
     (case find too_long (f_attrs f) of
        Some af \<Rightarrow> (Inl (projl (buildProductQuery f)), d)
      | None \<Rightarrow>
          (case exec (lookup_stmt pg f) d of
             (Inl e, d) \<Rightarrow> (Inl (''query failed: '' @ e), d) | (Inr ps, d) \<Rightarrow> (Inr ps, d)))"
proof (cases "find too_long (f_attrs f)")
  case None
  from lookup_reads [OF None, of pg] None show ?thesis by (auto simp: QueryProducts_def)
qed (simp add: QueryProducts_def buildProductQuery_def)

lemma QueryProducts_success:
  assumes "QueryProducts pg f d = (Inr ps, d')"
  shows "find too_long (f_attrs f) = None \<and> exec (lookup_stmt pg f) d = (Inr ps, d')"
  using assms unfolding QueryProducts_lookup by (auto split: option.splits sum.splits prod.splits)

lemma lookup_stmt_state [simp]: "snd (lookup_stmt pg f d) = d"
  by (simp add: lookup_stmt_def sql_select_def Let_def)

subsection \<open>The meaning of a lookup\<close>

text \<open>What the filter asks for, without SQL.\<close>

definition attribute_selects :: "pg_regex \<Rightarrow> product \<Rightarrow> attributeFilter \<Rightarrow> bool" where
  "attribute_selects pg p af =
     (case (af_value af, af_regex af) of
        (Some v, _) \<Rightarrow> map_of (p_attrs p) (af_key af) = Some v
      | (None, None) \<Rightarrow> True
      | (None, Some r) \<Rightarrow>
          (case parseRegexForPostgres r of (body, ci) \<Rightarrow>
             body = '''' \<or>
             (case (map_of (p_attrs p) (af_key af), pg ci (normalizeRegexForPrefix body)) of
                (Some v, Some m) \<Rightarrow> m v | _ \<Rightarrow> False)))"

definition asks :: "string option \<Rightarrow> string \<Rightarrow> bool" where
  "asks want have = (case want of None \<Rightarrow> True | Some v \<Rightarrow> have = v)"

definition selects :: "pg_regex \<Rightarrow> productFilter \<Rightarrow> product \<Rightarrow> bool" where
  "selects pg f p \<longleftrightarrow>
     asks (f_vendor f) (p_vendor p) \<and> asks (f_service f) (p_service p) \<and> asks (f_family f) (p_family p)
     \<and> asks (f_region f) (p_region p) \<and> (f_region f \<noteq> None \<longrightarrow> \<not> global_usage p)
     \<and> asks (f_sku f) (p_sku p) \<and> list_all (attribute_selects pg p) (f_attrs f)"

definition valid_filter :: "productFilter \<Rightarrow> bool" where
  "valid_filter f \<longleftrightarrow> list_all (\<lambda>af. utf8_valid (af_key af)
     \<and> (case af_value af of None \<Rightarrow> True | Some v \<Rightarrow> utf8_valid v)) (f_attrs f)"

lemma read_object_attribute:
  assumes "utf8_valid k" "utf8_valid v"
  shows "read_object (json_attribute k v) = Some (k, v)"
  using assms read_json_string [of k "CHR '':'' # json_string v @ ''}''"] read_json_string [of v "''}''"]
  by (simp add: read_object_def json_attribute_def)

lemma clause_attribute:
  assumes "utf8_valid (af_key af)" "case af_value af of None \<Rightarrow> True | Some v \<Rightarrow> utf8_valid v"
  shows "list_all (clause_holds pg p) (attribute_clause af) \<longleftrightarrow> attribute_selects pg p af"
  using assms
  by (auto simp: attribute_clause_def attribute_selects_def clause_holds_def read_object_attribute
      split: option.splits prod.splits)

lemma clauses_select:
  assumes "valid_filter f"
  shows "list_all (clause_holds pg p) (where_clauses f) \<longleftrightarrow> selects pg f p"
proof -
  have e: "list_all (clause_holds pg p) (eq_clause col v) \<longleftrightarrow> asks v (column_of col p)" for col v
    by (auto simp: eq_clause_def asks_def clause_holds_def split: option.split)
  have a: "list_all (clause_holds pg p) (concat (map attribute_clause afs))
      \<longleftrightarrow> list_all (attribute_selects pg p) afs" if "set afs \<subseteq> set (f_attrs f)" for afs
    using that
  proof (induction afs)
    case (Cons af afs)
    with assms have "utf8_valid (af_key af)" "case af_value af of None \<Rightarrow> True | Some v \<Rightarrow> utf8_valid v"
      by (auto simp: valid_filter_def list_all_iff)
    from Cons clause_attribute [OF this, of pg p] show ?case by simp
  qed simp
  have r: "list_all (clause_holds pg p) (case f_region f of None \<Rightarrow> [] | Some v \<Rightarrow> [ColumnEq ''region'' v, NotGlobal])
      \<longleftrightarrow> asks (f_region f) (p_region p) \<and> (f_region f \<noteq> None \<longrightarrow> \<not> global_usage p)"
    by (auto simp: asks_def clause_holds_def column_of_def split: option.split)
  show ?thesis
    unfolding where_clauses_def list_all_append e r a [OF subset_refl] selects_def by (auto simp: column_of_def)
qed

definition patterns_ok :: "pg_regex \<Rightarrow> productFilter \<Rightarrow> bool" where
  "patterns_ok pg f \<longleftrightarrow> list_all (pattern_ok pg) (where_clauses f)"

text \<open>The matching products of the table in hash order, and the page a filter takes of them.\<close>

definition matching :: "pg_regex \<Rightarrow> productFilter \<Rightarrow> db \<Rightarrow> product list" where
  "matching pg f d =
     sort_key p_hash (filter (selects pg f) (map (r_product \<circ> snd) (tbl_products d)))"

definition page_offset :: "productFilter \<Rightarrow> nat" where
  "page_offset f = (if f_afterHash f = '''' \<and> f_offset f > 0 then nat (f_offset f) else 0)"

definition page :: "productFilter \<Rightarrow> product list \<Rightarrow> product list" where
  "page f ps =
     take (nat (EffectiveLimit (f_limit f)))
       (drop (page_offset f)
          (if f_afterHash f = '''' then ps else filter (\<lambda>p. f_afterHash f < p_hash p) ps))"

lemma lookup_page:
  assumes "valid_filter f" "patterns_ok pg f"
  shows "lookup_stmt pg f d = (Inr (page f (matching pg f d)), d)"
proof -
  have ok: "list_all (pattern_ok pg) (filter_clauses f)"
    using assms(2) by (simp add: filter_clauses_def patterns_ok_def pattern_ok_def)
  have c: "list_all (clause_holds pg p) (filter_clauses f)
      \<longleftrightarrow> selects pg f p \<and> (f_afterHash f = '''' \<or> f_afterHash f < p_hash p)" for p
    using clauses_select [OF assms(1), of pg p] by (simp add: filter_clauses_def clause_holds_def)
  have f: "filter (\<lambda>p. f_afterHash f < p_hash p) (sort_key p_hash (filter (selects pg f) ps))
      = sort_key p_hash (filter (\<lambda>p. selects pg f p \<and> f_afterHash f < p_hash p) ps)" for ps
    by (simp add: filter_sort conj_commute)
  show ?thesis
    using f by (simp add: lookup_stmt_def sql_select_def ok c page_def matching_def page_offset_def paged_def Let_def)
qed

lemma QueryProducts_page:
  assumes "valid_filter f" "patterns_ok pg f" "find too_long (f_attrs f) = None" "script d = []"
  shows "QueryProducts pg f d = (Inr (page f (matching pg f d)), d)"
  using assms by (simp add: QueryProducts_lookup lookup_page)

lemma matching_hashes:
  assumes "store_ok d"
  shows "sorted_wrt (<) (map p_hash (matching pg f d))"
proof -
  let ?ps = "map (r_product \<circ> snd) (tbl_products d)"
  have m: "map p_hash ?ps = map fst (tbl_products d)"
    using assms by (auto simp: store_ok_def list_all_iff)
  have "distinct (map p_hash ?ps)" unfolding m using assms by (simp add: store_ok_def)
  then have "distinct (map p_hash (filter (selects pg f) ?ps))" by (rule distinct_map_filter)
  then have "distinct (map p_hash (matching pg f d))"
    by (simp add: distinct_map matching_def)
  moreover have "sorted (map p_hash (matching pg f d))" by (simp add: matching_def)
  ultimately show ?thesis by (simp add: strict_sorted_iff)
qed

subsection \<open>Reading all pages\<close>

text \<open>
  A client's walk over the pages: by cursor (\<open>AfterHash\<close> of the last product, until a page is empty)
  and by offset. \<open>fuel\<close> bounds the number of pages.
\<close>

fun keyset_walk :: "nat \<Rightarrow> pg_regex \<Rightarrow> productFilter \<Rightarrow> db \<Rightarrow> product list" where
  "keyset_walk 0 pg f d = []"
| "keyset_walk (Suc n) pg f d =
     (case QueryProducts pg f d of
        (Inl e, d') \<Rightarrow> []
      | (Inr ps, d') \<Rightarrow>
          if ps = [] then [] else ps @ keyset_walk n pg (f\<lparr>f_afterHash := p_hash (last ps)\<rparr>) d')"

fun offset_walk :: "nat \<Rightarrow> pg_regex \<Rightarrow> productFilter \<Rightarrow> db \<Rightarrow> product list" where
  "offset_walk 0 pg f d = []"
| "offset_walk (Suc n) pg f d =
     (case QueryProducts pg f d of
        (Inl e, d') \<Rightarrow> []
      | (Inr ps, d') \<Rightarrow>
          if ps = [] then []
          else ps @ offset_walk n pg (f\<lparr>f_offset := f_offset f + EffectiveLimit (f_limit f)\<rparr>) d')"

lemma filter_clause_after [simp]:
  "where_clauses (f\<lparr>f_afterHash := h\<rparr>) = where_clauses f"
  "where_clauses (f\<lparr>f_offset := k\<rparr>) = where_clauses f"
  "selects pg (f\<lparr>f_afterHash := h\<rparr>) = selects pg f" "selects pg (f\<lparr>f_offset := k\<rparr>) = selects pg f"
  "valid_filter (f\<lparr>f_afterHash := h\<rparr>) = valid_filter f" "valid_filter (f\<lparr>f_offset := k\<rparr>) = valid_filter f"
  "patterns_ok pg (f\<lparr>f_afterHash := h\<rparr>) = patterns_ok pg f"
  "patterns_ok pg (f\<lparr>f_offset := k\<rparr>) = patterns_ok pg f"
  by (auto simp: where_clauses_def selects_def fun_eq_iff valid_filter_def patterns_ok_def)

lemma matching_after [simp]:
  "matching pg (f\<lparr>f_afterHash := h\<rparr>) d = matching pg f d"
  "matching pg (f\<lparr>f_offset := k\<rparr>) d = matching pg f d"
  by (simp_all add: matching_def)

text \<open>In a strictly sorted list, what comes after the \<open>m\<close>-th key is the tail from there.\<close>

lemma filter_after_nth:
  fixes key :: "'a \<Rightarrow> 'k :: linorder"
  assumes "sorted_wrt (<) (map key xs)" "i < length xs"
  shows "filter (\<lambda>x. key (xs ! i) < key x) xs = drop (Suc i) xs"
  using assms
proof (induction xs arbitrary: i)
  case (Cons x xs)
  show ?case
  proof (cases i)
    case 0
    with Cons.prems show ?thesis by (auto simp: filter_id_conv)
  next
    case (Suc j)
    with Cons.prems have "\<not> key (xs ! j) < key x" by (auto dest!: nth_mem intro: less_imp_not_less)
    with Suc Cons show ?thesis by simp
  qed
qed simp

lemma filter_after_twice:
  fixes key :: "'a \<Rightarrow> 'k :: linorder"
  assumes "sorted_wrt (<) (map key xs)" "T = filter (\<lambda>x. a < key x) xs" "i < length T"
  shows "filter (\<lambda>x. key (T ! i) < key x) xs = drop (Suc i) T"
proof -
  have "a < key (T ! i)" using assms(2,3) nth_mem [OF assms(3)] by auto
  then have "filter (\<lambda>x. key (T ! i) < key x) xs = filter (\<lambda>x. key (T ! i) < key x) T"
    unfolding assms(2) filter_filter by (auto intro!: filter_cong)
  moreover have "sorted_wrt (<) (map key T)"
    using assms(1) unfolding assms(2) by (induction xs) auto
  ultimately show ?thesis using filter_after_nth [OF _ assms(3)] by simp
qed

lemma keyset_walk_rest:
  assumes "valid_filter f" "patterns_ok pg f" "find too_long (f_attrs f) = None" "script d = []"
    and "store_ok d" "f_afterHash f \<noteq> ''''"
    and "length (filter (\<lambda>p. f_afterHash f < p_hash p) (matching pg f d)) < n"
  shows "keyset_walk n pg f d = filter (\<lambda>p. f_afterHash f < p_hash p) (matching pg f d)"
  using assms
proof (induction n arbitrary: f)
  case (Suc n)
  let ?S = "matching pg f d" and ?L = "nat (EffectiveLimit (f_limit f))"
  let ?T = "filter (\<lambda>p. f_afterHash f < p_hash p) ?S"
  have L: "1 \<le> ?L" using EffectiveLimit_pos [of "f_limit f"] by simp
  have q: "QueryProducts pg f d = (Inr (take ?L ?T), d)"
    using Suc.prems by (simp add: QueryProducts_page page_def page_offset_def)
  show ?case
  proof (cases "?T = []")
    case False
    let ?i = "min ?L (length ?T) - 1"
    have i: "?i < length ?T" "Suc ?i = min ?L (length ?T)" using False L by (cases ?T; simp)+
    have l: "last (take ?L ?T) = ?T ! ?i"
      using False L by (simp add: last_conv_nth min_def)
    have tail: "filter (\<lambda>p. p_hash (?T ! ?i) < p_hash p) ?S = drop ?L ?T"
      using filter_after_twice [OF matching_hashes [OF Suc.prems(5)] refl i(1)] i(2)
      by (simp add: min_def split: if_splits)
    have ne: "p_hash (?T ! ?i) \<noteq> ''''" using nth_mem [OF i(1)] by auto
    have "keyset_walk n pg (f\<lparr>f_afterHash := p_hash (?T ! ?i)\<rparr>) d = drop ?L ?T"
      using Suc.IH [of "f\<lparr>f_afterHash := p_hash (?T ! ?i)\<rparr>"] Suc.prems tail ne L False
      by (simp del: filter_filter) (cases ?T; simp)
    with q l False L EffectiveLimit_pos [of "f_limit f"] show ?thesis by simp
  qed (use q in simp)
qed simp

lemma offset_walk_rest:
  assumes "valid_filter f" "patterns_ok pg f" "find too_long (f_attrs f) = None" "script d = []"
    and "f_afterHash f = ''''" "0 \<le> f_offset f"
    and "length (matching pg f d) - nat (f_offset f) < n"
  shows "offset_walk n pg f d = drop (nat (f_offset f)) (matching pg f d)"
  using assms
proof (induction n arbitrary: f)
  case (Suc n)
  let ?S = "matching pg f d" and ?L = "nat (EffectiveLimit (f_limit f))" and ?k = "nat (f_offset f)"
  have L: "1 \<le> ?L" "0 \<le> EffectiveLimit (f_limit f)" using EffectiveLimit_pos [of "f_limit f"] by simp_all
  have q: "QueryProducts pg f d = (Inr (take ?L (drop ?k ?S)), d)"
    using Suc.prems by (simp add: QueryProducts_page page_def page_offset_def)
  show ?case
  proof (cases "drop ?k ?S = []")
    case False
    have k: "nat (f_offset f + EffectiveLimit (f_limit f)) = ?k + ?L"
      using Suc.prems(6) L by (simp add: nat_add_distrib)
    have "offset_walk n pg (f\<lparr>f_offset := f_offset f + EffectiveLimit (f_limit f)\<rparr>) d = drop (?k + ?L) ?S"
    proof -
      have "length ?S - nat (f_offset f + EffectiveLimit (f_limit f)) < n"
        unfolding k using Suc.prems(7) L(1) False by simp
      with Suc.IH [of "f\<lparr>f_offset := f_offset f + EffectiveLimit (f_limit f)\<rparr>"] Suc.prems L(2)
      show ?thesis by (simp add: k)
    qed
    moreover have "take ?L (drop ?k ?S) @ drop (?k + ?L) ?S = drop ?k ?S"
      by (metis append_take_drop_id drop_drop add.commute)
    moreover have "take ?L (drop ?k ?S) \<noteq> []" using False L by (cases "drop ?k ?S") auto
    ultimately show ?thesis using q by simp
  qed (use q in simp)
qed simp

subsection \<open>The properties of a lookup\<close>

lemma sorted_take_drop:
  "sorted_wrt R xs \<Longrightarrow> sorted_wrt R (take n xs)" "sorted_wrt R xs \<Longrightarrow> sorted_wrt R (drop n xs)"
  by (simp_all add: sorted_wrt_take sorted_wrt_drop)

lemma sorted_filter_map: "sorted_wrt R (map k xs) \<Longrightarrow> sorted_wrt R (map k (filter P xs))"
  by (induction xs) auto

lemma set_matching:
  "set (matching pg f d) = {p. selects pg f p \<and> (\<exists>h x. (h, x) \<in> set (tbl_products d) \<and> r_product x = p)}"
  by (force simp: matching_def)

lemma matching_hash_nonempty:
  assumes "store_ok d" "list_all (\<lambda>(h, x). h \<noteq> '''') (tbl_products d)" "p \<in> set (matching pg f d)"
  shows "p_hash p \<noteq> ''''"
proof -
  from assms(3) obtain h x where x: "(h, x) \<in> set (tbl_products d)" "r_product x = p"
    by (auto simp: set_matching)
  from assms(1) x have "p_hash p = h" by (auto simp: store_ok_def list_all_iff)
  moreover from assms(2) x have "h \<noteq> ''''" by (auto simp: list_all_iff)
  ultimately show ?thesis by simp
qed

lemma page_sorted:
  "sorted_wrt (<) (map p_hash ps) \<Longrightarrow> sorted_wrt (<) (map p_hash (page f ps))"
  by (simp add: page_def take_map [symmetric] drop_map [symmetric] sorted_take_drop sorted_filter_map)

text \<open>What a cursor page leaves out comes after all it holds, and then the page is full.\<close>

lemma page_complete:
  assumes "sorted_wrt (<) (map p_hash ps)" "p \<in> set ps" "f_offset f \<le> 0"
    and "f_afterHash f = '''' \<or> f_afterHash f < p_hash p" "p \<notin> set (page f ps)"
  shows "length (page f ps) = nat (EffectiveLimit (f_limit f)) \<and> (\<forall>q \<in> set (page f ps). p_hash q < p_hash p)"
proof -
  let ?L = "nat (EffectiveLimit (f_limit f))"
  let ?T = "if f_afterHash f = '''' then ps else filter (\<lambda>p. f_afterHash f < p_hash p) ps"
  have pg: "page f ps = take ?L ?T" using assms(3) by (simp add: page_def page_offset_def)
  have T: "p \<in> set ?T" "sorted_wrt (<) (map p_hash ?T)"
    using assms(1,2,4) sorted_filter_map [OF assms(1)] by auto
  then have d: "p \<in> set (drop ?L ?T)"
    using assms(5) unfolding pg by (metis Un_iff append_take_drop_id set_append)
  then have "?L < length ?T" by (cases "?L < length ?T") auto
  moreover have "sorted_wrt (<) (map p_hash (take ?L ?T) @ map p_hash (drop ?L ?T))"
    using T(2) by (simp only: map_append [symmetric] append_take_drop_id)
  ultimately show ?thesis
    using d unfolding pg by (auto simp: sorted_wrt_append)
qed

text \<open>
  C5: a lookup returns what its filter asks for. Under any schedule, the products are all in the
  table the lookup has read, each selected by the filter as written down without SQL (the JSON
  containment and the rewriting of the regular expressions included), in strictly ascending hash
  order, after the cursor, and never more than 5000; without an offset nothing is skipped: a matching
  product that is missing comes after all the returned ones and the page is full.
\<close>

theorem lookup_returns_selection:
  assumes "store_ok d" "script_all action_ok d" "valid_filter f" "patterns_ok pg f"
    and "QueryProducts pg f d = (Inr ps, d')"
  shows "sorted_wrt (<) (map p_hash ps) \<and> length ps \<le> nat (EffectiveLimit (f_limit f)) \<and> length ps \<le> 5000
     \<and> (\<forall>p \<in> set ps. selects pg f p \<and> p \<in> r_product ` snd ` set (tbl_products d')
          \<and> (f_afterHash f = '''' \<or> f_afterHash f < p_hash p))
     \<and> (f_offset f \<le> 0 \<longrightarrow> (\<forall>p \<in> r_product ` snd ` set (tbl_products d').
          selects pg f p \<and> (f_afterHash f = '''' \<or> f_afterHash f < p_hash p) \<and> p \<notin> set ps
          \<longrightarrow> length ps = nat (EffectiveLimit (f_limit f)) \<and> (\<forall>q \<in> set ps. p_hash q < p_hash p)))"
proof -
  let ?st = "lookup_stmt pg f"
  have scr: "script (snd (?st d)) = script d" for d by simp
  have e: "exec ?st d = (Inr ps, d')" using QueryProducts_success [OF assms(5)] by blast
  obtain d1 where d1: "store_ok d1" "?st d1 = (Inr ps, d')"
    using st.exec_success [OF st.holdsI [OF assms(1,2)] e scr] by blast
  with lookup_page [OF assms(3,4), of d1]
  have ps: "ps = page f (matching pg f d1)" "d' = d1" by simp_all
  have s: "sorted_wrt (<) (map p_hash (matching pg f d1))" by (rule matching_hashes [OF d1(1)])
  have len: "length ps \<le> nat (EffectiveLimit (f_limit f))" by (simp add: ps page_def)
  then have len': "length ps \<le> 5000"
    using EffectiveLimit_max [of "f_limit f"] by (simp add: maxProductLimit_def)
  have mem: "set (page f xs) \<subseteq> {p \<in> set xs. f_afterHash f = '''' \<or> f_afterHash f < p_hash p}" for xs
    by (auto simp: page_def dest!: in_set_takeD in_set_dropD split: if_splits)
  have in_table: "\<forall>p \<in> set ps. selects pg f p \<and> p \<in> r_product ` snd ` set (tbl_products d')
      \<and> (f_afterHash f = '''' \<or> f_afterHash f < p_hash p)"
    using mem [of "matching pg f d1"] unfolding ps set_matching by force
  have complete: "\<forall>p \<in> r_product ` snd ` set (tbl_products d').
      selects pg f p \<and> (f_afterHash f = '''' \<or> f_afterHash f < p_hash p) \<and> p \<notin> set ps
      \<longrightarrow> length ps = nat (EffectiveLimit (f_limit f)) \<and> (\<forall>q \<in> set ps. p_hash q < p_hash p)"
    if "f_offset f \<le> 0"
    using page_complete [OF s _ that] unfolding ps set_matching by force
  show ?thesis using page_sorted [OF s] len len' in_table complete ps(1) by blast
qed

text \<open>
  C14: walking the pages by cursor reads everything. On a table at rest, for every page size a client
  asks for, following \<open>AfterHash\<close> until an empty page returns every selected product exactly once, in
  hash order, and ends after at most one page more than there are products.
\<close>

theorem keyset_walk_complete:
  assumes "valid_filter f" "patterns_ok pg f" "find too_long (f_attrs f) = None" "script d = []"
    and "store_ok d" "f_afterHash f = ''''" "f_offset f \<le> 0"
    and "list_all (\<lambda>(h, x). h \<noteq> '''') (tbl_products d)" "length (matching pg f d) < n"
  shows "keyset_walk n pg f d = matching pg f d"
proof (cases n)
  case (Suc m)
  let ?S = "matching pg f d" and ?L = "nat (EffectiveLimit (f_limit f))"
  have L: "1 \<le> ?L" using EffectiveLimit_pos [of "f_limit f"] by simp
  have q: "QueryProducts pg f d = (Inr (take ?L ?S), d)"
    using assms by (simp add: QueryProducts_page page_def page_offset_def)
  show ?thesis
  proof (cases "?S = []")
    case False
    let ?i = "min ?L (length ?S) - 1"
    have i: "?i < length ?S" "Suc ?i = min ?L (length ?S)" using False L by (cases ?S; simp)+
    have l: "last (take ?L ?S) = ?S ! ?i"
      using False L by (simp add: last_conv_nth min_def)
    have tail: "filter (\<lambda>p. p_hash (?S ! ?i) < p_hash p) ?S = drop ?L ?S"
      using filter_after_nth [OF matching_hashes [OF assms(5)] i(1)] i(2)
      by (simp add: min_def split: if_splits)
    have "?S ! ?i \<in> set ?S" using i(1) by (rule nth_mem)
    then have ne: "p_hash (?S ! ?i) \<noteq> ''''"
      by (rule matching_hash_nonempty [OF assms(5,8)])
    have "length (filter (\<lambda>p. p_hash (?S ! ?i) < p_hash p) ?S) < m"
      unfolding tail using assms(9) Suc L False by (cases ?S; simp)
    then have "keyset_walk m pg (f\<lparr>f_afterHash := p_hash (?S ! ?i)\<rparr>) d = drop ?L ?S"
      using keyset_walk_rest [of "f\<lparr>f_afterHash := p_hash (?S ! ?i)\<rparr>" pg d m] assms tail ne by simp
    with q l False L EffectiveLimit_pos [of "f_limit f"] Suc show ?thesis by simp
  qed (use q Suc in simp)
qed (use assms(9) in simp)

text \<open>
  The legacy offset walk reads the same: advancing the offset by the applied limit until a page
  is empty gives the same products in the same order as the cursor walk.
\<close>

theorem offset_walk_agrees:
  assumes "valid_filter f" "patterns_ok pg f" "find too_long (f_attrs f) = None" "script d = []"
    and "f_afterHash f = ''''" "f_offset f = 0" "length (matching pg f d) < n"
  shows "offset_walk n pg f d = matching pg f d"
  using offset_walk_rest [of f pg d n] assms by simp

text \<open>Concrete lookups for the witnesses.\<close>

definition lookup_filter :: productFilter where
  "lookup_filter = empty_productFilter\<lparr>f_vendor := Some ''aws'', f_service := Some ''AmazonEC2'',
     f_region := Some ''us-east-1'', f_limit := 2,
     f_attrs := [\<lparr>af_key = ''instanceType'', af_value = Some ''m5.large'', af_regex = None\<rparr>,
                 \<lparr>af_key = ''usagetype'', af_value = None, af_regex = Some ''/Box/i''\<rparr>]\<rparr>"

definition literal_pg :: pg_regex where
  "literal_pg ci pat = Some (\<lambda>v. contains (if ci then to_lower v else v) (if ci then to_lower pat else pat))"

definition lookup_db :: db where
  "lookup_db = (fresh_db 1 [])\<lparr>tbl_products :=
     map (\<lambda>(h, u). (h, \<lparr>r_product = \<lparr>p_hash = h, p_sku = ''s'', p_vendor = ''aws'', p_region = ''us-east-1'',
        p_service = ''AmazonEC2'', p_family = ''Compute Instance'',
        p_attrs = [(''instanceType'', ''m5.large''), (''usagetype'', u)], p_prices = []\<rparr>, r_updated = 0\<rparr>))
     [(''c'', ''BoxUsage''), (''a'', ''boxusage''), (''d'', ''Global-Box''), (''b'', ''Box''), (''e'', ''Other'')]\<rparr>"

lemma lookup_facts:
  "store_ok lookup_db" "script_all action_ok lookup_db" "valid_filter lookup_filter"
  "find too_long (f_attrs lookup_filter) = None" "script lookup_db = []" "f_afterHash lookup_filter = ''''"
  "f_offset lookup_filter = 0" "list_all (\<lambda>(h, x). h \<noteq> '''') (tbl_products lookup_db)"
  "map p_hash (matching literal_pg lookup_filter lookup_db) = [''a'', ''b'', ''c'']"
  by code_simp+

lemma lookup_patterns: "patterns_ok literal_pg lookup_filter"
proof -
  have "pattern_ok literal_pg c" for c
    by (cases c) (simp_all add: pattern_ok_def literal_pg_def)
  then show ?thesis by (simp add: patterns_ok_def list_all_iff)
qed

lemma lookup_length: "length (matching literal_pg lookup_filter lookup_db) = 3"
  using arg_cong [OF lookup_facts(9), of length] by simp

theorem lookup_returns_selection_witness:
  "map p_hash (case fst (QueryProducts literal_pg lookup_filter lookup_db) of Inr ps \<Rightarrow> ps | Inl e \<Rightarrow> [])
     = [''a'', ''b''] \<and> sorted_wrt (<) (map p_hash (case fst (QueryProducts literal_pg lookup_filter lookup_db)
         of Inr ps \<Rightarrow> ps | Inl e \<Rightarrow> []))"
proof -
  let ?q = "QueryProducts literal_pg lookup_filter lookup_db"
  have "map p_hash (case fst ?q of Inr ps \<Rightarrow> ps | Inl e \<Rightarrow> []) = [''a'', ''b'']" by code_simp
  moreover obtain ps d' where "?q = (Inr ps, d')"
    using QueryProducts_page [OF lookup_facts(3) lookup_patterns lookup_facts(4,5)] by blast
  ultimately show ?thesis
    using lookup_returns_selection [OF lookup_facts(1,2,3) lookup_patterns] by simp
qed

theorem keyset_walk_complete_witness:
  "map p_hash (keyset_walk 4 literal_pg lookup_filter lookup_db) = [''a'', ''b'', ''c'']"
  using lookup_length keyset_walk_complete [OF lookup_facts(3) lookup_patterns lookup_facts(4,5,1,6) _ lookup_facts(8), of 4]
    lookup_facts(7,9) by simp

theorem offset_walk_agrees_witness:
  "offset_walk 9 literal_pg lookup_filter lookup_db = matching literal_pg lookup_filter lookup_db"
  using lookup_length offset_walk_agrees [OF lookup_facts(3) lookup_patterns lookup_facts(4,5,6,7)] by simp

subsection \<open>The text of a lookup\<close>

text \<open>What the shape of the SQL text may depend on: which filters are set, never their values.\<close>

definition attribute_shape :: "attributeFilter \<Rightarrow> nat" where
  "attribute_shape af =
     (case (af_value af, af_regex af) of
        (Some v, _) \<Rightarrow> 0
      | (None, None) \<Rightarrow> 1
      | (None, Some r) \<Rightarrow> (case parseRegexForPostgres r of (p, ci) \<Rightarrow>
          if p = '''' then 1 else if ci then 2 else 3))"

definition shape :: "productFilter \<Rightarrow> bool list \<times> nat list" where
  "shape f = ([f_vendor f = None, f_service f = None, f_family f = None, f_region f = None, f_sku f = None,
      f_afterHash f = '''', f_offset f > 0], filter (\<lambda>n. n \<noteq> 1) (map attribute_shape (f_attrs f)))"

definition blank :: "clause \<Rightarrow> clause" where
  "blank c = (case c of ColumnEq col v \<Rightarrow> ColumnEq col '''' | NotGlobal \<Rightarrow> NotGlobal
     | Contains j \<Rightarrow> Contains '''' | Matches ci k p \<Rightarrow> Matches ci '''' '''' | After h \<Rightarrow> After '''')"

lemma render_blank: "render i (map blank cs) = render i cs"
proof (induction cs arbitrary: i)
  case (Cons c cs)
  have "clause_text i (blank c) = clause_text i c" "length (clause_args (blank c)) = length (clause_args c)"
    by (simp_all add: blank_def clause_text_def clause_args_def split: clause.split)
  with Cons show ?case by simp
qed simp

lemma length_args_blank: "length (args_of (map blank cs)) = length (args_of cs)"
  by (induction cs) (simp_all add: blank_def clause_args_def split: clause.split)

lemma blank_attributes:
  "map blank (concat (map attribute_clause afs)) =
   map (\<lambda>n. if n = 0 then Contains '''' else Matches (n = 2) '''' '''')
     (filter (\<lambda>n. n \<noteq> 1) (map attribute_shape afs))"
  by (induction afs)
    (auto simp: attribute_shape_def attribute_clause_def blank_def split: option.split prod.split)

lemma shape_clauses:
  assumes "shape f = shape g"
  shows "map blank (filter_clauses f) = map blank (filter_clauses g)"
proof -
  have e: "map blank (eq_clause col u) = map blank (eq_clause col v)" if "(u = None) = (v = None)" for col u v
    using that by (auto simp: eq_clause_def blank_def split: option.split)
  have r: "map blank (case u of None \<Rightarrow> [] | Some v \<Rightarrow> [ColumnEq ''region'' v, NotGlobal])
      = map blank (case v of None \<Rightarrow> [] | Some v \<Rightarrow> [ColumnEq ''region'' v, NotGlobal])" if "(u = None) = (v = None)" for u v
    using that by (auto simp: blank_def split: option.split)
  have s: "(f_vendor f = None) = (f_vendor g = None)" "(f_service f = None) = (f_service g = None)"
    "(f_family f = None) = (f_family g = None)" "(f_region f = None) = (f_region g = None)"
    "(f_sku f = None) = (f_sku g = None)" "(f_afterHash f = '''') = (f_afterHash g = '''')"
    "filter (\<lambda>n. n \<noteq> 1) (map attribute_shape (f_attrs f)) = filter (\<lambda>n. n \<noteq> 1) (map attribute_shape (f_attrs g))"
    using assms by (simp_all add: shape_def)
  show ?thesis
    using e [OF s(1)] e [OF s(2)] e [OF s(3)] r [OF s(4)] e [OF s(5)] s(6,7)
    by (simp add: filter_clauses_def where_clauses_def blank_attributes del: filter_map)
      (simp add: blank_def)
qed

text \<open>
  No value reaches the SQL text. Two filters that set the same fields (with attribute filters of
  the same kinds) are rendered to the same text: vendor names, attribute keys, JSON and patterns are
  only ever passed as arguments, so no filter value can inject SQL.
\<close>

theorem query_text_parametric:
  assumes "shape f = shape g"
    and "buildProductQuery f = Inr (qf, af)" "buildProductQuery g = Inr (qg, ag)"
  shows "qf = qg \<and> length af = length ag"
proof -
  have n: "find too_long (f_attrs h) = None" if "buildProductQuery h = Inr x" for h x
    using that by (auto simp: buildProductQuery_def split: option.splits)
  note b = shape_clauses [OF assms(1)]
  have p: "page_text i f = page_text i g" "length (page_args f) = length (page_args g)" for i
    using assms(1) by (auto simp: page_text_def page_args_def shape_def)
  show ?thesis
    using build_prints [OF n [OF assms(2)]] build_prints [OF n [OF assms(3)]] assms(2,3) p
      render_blank [of 1 "filter_clauses f"] render_blank [of 1 "filter_clauses g"]
      length_args_blank [of "filter_clauses f"] length_args_blank [of "filter_clauses g"] b
    by auto
qed

theorem query_text_parametric_witness:
  "fst (projr (buildProductQuery lookup_filter))
     = fst (projr (buildProductQuery (lookup_filter\<lparr>f_vendor := Some ''x'' \<rparr>)))"
proof -
  have "isl (buildProductQuery lookup_filter) = False"
    "isl (buildProductQuery (lookup_filter\<lparr>f_vendor := Some ''x'' \<rparr>)) = False" by code_simp+
  then obtain q a q' a' where b: "buildProductQuery lookup_filter = Inr (q, a)"
    "buildProductQuery (lookup_filter\<lparr>f_vendor := Some ''x'' \<rparr>) = Inr (q', a')"
    by (metis isl_def sum.exhaust_sel surj_pair)
  have "shape lookup_filter = shape (lookup_filter\<lparr>f_vendor := Some ''x'' \<rparr>)" by code_simp
  from query_text_parametric [OF this b] b show ?thesis by simp
qed

end
