(* ===== verification/Resolver.thy ===== *)
theory Resolver
  imports Product_Query
begin

text \<open>
  The GraphQL surface: \<^verbatim>\<open>internal/graphql/limits.go\<close> (the guard on broad filters and the budget of a
  request) and the resolvers of \<^verbatim>\<open>internal/graphql/schema.go\<close>. The GraphQL library parses and
  validates documents; what it hands to a resolver are argument values (\<open>gval\<close>). The database is
  reached through the interface \<open>ProductQuerier\<close>: the locale \<open>product_querier\<close>, interpreted on
  \<open>QueryProducts\<close>.
\<close>

subsection \<open>Argument values\<close>

datatype gval = GNull | GStr string | GInt int | GOther string | GList "gval list"
  | GMap "(string \<times> gval) list"

type_synonym gmap = "(string \<times> gval) list"

text \<open>\<open>v, ok := m[k].(string)\<close> and its siblings.\<close>

definition get_string :: "gmap \<Rightarrow> string \<Rightarrow> string option" where
  "get_string m k = (case map_of m k of Some (GStr s) \<Rightarrow> Some s | _ \<Rightarrow> None)"

definition get_int :: "gval option \<Rightarrow> int option" where
  "get_int v = (case v of Some (GInt n) \<Rightarrow> Some n | _ \<Rightarrow> None)"

definition parse_attribute :: "gval \<Rightarrow> attributeFilter list" where
  "parse_attribute a =
     (case a of
        GMap am \<Rightarrow>
          [\<lparr>af_key = (case get_string am ''key'' of None \<Rightarrow> '''' | Some k \<Rightarrow> k),
            af_value = get_string am ''value'', af_regex = get_string am ''value_regex''\<rparr>]
      | _ \<Rightarrow> [])"

definition parseProductFilter :: "gmap \<Rightarrow> productFilter" where
  "parseProductFilter m =
     empty_productFilter
       \<lparr>f_vendor := get_string m ''vendorName'',
        f_service := get_string m ''service'',
        f_family := get_string m ''productFamily'',
        f_region := get_string m ''region'',
        f_sku := get_string m ''sku'',
        f_attrs := (case map_of m ''attributeFilters'' of
                      Some (GList attrs) \<Rightarrow> concat (map parse_attribute attrs) | _ \<Rightarrow> [])\<rparr>"

definition parsePriceFilter :: "gmap \<Rightarrow> priceFilter" where
  "parsePriceFilter m =
     \<lparr>pf_purchaseOption = get_string m ''purchaseOption'', pf_unit = get_string m ''unit'',
      pf_description = get_string m ''description'', pf_descriptionRegex = get_string m ''description_regex'',
      pf_startUsage = get_string m ''startUsageAmount'', pf_endUsage = get_string m ''endUsageAmount'',
      pf_termLength = get_string m ''termLength'', pf_termPurchaseOption = get_string m ''termPurchaseOption'',
      pf_termOfferingClass = get_string m ''termOfferingClass''\<rparr>"

subsection \<open>The guard and the budget\<close>

definition ErrFilterTooBroad :: string where
  "ErrFilterTooBroad = ''products filter must set both vendorName and service''"

definition validateProductFilter :: "productFilter \<Rightarrow> string option" where
  "validateProductFilter f =
     (if f_vendor f = None \<or> f_vendor f = Some '''' \<or> f_service f = None \<or> f_service f = Some ''''
      then Some ErrFilterTooBroad else None)"

record requestBudget =
  productsLeft :: int
  queriesLeft :: int

definition NewRequestBudget :: "int \<Rightarrow> int \<Rightarrow> requestBudget" where
  "NewRequestBudget maxProducts maxQueries =
     \<lparr>productsLeft = (if maxProducts \<le> 0 then -1 else maxProducts),
      queriesLeft = (if maxQueries \<le> 0 then -1 else maxQueries)\<rparr>"

definition reserve :: "int \<Rightarrow> requestBudget \<Rightarrow> (string + int) \<times> requestBudget" where
  "reserve limit b =
     (if queriesLeft b = 0 then (Inl ''request exceeds the maximum number of products queries'', b)
      else if productsLeft b = 0 then (Inl ''request exceeds the maximum number of products returned'', b)
      else
        (let b = (if queriesLeft b > 0 then b\<lparr>queriesLeft := queriesLeft b - 1\<rparr> else b) in
         if productsLeft b > 0
         then (let limit = (if limit > productsLeft b then productsLeft b else limit)
               in (Inr limit, b\<lparr>productsLeft := productsLeft b - limit\<rparr>))
         else (Inr limit, b)))"

definition refund :: "int \<Rightarrow> int \<Rightarrow> requestBudget \<Rightarrow> requestBudget" where
  "refund reserved used b =
     (if used \<ge> reserved then b
      else if productsLeft b \<ge> 0 then b\<lparr>productsLeft := productsLeft b + (reserved - used)\<rparr> else b)"

subsection \<open>The resolvers\<close>

record products_args =
  arg_filter :: gmap
  arg_limit :: "gval option"
  arg_offset :: "gval option"

text \<open>The filter a products field asks for, with its pagination arguments.\<close>

definition requested_filter :: "products_args \<Rightarrow> productFilter" where
  "requested_filter a =
     (let f = parseProductFilter (arg_filter a);
          f = (case get_int (arg_limit a) of None \<Rightarrow> f | Some n \<Rightarrow> f\<lparr>f_limit := n\<rparr>)
      in (case get_int (arg_offset a) of None \<Rightarrow> f | Some n \<Rightarrow> f\<lparr>f_offset := n\<rparr>))"

definition resolve_products ::
  "(productFilter \<Rightarrow> 'd \<Rightarrow> (string + product list) \<times> 'd) \<Rightarrow> requestBudget option \<Rightarrow> products_args \<Rightarrow> 'd
     \<Rightarrow> (string + product list) \<times> requestBudget option \<times> 'd" where
  "resolve_products query budget a d =
     (case validateProductFilter (parseProductFilter (arg_filter a)) of
        Some e \<Rightarrow> (Inl e, budget, d)
      | None \<Rightarrow>
          (let f = requested_filter a in
           case budget of
             None \<Rightarrow> (case query f d of (r, d) \<Rightarrow> (r, None, d))
           | Some b \<Rightarrow>
               (case reserve (EffectiveLimit (f_limit f)) b of
                  (Inl e, b) \<Rightarrow> (Inl e, Some b, d)
                | (Inr reserved, b) \<Rightarrow>
                    (case query (f\<lparr>f_limit := reserved\<rparr>) d of
                       (r, d) \<Rightarrow>
                         (let products = (case r of Inl e \<Rightarrow> [] | Inr ps \<Rightarrow> ps)
                          in (r, Some (refund reserved (int (length products)) b), d))))))"

text \<open>The \<open>attributes\<close> field: the pairs of the map in key order.\<close>

definition resolve_attributes :: "product \<Rightarrow> (string \<times> string) list" where
  "resolve_attributes p =
     map (\<lambda>k. (k, attr_get (p_attrs p) k)) (sort (remdups (map fst (p_attrs p))))"

text \<open>The \<open>prices\<close> field, filtered only when a filter was given.\<close>

definition resolve_prices ::
  "engine \<Rightarrow> re_cache \<Rightarrow> product \<Rightarrow> gval option \<Rightarrow> price list option \<times> re_cache" where
  "resolve_prices re cache p arg =
     (case arg of
        Some (GMap m) \<Rightarrow> FilterPrices re cache (p_prices p) (Some (parsePriceFilter m))
      | _ \<Rightarrow> (Some (p_prices p), cache))"

subsection \<open>The budget as a state machine\<close>

text \<open>
  Resolvers of one request may interleave (the budget has a mutex): a field reserves, and settles
  when its lookup has returned. \<open>budget_state\<close> adds to the budget the open reservations, the
  products returned and the lookups made so far.
\<close>

record budget_state =
  bs_budget :: requestBudget
  bs_open :: "int list"
  bs_returned :: int
  bs_queries :: int

inductive budget_step :: "budget_state \<Rightarrow> budget_state \<Rightarrow> bool" where
  Grant: "1 \<le> limit \<Longrightarrow> reserve limit b = (Inr n, b') \<Longrightarrow>
    budget_step \<lparr>bs_budget = b, bs_open = os, bs_returned = r, bs_queries = q\<rparr>
      \<lparr>bs_budget = b', bs_open = n # os, bs_returned = r, bs_queries = q + 1\<rparr>"
| Refuse: "reserve limit b = (Inl e, b') \<Longrightarrow>
    budget_step \<lparr>bs_budget = b, bs_open = os, bs_returned = r, bs_queries = q\<rparr>
      \<lparr>bs_budget = b', bs_open = os, bs_returned = r, bs_queries = q\<rparr>"
| Settle: "n \<in> set os \<Longrightarrow> 0 \<le> used \<Longrightarrow> used \<le> n \<Longrightarrow>
    budget_step \<lparr>bs_budget = b, bs_open = os, bs_returned = r, bs_queries = q\<rparr>
      \<lparr>bs_budget = refund n used b, bs_open = remove1 n os, bs_returned = r + used, bs_queries = q\<rparr>"

inductive_cases budget_stepE: "budget_step s t"

definition budget_init :: "int \<Rightarrow> int \<Rightarrow> budget_state" where
  "budget_init maxProducts maxQueries =
     \<lparr>bs_budget = NewRequestBudget maxProducts maxQueries, bs_open = [], bs_returned = 0, bs_queries = 0\<rparr>"

abbreviation budget_steps :: "budget_state \<Rightarrow> budget_state \<Rightarrow> bool" where
  "budget_steps \<equiv> budget_step\<^sup>*\<^sup>*"

definition budget_inv :: "int \<Rightarrow> int \<Rightarrow> budget_state \<Rightarrow> bool" where
  "budget_inv P Q s \<longleftrightarrow>
     list_all (\<lambda>n. 1 \<le> n) (bs_open s) \<and> 0 \<le> bs_returned s
     \<and> (if P \<le> 0 then productsLeft (bs_budget s) = -1
        else 0 \<le> productsLeft (bs_budget s)
          \<and> productsLeft (bs_budget s) + sum_list (bs_open s) + bs_returned s = P)
     \<and> (if Q \<le> 0 then queriesLeft (bs_budget s) = -1
        else 0 \<le> queriesLeft (bs_budget s) \<and> queriesLeft (bs_budget s) + bs_queries s = Q)"

lemma budget_inv_init: "budget_inv P Q (budget_init P Q)"
  by (simp add: budget_inv_def budget_init_def NewRequestBudget_def)

lemma sum_list_remove1: "n \<in> set xs \<Longrightarrow> sum_list (remove1 n xs) = sum_list xs - (n :: int)"
  by (induction xs) auto

lemma list_all_remove1: "list_all P xs \<Longrightarrow> list_all P (remove1 n xs)"
  by (auto simp: list_all_iff dest: notin_set_remove1)

lemma budget_inv_step: "budget_step s t \<Longrightarrow> budget_inv P Q s \<Longrightarrow> budget_inv P Q t"
proof (erule budget_stepE)
  fix limit b n b' os r q
  assume *: "1 \<le> limit" "reserve limit b = (Inr n, b')" "budget_inv P Q s"
    "s = \<lparr>bs_budget = b, bs_open = os, bs_returned = r, bs_queries = q\<rparr>"
    "t = \<lparr>bs_budget = b', bs_open = n # os, bs_returned = r, bs_queries = q + 1\<rparr>"
  then show ?thesis
    by (auto simp: budget_inv_def reserve_def Let_def split: if_splits)
next
  fix limit b e b' os r q
  assume *: "reserve limit b = (Inl e, b')" "budget_inv P Q s"
    "s = \<lparr>bs_budget = b, bs_open = os, bs_returned = r, bs_queries = q\<rparr>"
    "t = \<lparr>bs_budget = b', bs_open = os, bs_returned = r, bs_queries = q\<rparr>"
  then show ?thesis
    by (auto simp: budget_inv_def reserve_def Let_def split: if_splits)
next
  fix n os used b r q
  assume *: "n \<in> set os" "0 \<le> used" "used \<le> n" "budget_inv P Q s"
    "s = \<lparr>bs_budget = b, bs_open = os, bs_returned = r, bs_queries = q\<rparr>"
    "t = \<lparr>bs_budget = refund n used b, bs_open = remove1 n os, bs_returned = r + used, bs_queries = q\<rparr>"
  then show ?thesis
    using sum_list_remove1 [of n os] list_all_remove1 [of "\<lambda>n. 1 \<le> n" os n]
    by (auto simp: budget_inv_def refund_def split: if_splits)
qed

lemma budget_inv_reachable:
  "budget_steps s t \<Longrightarrow> budget_inv P Q s \<Longrightarrow> budget_inv P Q t"
  by (induction rule: rtranclp_induct) (auto intro: budget_inv_step)

lemma sum_list_ge: "list_all (\<lambda>n. (1 :: int) \<le> n) xs \<Longrightarrow> 0 \<le> sum_list xs"
  by (induction xs) auto

text \<open>
  C17: the budget bounds a request however its fields interleave. In every state reachable from a new
  budget by reserving, being refused and settling in any order, the products returned plus those
  reserved never exceed \<open>maxProducts\<close>, the lookups never exceed \<open>maxQueries\<close>, and once nothing is
  open the unused products are all available again.
\<close>

theorem budget_bounds_interleavings:
  assumes "budget_steps (budget_init maxProducts maxQueries) s"
  shows "(0 < maxProducts \<longrightarrow> bs_returned s + sum_list (bs_open s) \<le> maxProducts)
     \<and> (0 < maxQueries \<longrightarrow> bs_queries s \<le> maxQueries)
     \<and> (0 < maxProducts \<and> bs_open s = [] \<longrightarrow> productsLeft (bs_budget s) = maxProducts - bs_returned s)"
  using budget_inv_reachable [OF assms budget_inv_init] by (auto simp: budget_inv_def)

theorem budget_bounds_interleavings_witness:
  "\<exists>s. budget_steps (budget_init 10 5) s \<and> bs_returned s = 3 \<and> bs_returned s + sum_list (bs_open s) \<le> 10"
proof -
  let ?b = "\<lambda>p q. \<lparr>productsLeft = p, queriesLeft = q\<rparr>"
  let ?s = "\<lambda>b os r q. \<lparr>bs_budget = b, bs_open = os, bs_returned = r, bs_queries = q\<rparr>"
  have r: "reserve 7 (?b 10 5) = (Inr 7, ?b 3 4)" "reserve 7 (?b 3 4) = (Inr 3, ?b 0 3)"
    by (simp_all add: reserve_def)
  have i: "budget_init 10 5 = ?s (?b 10 5) [] 0 0"
    by (simp add: budget_init_def NewRequestBudget_def)
  have "budget_step (?s (?b 10 5) [] 0 0) (?s (?b 3 4) [7] 0 1)"
    using Grant [OF _ r(1), of "[]" 0 0] by simp
  moreover have "budget_step (?s (?b 3 4) [7] 0 1) (?s (?b 0 3) [3, 7] 0 2)"
    using Grant [OF _ r(2), of "[7]" 0 1] by simp
  moreover have "budget_step (?s (?b 0 3) [3, 7] 0 2) (?s (?b 4 3) [3] 3 2)"
    using Settle [of 7 "[3, 7]" 3 "?b 0 3" 0 2] by (simp add: refund_def)
  ultimately have "budget_steps (budget_init 10 5) (?s (?b 4 3) [3] 3 2)"
    unfolding i by (meson rtranclp.rtrancl_refl rtranclp.rtrancl_into_rtrancl)
  with budget_bounds_interleavings [OF this] show ?thesis by force
qed

subsection \<open>The database interface\<close>

definition returned :: "string + product list \<Rightarrow> int" where
  "returned r = (case r of Inl e \<Rightarrow> 0 | Inr ps \<Rightarrow> int (length ps))"

text \<open>All products fields of a request, one after the other.\<close>

fun resolve_all ::
  "(productFilter \<Rightarrow> 'd \<Rightarrow> (string + product list) \<times> 'd) \<Rightarrow> requestBudget option \<Rightarrow> products_args list \<Rightarrow> 'd
    \<Rightarrow> (string + product list) list \<times> requestBudget option \<times> 'd" where
  "resolve_all query b [] d = ([], b, d)"
| "resolve_all query b (a # as) d =
     (case resolve_products query b a d of
        (r, b', d') \<Rightarrow> (case resolve_all query b' as d' of (rs, b'', d'') \<Rightarrow> (r # rs, b'', d'')))"

text \<open>\<open>ProductQuerier\<close>: a lookup respects the limit it is given.\<close>

locale product_querier =
  fixes query :: "productFilter \<Rightarrow> 'd \<Rightarrow> (string + product list) \<times> 'd"
  assumes bounded: "query f d = (Inr ps, d') \<Longrightarrow> int (length ps) \<le> EffectiveLimit (f_limit f)"
begin

lemma reserve_range:
  assumes "reserve (EffectiveLimit n) b = (Inr m, b')" "-1 \<le> productsLeft b"
  shows "1 \<le> m" "m \<le> maxProductLimit"
  using assms EffectiveLimit_pos [of n] EffectiveLimit_max [of n]
  by (auto simp: reserve_def Let_def split: if_splits)

text \<open>A products field is a refusal, or a grant and its settlement.\<close>

lemma resolve_steps:
  assumes "resolve_products query (Some b) a d = (r, b', d')" "-1 \<le> productsLeft b"
  shows "\<exists>b1 k. b' = Some b1 \<and> 0 \<le> k
     \<and> budget_steps \<lparr>bs_budget = b, bs_open = os, bs_returned = n, bs_queries = q\<rparr>
         \<lparr>bs_budget = b1, bs_open = os, bs_returned = n + returned r, bs_queries = q + k\<rparr>"
proof (cases "validateProductFilter (parseProductFilter (arg_filter a))")
  case (Some e)
  with assms(1) show ?thesis
    by (auto simp: resolve_products_def returned_def intro!: exI [of _ "0 :: int"])
next
  case None
  let ?f = "requested_filter a"
  obtain x b2 where res: "reserve (EffectiveLimit (f_limit ?f)) b = (x, b2)" by fastforce
  show ?thesis
  proof (cases x)
    case (Inl e)
    with res have "budget_step \<lparr>bs_budget = b, bs_open = os, bs_returned = n, bs_queries = q\<rparr>
        \<lparr>bs_budget = b2, bs_open = os, bs_returned = n, bs_queries = q\<rparr>"
      by (auto intro: Refuse)
    with assms(1) None res Inl show ?thesis
      by (auto simp: resolve_products_def returned_def intro!: exI [of _ "0 :: int"])
  next
    case (Inr m)
    obtain y d2 where qu: "query (?f\<lparr>f_limit := m\<rparr>) d = (y, d2)" by fastforce
    have m: "1 \<le> m" "m \<le> maxProductLimit"
      using reserve_range res Inr assms(2) by auto
    have ret: "0 \<le> returned y" "returned y \<le> m"
      using bounded [of "?f\<lparr>f_limit := m\<rparr>" d _ d2] qu m
      by (auto simp: returned_def EffectiveLimit_id split: sum.split)
    have "budget_step \<lparr>bs_budget = b, bs_open = os, bs_returned = n, bs_queries = q\<rparr>
        \<lparr>bs_budget = b2, bs_open = m # os, bs_returned = n, bs_queries = q + 1\<rparr>"
      using Grant [OF EffectiveLimit_pos] res Inr by simp
    moreover have "budget_step \<lparr>bs_budget = b2, bs_open = m # os, bs_returned = n, bs_queries = q + 1\<rparr>
        \<lparr>bs_budget = refund m (returned y) b2, bs_open = os, bs_returned = n + returned y, bs_queries = q + 1\<rparr>"
      using Settle [of m "m # os" "returned y" b2 n "q + 1"] ret by simp
    moreover have "r = y" "b' = Some (refund m (returned y) b2)"
      using assms(1) None res Inr qu
      by (auto simp: resolve_products_def returned_def Let_def split: sum.splits)
    ultimately show ?thesis by (auto intro!: exI [of _ "1 :: int"])
  qed
qed

lemma resolve_all_steps:
  assumes "resolve_all query (Some b) as d = (rs, b', d')"
    and "budget_inv P Q \<lparr>bs_budget = b, bs_open = [], bs_returned = n, bs_queries = q\<rparr>"
  shows "\<exists>b1 k. b' = Some b1
     \<and> budget_inv P Q \<lparr>bs_budget = b1, bs_open = [], bs_returned = n + sum_list (map returned rs), bs_queries = k\<rparr>"
  using assms
proof (induction as arbitrary: b d rs n q)
  case Nil
  then show ?case by auto
next
  case (Cons a as)
  obtain r b2 d2 where 1: "resolve_products query (Some b) a d = (r, b2, d2)"
    by (cases "resolve_products query (Some b) a d") auto
  have "-1 \<le> productsLeft b" using Cons.prems(2) by (auto simp: budget_inv_def split: if_splits)
  from resolve_steps [OF 1 this] obtain b1 k where
    2: "b2 = Some b1" "budget_steps \<lparr>bs_budget = b, bs_open = [], bs_returned = n, bs_queries = q\<rparr>
         \<lparr>bs_budget = b1, bs_open = [], bs_returned = n + returned r, bs_queries = q + k\<rparr>" by blast
  obtain rs' where 3: "rs = r # rs'" "resolve_all query (Some b1) as d2 = (rs', b', d')"
    using Cons.prems(1) 1 2(1) by (auto split: prod.splits)
  from Cons.IH [OF 3(2) budget_inv_reachable [OF 2(2) Cons.prems(2)]] 3(1)
  show ?case by (auto simp: add.assoc)
qed

lemma resolve_all_bound:
  assumes "resolve_all query (Some (NewRequestBudget P Q)) as d = (rs, b', d')" "0 < P"
  shows "sum_list (map returned rs) \<le> P"
proof -
  have "budget_inv P Q \<lparr>bs_budget = NewRequestBudget P Q, bs_open = [], bs_returned = 0, bs_queries = 0\<rparr>"
    using budget_inv_init [of P Q] by (simp add: budget_init_def)
  from resolve_all_steps [OF assms(1) this] obtain b1 k where
    "budget_inv P Q \<lparr>bs_budget = b1, bs_open = [], bs_returned = sum_list (map returned rs), bs_queries = k\<rparr>"
    by auto
  with assms(2) show ?thesis by (simp add: budget_inv_def)
qed

end

lemma QueryProducts_bounded:
  assumes "QueryProducts pg f d = (Inr ps, d')"
  shows "int (length ps) \<le> EffectiveLimit (f_limit f)"
proof -
  have "exec (lookup_stmt pg f) d = (Inr ps, d')" using QueryProducts_success [OF assms] by blast
  then obtain d1 where "lookup_stmt pg f d1 = (Inr ps, d')"
    by (auto simp: exec_def Let_def split: list.splits prod.splits outcome.splits)
  then have "length ps \<le> nat (EffectiveLimit (f_limit f))"
    by (auto simp: lookup_stmt_def sql_select_def Let_def split: if_splits)
  with EffectiveLimit_pos [of "f_limit f"] show ?thesis by linarith
qed

interpretation qp: product_querier "QueryProducts pg" for pg
  by unfold_locales (rule QueryProducts_bounded)

subsection \<open>The properties of the resolvers\<close>

text \<open>
  The cap on a request holds end to end. However many products fields a request has (aliases,
  batch items), whatever limits they ask for and whatever the database does between them, the
  products they return together never exceed the budget the server gave the request.
\<close>

theorem request_products_bounded:
  assumes "resolve_all (QueryProducts pg) (Some (NewRequestBudget maxProducts maxQueries)) as d = (rs, b, d')"
    and "0 < maxProducts"
  shows "sum_list (map returned rs) \<le> maxProducts"
  by (rule qp.resolve_all_bound [OF assms])

definition sample_fields :: "products_args list" where
  "sample_fields = replicate 3 \<lparr>arg_filter = [(''vendorName'', GStr ''aws''), (''service'', GStr ''AmazonEC2'')],
     arg_limit = Some (GInt 0), arg_offset = None\<rparr>"

theorem request_products_bounded_witness:
  "map returned (fst (resolve_all (QueryProducts literal_pg) (Some (NewRequestBudget 7 5)) sample_fields lookup_db))
     = [5, 2, 0]
   \<and> sum_list (map returned (fst (resolve_all (QueryProducts literal_pg) (Some (NewRequestBudget 7 5))
        sample_fields lookup_db))) \<le> 7"
proof -
  let ?r = "resolve_all (QueryProducts literal_pg) (Some (NewRequestBudget 7 5)) sample_fields lookup_db"
  obtain rs b d' where r: "?r = (rs, b, d')" by (cases ?r) auto
  have "map returned (fst ?r) = [5, 2, 0]" by code_simp
  with request_products_bounded [OF r] r show ?thesis by simp
qed

definition too_broad :: "products_args \<Rightarrow> bool" where
  "too_broad a \<longleftrightarrow> get_string (arg_filter a) ''vendorName'' \<in> {None, Some ''''}
     \<or> get_string (arg_filter a) ''service'' \<in> {None, Some ''''}"

lemma requested_filter_fields:
  "f_vendor (parseProductFilter (arg_filter a)) = get_string (arg_filter a) ''vendorName''"
  "f_service (parseProductFilter (arg_filter a)) = get_string (arg_filter a) ''service''"
  "f_vendor (requested_filter a) = get_string (arg_filter a) ''vendorName''"
  "f_service (requested_filter a) = get_string (arg_filter a) ''service''"
  by (simp_all add: parseProductFilter_def requested_filter_def Let_def split: option.split)

lemma validate_too_broad:
  "validateProductFilter (parseProductFilter (arg_filter a)) = (if too_broad a then Some ErrFilterTooBroad else None)"
  by (auto simp: validateProductFilter_def too_broad_def requested_filter_fields)

lemma EffectiveLimit_range: "EffectiveLimit n \<in> {1..5000}"
  using EffectiveLimit_pos [of n] EffectiveLimit_max [of n] by (simp add: maxProductLimit_def)

text \<open>A field that passes the check ends before the lookup, or is one lookup with the requested filter and a limit.\<close>

lemma admitted_field:
  assumes "\<not> too_broad a" "resolve_products query budget a d = (r, budget', d')"
  shows "d' = d \<and> isl r
    \<or> (\<exists>n. query ((requested_filter a)\<lparr>f_limit := n\<rparr>) d = (r, d'))"
proof (cases budget)
  case None
  then have "query ((requested_filter a)\<lparr>f_limit := f_limit (requested_filter a)\<rparr>) d = (r, d')"
    using assms by (simp add: resolve_products_def validate_too_broad split: prod.splits)
  then show ?thesis by blast
next
  case (Some b)
  then show ?thesis
    using assms by (auto simp: resolve_products_def validate_too_broad Let_def split: prod.splits sum.splits)
qed

text \<open>
  C18: a products field that does not name both a vendor and a service never reaches the database and
  never touches the budget; every field that reaches it is executed with the vendor and service it
  named and with a limit between 1 and 5000.
\<close>

theorem broad_filters_rejected:
  "case resolve_products query budget a d of (r, budget', d') \<Rightarrow>
     if get_string (arg_filter a) ''vendorName'' \<in> {None, Some ''''}
        \<or> get_string (arg_filter a) ''service'' \<in> {None, Some ''''}
     then r = Inl ErrFilterTooBroad \<and> budget' = budget \<and> d' = d
     else d' = d \<and> isl r
        \<or> (\<exists>f. query f d = (r, d') \<and> f_vendor f = get_string (arg_filter a) ''vendorName''
             \<and> f_service f = get_string (arg_filter a) ''service''
             \<and> EffectiveLimit (f_limit f) \<in> {1..5000})"
proof -
  obtain r budget' d' where r: "resolve_products query budget a d = (r, budget', d')"
    by (cases "resolve_products query budget a d") auto
  show ?thesis
  proof (cases "too_broad a")
    case True
    then have "resolve_products query budget a d = (Inl ErrFilterTooBroad, budget, d)"
      by (simp add: resolve_products_def validate_too_broad)
    with True [unfolded too_broad_def] show ?thesis by (simp only: prod.case if_True simp_thms)
  next
    case False
    have "f_vendor ((requested_filter a)\<lparr>f_limit := n\<rparr>) = get_string (arg_filter a) ''vendorName''"
      "f_service ((requested_filter a)\<lparr>f_limit := n\<rparr>) = get_string (arg_filter a) ''service''" for n
      by (simp_all add: requested_filter_fields)
    then have "d' = d \<and> isl r
        \<or> (\<exists>f. query f d = (r, d') \<and> f_vendor f = get_string (arg_filter a) ''vendorName''
             \<and> f_service f = get_string (arg_filter a) ''service'' \<and> EffectiveLimit (f_limit f) \<in> {1..5000})"
      using admitted_field [OF False r] EffectiveLimit_range by blast
    with False [unfolded too_broad_def] r show ?thesis by (simp only: prod.case if_False)
  qed
qed

text \<open>Writing a filter back as an argument map.\<close>

definition put_string :: "string \<Rightarrow> string option \<Rightarrow> gmap" where
  "put_string k v = (case v of None \<Rightarrow> [] | Some s \<Rightarrow> [(k, GStr s)])"

definition attribute_map :: "attributeFilter \<Rightarrow> gval" where
  "attribute_map af = GMap ((''key'', GStr (af_key af)) # put_string ''value'' (af_value af)
     @ put_string ''value_regex'' (af_regex af))"

definition filter_map_of :: "productFilter \<Rightarrow> gmap" where
  "filter_map_of f =
     put_string ''vendorName'' (f_vendor f) @ put_string ''service'' (f_service f)
     @ put_string ''productFamily'' (f_family f) @ put_string ''region'' (f_region f)
     @ put_string ''sku'' (f_sku f) @ [(''attributeFilters'', GList (map attribute_map (f_attrs f)))]"

definition price_map_of :: "priceFilter \<Rightarrow> gmap" where
  "price_map_of f =
     put_string ''purchaseOption'' (pf_purchaseOption f) @ put_string ''unit'' (pf_unit f)
     @ put_string ''description'' (pf_description f) @ put_string ''description_regex'' (pf_descriptionRegex f)
     @ put_string ''startUsageAmount'' (pf_startUsage f) @ put_string ''endUsageAmount'' (pf_endUsage f)
     @ put_string ''termLength'' (pf_termLength f) @ put_string ''termPurchaseOption'' (pf_termPurchaseOption f)
     @ put_string ''termOfferingClass'' (pf_termOfferingClass f)"

lemma get_put_append:
  "get_string (put_string k v @ m) k' = (if k' = k \<and> v \<noteq> None then v else get_string m k')"
  "map_of (put_string k v @ m) k' = (if k' = k \<and> v \<noteq> None then map_option GStr v else map_of m k')"
  by (auto simp: put_string_def get_string_def split: option.split)

lemma get_string_simps:
  "get_string [] k = None"
  "get_string ((k', GStr s) # m) k = (if k = k' then Some s else get_string m k)"
  "get_string ((k', GList x) # m) k = (if k = k' then None else get_string m k)"
  by (simp_all add: get_string_def)

lemma put_string_get: "get_string (put_string k v) k' = (if k' = k then v else None)"
  using get_put_append(1) [of k v "[]" k'] by (auto simp: get_string_simps)

lemma parse_attribute_map: "parse_attribute (attribute_map af) = [af]"
  by (simp add: parse_attribute_def attribute_map_def get_string_simps get_put_append put_string_get)

text \<open>
  No field of a filter is lost or mistaken for another on the way in. Parsing the argument map
  that writes out a product filter (a price filter) gives back the filter, attribute filters
  included, in order.
\<close>

theorem filters_parse_back:
  "parseProductFilter (filter_map_of f) = f\<lparr>f_limit := 0, f_offset := 0, f_afterHash := ''''\<rparr>
   \<and> parsePriceFilter (price_map_of g) = g"
proof -
  have a: "concat (map (parse_attribute \<circ> attribute_map) afs) = afs" for afs
    by (induction afs) (simp_all add: parse_attribute_map)
  have "parseProductFilter (filter_map_of f) = f\<lparr>f_limit := 0, f_offset := 0, f_afterHash := ''''\<rparr>"
    using a [of "f_attrs f"]
    by (cases f) (simp add: parseProductFilter_def filter_map_of_def empty_productFilter_def get_put_append
        get_string_simps del: map_of_append)
  moreover have "parsePriceFilter (price_map_of g) = g"
    by (cases g) (simp add: parsePriceFilter_def price_map_of_def get_put_append put_string_get)
  ultimately show ?thesis ..
qed

end
