(* ===== verification/Query_Guard.thy ===== *)
theory Query_Guard
  imports Go_Strings
begin

text \<open>
  The checks \<open>handleGraphQL\<close> makes on a parsed document before it is executed:
  \<open>computeQueryDepthFromAST\<close> and \<open>astContainsIntrospection\<close> of \<^verbatim>\<open>internal/server/server.go\<close>. The
  parser is the GraphQL library's; \<open>selection\<close> is the part of its syntax tree the walks look at.
  A nil selection set and an empty one are treated alike by both walks, so both are \<open>[]\<close>. The code
  marks a fragment as visited before it descends and unmarks it afterwards, so a call leaves the
  map as it found it: the visited names are an argument here.
\<close>

datatype selection =
    Field string "selection list"
  | InlineFragment "selection list"
  | FragmentSpread string

datatype def_node =
    OperationDefinition "selection list"
  | FragmentDefinition string "selection list"
  | OtherDefinition

type_synonym fragments = "(string \<times> selection list) list"

subsection \<open>The code\<close>

definition fragments_of :: "def_node list \<Rightarrow> fragments" where
  "fragments_of defs = fold (\<lambda>d fs. case d of FragmentDefinition n ss \<Rightarrow> AList.update n ss fs | _ \<Rightarrow> fs) defs []"

function selectionSetDepth :: "fragments \<Rightarrow> string list \<Rightarrow> selection list \<Rightarrow> nat" where
  "selectionSetDepth F V [] = 0"
| "selectionSetDepth F V (Field n ss # sels) =
     max (1 + selectionSetDepth F V ss) (selectionSetDepth F V sels)"
| "selectionSetDepth F V (InlineFragment ss # sels) =
     max (selectionSetDepth F V ss) (selectionSetDepth F V sels)"
| "selectionSetDepth F V (FragmentSpread n # sels) =
     max (if n \<in> set V then 0
          else (case map_of F n of None \<Rightarrow> 0 | Some ss \<Rightarrow> selectionSetDepth F (n # V) ss))
         (selectionSetDepth F V sels)"
  by pat_completeness auto

text \<open>A spread descends into a fragment that was not visited; every other call is on a part.\<close>

definition walk_order :: "((fragments \<times> string list \<times> selection list) \<times> (fragments \<times> string list \<times> selection list)) set" where
  "walk_order = inv_image (less_than <*lex*> less_than)
     (\<lambda>(F, V, ss). (card (fst ` set F - set V), size_list size ss))"

lemma wf_walk_order: "wf walk_order"
  unfolding walk_order_def by (intro wf_inv_image wf_lex_prod wf_less_than)

lemma walk_spread:
  assumes "n \<notin> set V" "map_of F n = Some ss"
  shows "((F, n # V, ss), (F, V, FragmentSpread n # sels)) \<in> walk_order"
proof -
  have "n \<in> fst ` set F - set V" using assms map_of_SomeD by force
  moreover have "fst ` set F - set (n # V) = (fst ` set F - set V) - {n}" by auto
  ultimately have "card (fst ` set F - set (n # V)) < card (fst ` set F - set V)"
    by (metis List.finite_set card_Diff1_less finite_Diff finite_imageI)
  then show ?thesis by (simp add: walk_order_def)
qed

lemma walk_part:
  "((F, V, ss), (F, V, Field n ss # sels)) \<in> walk_order"
  "((F, V, ss), (F, V, InlineFragment ss # sels)) \<in> walk_order"
  "((F, V, sels), (F, V, s # sels)) \<in> walk_order"
  by (simp_all add: walk_order_def)

termination selectionSetDepth
  by (relation walk_order) (simp_all add: wf_walk_order walk_spread walk_part)

function selectionSetHasIntrospection :: "fragments \<Rightarrow> string list \<Rightarrow> selection list \<Rightarrow> bool" where
  "selectionSetHasIntrospection F V [] = False"
| "selectionSetHasIntrospection F V (Field n ss # sels) =
     (if n = ''__schema'' \<or> n = ''__type'' then True
      else if selectionSetHasIntrospection F V ss then True
      else selectionSetHasIntrospection F V sels)"
| "selectionSetHasIntrospection F V (InlineFragment ss # sels) =
     (if selectionSetHasIntrospection F V ss then True else selectionSetHasIntrospection F V sels)"
| "selectionSetHasIntrospection F V (FragmentSpread n # sels) =
     (if n \<in> set V then selectionSetHasIntrospection F V sels
      else (case map_of F n of
              None \<Rightarrow> selectionSetHasIntrospection F V sels
            | Some ss \<Rightarrow> if selectionSetHasIntrospection F (n # V) ss then True
                         else selectionSetHasIntrospection F V sels))"
  by pat_completeness auto
termination selectionSetHasIntrospection
  by (relation walk_order) (simp_all add: wf_walk_order walk_spread walk_part)

definition operations_of :: "def_node list \<Rightarrow> selection list list" where
  "operations_of defs = concat (map (\<lambda>d. case d of OperationDefinition ss \<Rightarrow> [ss] | _ \<Rightarrow> []) defs)"

definition computeQueryDepthFromAST :: "def_node list \<Rightarrow> nat" where
  "computeQueryDepthFromAST defs =
     fold (\<lambda>ss m. let d = selectionSetDepth (fragments_of defs) [] ss in if d > m then d else m)
       (operations_of defs) 0"

definition astContainsIntrospection :: "def_node list \<Rightarrow> bool" where
  "astContainsIntrospection defs =
     list_ex (selectionSetHasIntrospection (fragments_of defs) []) (operations_of defs)"

subsection \<open>Introspection\<close>

text \<open>
  What a field reaches, without any visited set: \<open>reaches F V ss n\<close> when the selections \<open>ss\<close>
  contain a field \<open>n\<close> after expanding fragments other than those of \<open>V\<close>, any number of times.
\<close>

inductive reaches :: "fragments \<Rightarrow> string set \<Rightarrow> selection list \<Rightarrow> string \<Rightarrow> bool" where
  Here: "Field n ss \<in> set sels \<Longrightarrow> reaches F V sels n"
| Below: "Field m ss \<in> set sels \<Longrightarrow> reaches F V ss n \<Longrightarrow> reaches F V sels n"
| Inline: "InlineFragment ss \<in> set sels \<Longrightarrow> reaches F V ss n \<Longrightarrow> reaches F V sels n"
| Spread: "FragmentSpread m \<in> set sels \<Longrightarrow> m \<notin> V \<Longrightarrow> map_of F m = Some ss \<Longrightarrow> reaches F V ss n
    \<Longrightarrow> reaches F V sels n"

inductive_cases reaches_NilE [elim!]: "reaches F V [] n"

lemma reaches_Cons:
  "reaches F V (s # sels) n \<longleftrightarrow> reaches F V [s] n \<or> reaches F V sels n"
proof
  assume "reaches F V (s # sels) n"
  then show "reaches F V [s] n \<or> reaches F V sels n"
    by cases (auto intro: reaches.intros)
next
  assume "reaches F V [s] n \<or> reaches F V sels n"
  then show "reaches F V (s # sels) n"
  proof
    assume "reaches F V [s] n"
    then show ?thesis by cases (auto intro: reaches.intros)
  next
    assume "reaches F V sels n"
    then show ?thesis by cases (auto intro: reaches.intros)
  qed
qed

inductive_simps reaches_one:
  "reaches F V [Field m ss] n" "reaches F V [InlineFragment ss] n" "reaches F V [FragmentSpread m] n"

text \<open>
  A derivation that expands \<open>k\<close> has a last expansion of \<open>k\<close>, from which the target is reached
  without it: this is why skipping visited fragments loses nothing.
\<close>

lemma reaches_avoid:
  "reaches F V ss n \<Longrightarrow> map_of F k = Some body \<Longrightarrow>
   reaches F (insert k V) ss n \<or> reaches F (insert k V) body n"
proof (induction rule: reaches.induct)
  case (Spread m sels V F ss n)
  then show ?case by (cases "m = k") (auto intro: reaches.intros)
qed (auto intro: reaches.intros)

lemma reaches_body:
  "map_of F k = Some body \<Longrightarrow> reaches F V body n \<Longrightarrow> reaches F (insert k V) body n"
  using reaches_avoid by blast

lemma reaches_mono: "reaches F W ss n \<Longrightarrow> V \<subseteq> W \<Longrightarrow> reaches F V ss n"
  by (induction rule: reaches.induct) (auto intro: reaches.intros)

lemma has_introspection_reaches:
  "selectionSetHasIntrospection F V ss \<longleftrightarrow> (\<exists>n \<in> {''__schema'', ''__type''}. reaches F (set V) ss n)"
proof (induction F V ss rule: selectionSetHasIntrospection.induct)
  case (1 F V)
  then show ?case by auto
next
  case (2 F V n ss sels)
  show ?case
    unfolding reaches_Cons [of F "set V" "Field n ss"] reaches_one using 2 by auto
next
  case (3 F V ss sels)
  then show ?case
    unfolding reaches_Cons [of F "set V" "InlineFragment ss"] reaches_one by auto
next
  case (4 F V n sels)
  have body: "reaches F (set V) ss x \<longleftrightarrow> reaches F (set (n # V)) ss x" if "map_of F n = Some ss" for ss x
    using reaches_body [OF that, of "set V" x] reaches_mono [of F "set (n # V)" ss x "set V"] by auto
  show ?case
  proof (cases "n \<notin> set V \<and> map_of F n \<noteq> None")
    case True
    then obtain ss where ss: "n \<notin> set V" "map_of F n = Some ss" by auto
    with 4 body [OF ss(2)] show ?thesis
      unfolding reaches_Cons [of F "set V" "FragmentSpread n"] reaches_one by auto
  next
    case False
    with 4 show ?thesis
      unfolding reaches_Cons [of F "set V" "FragmentSpread n"] reaches_one by auto
  qed
qed

text \<open>
  C19: the introspection guard is exact. A document is refused exactly when some operation reaches a
  field \<open>__schema\<close> or \<open>__type\<close> by expanding inline fragments and fragment spreads any number of
  times, cyclic fragments included: the visited set that makes the walk end hides nothing. The two names
  are all: \<open>ARCHITECTURE.md\<close> also lists \<open>__Type\<close>, which is the name of a type and no field of any schema, and the
  code lets a document through that has only a field of that name.
\<close>

theorem introspection_guard_exact:
  "astContainsIntrospection defs \<longleftrightarrow>
     (\<exists>ss \<in> set (operations_of defs). \<exists>n \<in> {''__schema'', ''__type''}.
        reaches (fragments_of defs) {} ss n)"
  by (simp add: astContainsIntrospection_def list_ex_iff has_introspection_reaches)

subsection \<open>Depth\<close>

text \<open>\<open>nests F k ss\<close>: the selections expand to \<open>k\<close> fields, each inside the one before.\<close>

inductive nests :: "fragments \<Rightarrow> nat \<Rightarrow> selection list \<Rightarrow> bool" for F where
  Zero: "nests F 0 sels"
| Down: "Field n ss \<in> set sels \<Longrightarrow> nests F k ss \<Longrightarrow> nests F (Suc k) sels"
| Into: "InlineFragment ss \<in> set sels \<Longrightarrow> nests F k ss \<Longrightarrow> nests F k sels"
| Through: "FragmentSpread n \<in> set sels \<Longrightarrow> map_of F n = Some ss \<Longrightarrow> nests F k ss \<Longrightarrow> nests F k sels"

fun spreads :: "selection list \<Rightarrow> string set" where
  "spreads [] = {}"
| "spreads (Field n ss # sels) = spreads ss \<union> spreads sels"
| "spreads (InlineFragment ss # sels) = spreads ss \<union> spreads sels"
| "spreads (FragmentSpread n # sels) = insert n (spreads sels)"

text \<open>Documents without fragment cycles (the library's validation refuses the others).\<close>

definition acyclic_fragments :: "fragments \<Rightarrow> (string \<Rightarrow> nat) \<Rightarrow> bool" where
  "acyclic_fragments F rank \<longleftrightarrow>
     (\<forall>n ss m. map_of F n = Some ss \<longrightarrow> m \<in> spreads ss \<longrightarrow> rank m < rank n)"

lemma depth_member:
  "s \<in> set sels \<Longrightarrow> selectionSetDepth F V [s] \<le> selectionSetDepth F V sels"
proof (induction sels)
  case (Cons t sels)
  have "selectionSetDepth F V (t # sels) = max (selectionSetDepth F V [t]) (selectionSetDepth F V sels)"
    by (cases t) auto
  with Cons show ?case by auto
qed simp

lemma spreads_member:
  "Field n ss \<in> set sels \<Longrightarrow> spreads ss \<subseteq> spreads sels"
  "InlineFragment ss \<in> set sels \<Longrightarrow> spreads ss \<subseteq> spreads sels"
  "FragmentSpread n \<in> set sels \<Longrightarrow> n \<in> spreads sels"
  by (induction sels rule: spreads.induct) auto

lemma depth_bounds_nests:
  assumes "acyclic_fragments F rank"
  shows "nests F k ss \<Longrightarrow> \<forall>m \<in> set V. \<forall>n \<in> spreads ss. rank n < rank m \<Longrightarrow> k \<le> selectionSetDepth F V ss"
proof (induction arbitrary: V rule: nests.induct)
  case (Down n ss sels k)
  then have "k \<le> selectionSetDepth F V ss" using spreads_member(1) by blast
  with depth_member [OF Down.hyps(1), of F V] show ?case by simp
next
  case (Into ss sels k)
  then have "k \<le> selectionSetDepth F V ss" using spreads_member(2) by blast
  with depth_member [OF Into.hyps(1), of F V] show ?case by simp
next
  case (Through n sels ss k)
  have r: "\<forall>m \<in> set V. rank n < rank m" using Through.prems spreads_member(3) [OF Through.hyps(1)] by blast
  then have nv: "n \<notin> set V" by blast
  have "\<forall>m \<in> set (n # V). \<forall>x \<in> spreads ss. rank x < rank m"
    using assms Through.hyps(2) r by (fastforce simp: acyclic_fragments_def)
  then have "k \<le> selectionSetDepth F (n # V) ss" by (rule Through.IH)
  with depth_member [OF Through.hyps(1), of F V] nv Through.hyps(2) show ?case by simp
qed simp

lemma nests_member:
  "nests F k ss \<Longrightarrow> set ss \<subseteq> set sels \<Longrightarrow> nests F k sels"
proof (induction arbitrary: sels rule: nests.induct)
  case (Down n ss sels' k)
  then show ?case using nests.Down [of n ss sels F k] by blast
next
  case (Into ss sels' k)
  then show ?case using nests.Into [of ss sels F k] by blast
next
  case (Through n sels' ss k)
  then show ?case using nests.Through [of n sels F ss k] by blast
qed (rule nests.Zero)

lemma nests_depth: "nests F (selectionSetDepth F V ss) ss"
proof (induction F V ss rule: selectionSetDepth.induct)
  case (1 F V)
  show ?case by (simp add: nests.Zero)
next
  case (2 F V n ss sels)
  have "nests F (Suc (selectionSetDepth F V ss)) (Field n ss # sels)"
    by (rule nests.Down [of n ss, OF _ 2(1)]) simp
  moreover have "nests F (selectionSetDepth F V sels) (Field n ss # sels)"
    by (rule nests_member [OF 2(2)]) auto
  ultimately show ?case by (simp add: max_def)
next
  case (3 F V ss sels)
  have "nests F (selectionSetDepth F V ss) (InlineFragment ss # sels)"
    by (rule nests.Into [OF _ 3(1)]) simp
  moreover have "nests F (selectionSetDepth F V sels) (InlineFragment ss # sels)"
    by (rule nests_member [OF 3(2)]) auto
  ultimately show ?case by (simp add: max_def)
next
  case (4 F V n sels)
  have "nests F (selectionSetDepth F V sels) (FragmentSpread n # sels)"
    by (rule nests_member [OF 4(2)]) auto
  moreover have "nests F (selectionSetDepth F (n # V) ss) (FragmentSpread n # sels)"
    if "n \<notin> set V" "map_of F n = Some ss" for ss
    by (rule nests.Through [OF _ that(2) 4(1) [OF that]]) simp
  ultimately show ?case by (auto simp: max_def nests.Zero split: option.split)
qed

lemma fold_max_list:
  fixes m :: nat
  shows "m \<le> fold (\<lambda>x m. let d = f x in if d > m then d else m) xs m
   \<and> (\<forall>x \<in> set xs. f x \<le> fold (\<lambda>x m. let d = f x in if d > m then d else m) xs m)
   \<and> (fold (\<lambda>x m. let d = f x in if d > m then d else m) xs m = m
      \<or> (\<exists>x \<in> set xs. fold (\<lambda>x m. let d = f x in if d > m then d else m) xs m = f x))"
proof (induction xs arbitrary: m)
  case (Cons x xs)
  from Cons [of "if f x > m then f x else m"] show ?case
    by (auto simp: Let_def split: if_splits)
qed simp

text \<open>
  C20: the depth limit is exact. In a document whose fragments are not cyclic, the computed depth is
  the greatest number of fields nested in one another after all fragments are expanded: no
  nesting exceeds it, and one attains it.
\<close>

theorem depth_exact:
  assumes "acyclic_fragments (fragments_of defs) rank"
  shows "(\<forall>ss \<in> set (operations_of defs). \<forall>k. nests (fragments_of defs) k ss
            \<longrightarrow> k \<le> computeQueryDepthFromAST defs)
     \<and> (operations_of defs \<noteq> [] \<longrightarrow>
          (\<exists>ss \<in> set (operations_of defs). nests (fragments_of defs) (computeQueryDepthFromAST defs) ss))"
proof -
  let ?F = "fragments_of defs"
  note m = fold_max_list [of 0 "selectionSetDepth ?F []" "operations_of defs",
      folded computeQueryDepthFromAST_def]
  have "k \<le> computeQueryDepthFromAST defs" if "ss \<in> set (operations_of defs)" "nests ?F k ss" for ss k
    using depth_bounds_nests [OF assms that(2), of "[]"] m that(1) by fastforce
  moreover have "\<exists>ss \<in> set (operations_of defs). nests ?F (computeQueryDepthFromAST defs) ss"
    if "operations_of defs \<noteq> []"
  proof -
    obtain ss where "ss \<in> set (operations_of defs)" using \<open>operations_of defs \<noteq> []\<close> by (cases "operations_of defs") auto
    then show ?thesis using m nests_depth nests.Zero by metis
  qed
  ultimately show ?thesis by blast
qed

definition sample_document :: "def_node list" where
  "sample_document =
     [OperationDefinition [Field ''products'' [FragmentSpread ''P'', Field ''sku'' []]],
      FragmentDefinition ''P'' [Field ''prices'' [InlineFragment [Field ''USD'' []]]]]"

theorem depth_exact_witness:
  "computeQueryDepthFromAST sample_document = 3
   \<and> nests (fragments_of sample_document) 4 (hd (operations_of sample_document)) = False"
proof -
  have F: "fragments_of sample_document = [(''P'', [Field ''prices'' [InlineFragment [Field ''USD'' []]]])]"
    by (simp add: fragments_of_def sample_document_def)
  have a: "acyclic_fragments (fragments_of sample_document) (\<lambda>n. 0)"
    by (auto simp: F acyclic_fragments_def)
  have d: "computeQueryDepthFromAST sample_document = 3" by code_simp
  have "hd (operations_of sample_document) \<in> set (operations_of sample_document)"
    by (simp add: operations_of_def sample_document_def)
  with depth_exact [OF a] d have "nests (fragments_of sample_document) 4 (hd (operations_of sample_document)) \<longrightarrow> (4 :: nat) \<le> 3"
    by metis
  with d show ?thesis by simp
qed

subsection \<open>The cost of the walk\<close>

text \<open>
  The number of selections the depth walk looks at: the iterations of its loop, in all its calls. The code has no
  such counter; \<open>counted_depth\<close> is \<open>selectionSetDepth\<close> with one, and \<open>visits\<close> is its second component.
\<close>

function visits :: "fragments \<Rightarrow> string list \<Rightarrow> selection list \<Rightarrow> nat" where
  "visits F V [] = 0"
| "visits F V (Field n ss # sels) = 1 + visits F V ss + visits F V sels"
| "visits F V (InlineFragment ss # sels) = 1 + visits F V ss + visits F V sels"
| "visits F V (FragmentSpread n # sels) =
     1 + (if n \<in> set V then 0 else (case map_of F n of None \<Rightarrow> 0 | Some ss \<Rightarrow> visits F (n # V) ss))
     + visits F V sels"
  by pat_completeness auto
termination visits
  by (relation walk_order) (simp_all add: wf_walk_order walk_spread walk_part)

function counted_depth :: "fragments \<Rightarrow> string list \<Rightarrow> selection list \<Rightarrow> nat \<Rightarrow> nat \<times> nat" where
  "counted_depth F V [] k = (0, k)"
| "counted_depth F V (Field n ss # sels) k =
     (let (a, k) = counted_depth F V ss (Suc k); (b, k) = counted_depth F V sels k in (max (1 + a) b, k))"
| "counted_depth F V (InlineFragment ss # sels) k =
     (let (a, k) = counted_depth F V ss (Suc k); (b, k) = counted_depth F V sels k in (max a b, k))"
| "counted_depth F V (FragmentSpread n # sels) k =
     (let (a, k) = (if n \<in> set V then (0, Suc k)
                    else (case map_of F n of None \<Rightarrow> (0, Suc k) | Some ss \<Rightarrow> counted_depth F (n # V) ss (Suc k)));
          (b, k) = counted_depth F V sels k
      in (max a b, k))"
  by pat_completeness auto
termination counted_depth
  by (relation "inv_image walk_order (\<lambda>(F, V, ss, k). (F, V, ss))")
    (simp_all add: wf_walk_order walk_spread walk_part wf_inv_image)

lemma counted_depth_visits: "counted_depth F V ss k = (selectionSetDepth F V ss, k + visits F V ss)"
  by (induction F V ss k rule: counted_depth.induct) (simp_all split: option.split)

text \<open>Fragments \<open>1\<close>, \<open>2\<close>, ..., \<open>n\<close>, each spreading the next one twice.\<close>

definition doubling :: "nat \<Rightarrow> fragments" where
  "doubling n = map (\<lambda>i. (show_nat i, [FragmentSpread (show_nat (Suc i)), FragmentSpread (show_nat (Suc i))])) [1..<Suc n]"

lemma map_of_doubling:
  "1 \<le> i \<Longrightarrow> i \<le> n \<Longrightarrow> map_of (doubling n) (show_nat i)
     = Some [FragmentSpread (show_nat (Suc i)), FragmentSpread (show_nat (Suc i))]"
proof -
  assume i: "1 \<le> i" "i \<le> n"
  have d: "distinct (map fst (doubling n))"
    by (auto simp: doubling_def comp_def distinct_map inj_on_def dest: show_nat_inj)
  show ?thesis
    by (rule map_of_is_SomeI [OF d]) (use i in \<open>force simp: doubling_def simp del: upt_Suc\<close>)
qed

lemma visits_doubling:
  "1 \<le> i \<Longrightarrow> i \<le> Suc n \<Longrightarrow> (\<forall>v \<in> set V. \<exists>j. v = show_nat j \<and> j < i) \<Longrightarrow>
   visits (doubling n) V [FragmentSpread (show_nat i), FragmentSpread (show_nat i)] \<ge> 2 ^ (Suc n - i + 1)"
proof (induction "Suc n - i" arbitrary: i V)
  case 0
  then show ?case by simp
next
  case (Suc k)
  have i: "1 \<le> i" "i \<le> n" using Suc by simp_all
  have nv: "show_nat i \<notin> set V" using Suc.prems(3) show_nat_inj by blast
  have "visits (doubling n) (show_nat i # V) [FragmentSpread (show_nat (Suc i)), FragmentSpread (show_nat (Suc i))]
      \<ge> 2 ^ (Suc n - Suc i + 1)"
    by (rule Suc.hyps(1)) (use Suc.hyps(2) Suc.prems i in \<open>auto intro: less_SucI\<close>)
  moreover have "(2 :: nat) ^ (Suc n - i + 1) = 2 * 2 ^ (Suc n - Suc i + 1)"
    using i by (simp add: Suc_diff_le)
  ultimately show ?case
    using map_of_doubling [OF i] nv by simp
qed

text \<open>The document: one operation that spreads fragment \<open>1\<close> twice, and the fragments.\<close>

definition doubling_document :: "nat \<Rightarrow> def_node list" where
  "doubling_document n =
     OperationDefinition [FragmentSpread (show_nat 1), FragmentSpread (show_nat 1)]
     # map (\<lambda>(k, ss). FragmentDefinition k ss) (doubling n)"

lemma fragments_fold:
  "distinct (map fst fs) \<Longrightarrow> fst ` set fs \<inter> fst ` set acc = {} \<Longrightarrow>
   fold (\<lambda>d fs. case d of FragmentDefinition n ss \<Rightarrow> AList.update n ss fs | _ \<Rightarrow> fs)
     (map (\<lambda>(k, ss). FragmentDefinition k ss) fs) acc = acc @ fs"
proof (induction fs arbitrary: acc)
  case (Cons f fs)
  obtain k ss where f: "f = (k, ss)" by fastforce
  have "AList.update k ss acc = acc @ [(k, ss)]" if "k \<notin> fst ` set acc" for acc :: "(string \<times> selection list) list"
    using that by (induction acc) auto
  with Cons f show ?case by auto
qed simp

lemma fragments_doubling: "fragments_of (doubling_document n) = doubling n"
proof -
  have "distinct (map fst (doubling n))"
    by (auto simp: doubling_def comp_def distinct_map inj_on_def dest: show_nat_inj)
  from fragments_fold [OF this, of "[]"] show ?thesis
    by (simp add: fragments_of_def doubling_document_def)
qed

lemma spreads_only_depth:
  "list_all (\<lambda>(k, ss). list_all (\<lambda>s. \<exists>m. s = FragmentSpread m) ss) F \<Longrightarrow>
   list_all (\<lambda>s. \<exists>m. s = FragmentSpread m) ss \<Longrightarrow> selectionSetDepth F V ss = 0"
proof (induction F V ss rule: selectionSetDepth.induct)
  case (4 F V n sels)
  have "list_all (\<lambda>s. \<exists>m. s = FragmentSpread m) ss" if "map_of F n = Some ss" for ss
    using "4.prems"(1) map_of_SomeD [OF that] by (fastforce simp: list_all_iff)
  with 4 show ?case by (auto split: option.split)
qed auto

text \<open>
  C21: the depth walk is exponential in the size of the document. A document of one operation and
  \<open>n\<close> fragments, each with two spreads, has depth 0, so no limit refuses it, and the walk that
  finds this out looks at more than \<open>2 ^ n\<close> selections, because a fragment is unmarked after each
  visit. It runs before the query timeout is consulted, and 10000 bytes of query text hold more than
  200 such fragments.
\<close>

theorem depth_walk_exponential:
  "computeQueryDepthFromAST (doubling_document n) = 0 \<and> length (doubling_document n) = n + 1
   \<and> length (operations_of (doubling_document n)) = 1
   \<and> 2 ^ n \<le> visits (fragments_of (doubling_document n)) [] (hd (operations_of (doubling_document n)))"
proof -
  let ?ss = "[FragmentSpread (show_nat 1), FragmentSpread (show_nat 1)]"
  have o: "operations_of (doubling_document n) = [?ss]"
  proof -
    have "concat (map ((\<lambda>d. case d of OperationDefinition ss \<Rightarrow> [ss] | _ \<Rightarrow> []) \<circ> (\<lambda>(k, ss). FragmentDefinition k ss)) fs) = []"
      for fs :: fragments by (induction fs) auto
    then show ?thesis by (simp add: operations_of_def doubling_document_def)
  qed
  have d: "selectionSetDepth (doubling n) [] ?ss = 0"
    by (rule spreads_only_depth) (auto simp: doubling_def list_all_iff)
  have "(2 :: nat) ^ n \<le> 2 ^ (Suc n - 1 + 1)" by simp
  also have "\<dots> \<le> visits (doubling n) [] ?ss"
    by (rule visits_doubling) auto
  finally have v: "2 ^ n \<le> visits (doubling n) [] ?ss" .
  have l: "length (doubling_document n) = n + 1"
    by (simp add: doubling_document_def doubling_def)
  show ?thesis
    using v d l unfolding computeQueryDepthFromAST_def o fragments_doubling by (simp del: visits.simps)
qed

end
