(* ===== verification/Http.thy ===== *)
theory Http
  imports Url_Redact Json_Value Sha256 Net_Addr Config Rate_Limit Resolver Query_Guard
begin

text \<open>
  The middlewares of \<^verbatim>\<open>internal/server/server.go\<close>. A handler is a function of the request, of what
  happens while it runs (\<open>happening\<close>: clock, random bytes, waiting for a slot, deadlines) and of the
  server's state. Its result lists the calls it made on its \<open>http.ResponseWriter\<close>, in order, with
  the new state and whether it panicked. A middleware maps handlers to handlers. The writers the
  middlewares wrap around (\<open>statusWriter\<close>, \<open>responseTracker\<close>) are folds over that list, as is
  the response of \<open>net/http\<close> itself (\<open>rw_step\<close>): the first \<open>WriteHeader\<close> or \<open>Write\<close> commits status
  and headers, a later status is ignored, and a body is dropped where there must be none.

  Connections that fail while a response is written, \<open>Hijack\<close>, and what \<open>net/http\<close> adds by itself
  (date, length, a sniffed content type) are not modelled. The records of \<open>slog\<close> are those of the
  access log.
\<close>

subsection \<open>Header maps\<close>

type_synonym header = "string \<Rightarrow> string list"

definition upper_char :: "char \<Rightarrow> char" where
  "upper_char c = (let b = byte c in if 97 \<le> b \<and> b \<le> 122 then char_of (b - 32) else c)"

fun canon_from :: "bool \<Rightarrow> string \<Rightarrow> string" where
  "canon_from up [] = []"
| "canon_from up (c # s) = (if up then upper_char c else lower_char c) # canon_from (c = CHR ''-'') s"

text \<open>\<open>CanonicalHeaderKey\<close>, on names made of token characters.\<close>

definition canonical_key :: "string \<Rightarrow> string" where
  "canonical_key s = canon_from True s"

definition h_get :: "header \<Rightarrow> string \<Rightarrow> string" where
  "h_get h k = (case h (canonical_key k) of [] \<Rightarrow> '''' | v # _ \<Rightarrow> v)"

subsection \<open>Writing a response\<close>

datatype wop = SetHeader string string | AddHeader string string | DelHeader string
  | WriteHeader nat | WriteBody string | FlushBody

definition h_step :: "wop \<Rightarrow> header \<Rightarrow> header" where
  "h_step w h =
     (case w of
        SetHeader k v \<Rightarrow> h(canonical_key k := [v])
      | AddHeader k v \<Rightarrow> h(canonical_key k := h (canonical_key k) @ [v])
      | DelHeader k \<Rightarrow> h(canonical_key k := [])
      | _ \<Rightarrow> h)"

record rw =
  rw_head :: header
  rw_sent :: "(nat \<times> header) option"
  rw_body :: string

definition rw_init :: rw where
  "rw_init = \<lparr>rw_head = (\<lambda>_. []), rw_sent = None, rw_body = ''''\<rparr>"

definition body_allowed :: "nat \<Rightarrow> bool" where
  "body_allowed status \<longleftrightarrow> \<not> (100 \<le> status \<and> status < 200) \<and> status \<noteq> 204 \<and> status \<noteq> 304"

definition rw_commit :: "nat \<Rightarrow> rw \<Rightarrow> rw" where
  "rw_commit status w =
     (if rw_sent w \<noteq> None \<or> (100 \<le> status \<and> status < 200 \<and> status \<noteq> 101) then w
      else w\<lparr>rw_sent := Some (status, rw_head w)\<rparr>)"

definition rw_step :: "bool \<Rightarrow> wop \<Rightarrow> rw \<Rightarrow> rw" where
  "rw_step is_head op w =
     (case op of
        WriteHeader status \<Rightarrow> rw_commit status w
      | WriteBody p \<Rightarrow>
          (let w = rw_commit 200 w in
           if body_allowed (fst (the (rw_sent w))) \<and> \<not> is_head
           then w\<lparr>rw_body := rw_body w @ p\<rparr> else w)
      | FlushBody \<Rightarrow> rw_commit 200 w
      | _ \<Rightarrow> w\<lparr>rw_head := h_step op (rw_head w)\<rparr>)"

text \<open>The response a client gets once the handler has returned: status, headers and body.\<close>

record response =
  rs_status :: nat
  rs_header :: header
  rs_body :: string

definition response_of :: "bool \<Rightarrow> wop list \<Rightarrow> response" where
  "response_of is_head ops =
     (let w = rw_commit 200 (fold (rw_step is_head) ops rw_init) in
      \<lparr>rs_status = fst (the (rw_sent w)), rs_header = snd (the (rw_sent w)), rs_body = rw_body w\<rparr>)"

subsection \<open>Requests, what happens meanwhile, and the state of the server\<close>

record request =
  rq_method :: string
  rq_path :: string
  rq_uri :: string
  rq_remote :: string
  rq_header :: header
  rq_body :: string
  rq_body_err :: bool

text \<open>Waiting for a slot ends with a slot given back, with the timer, or with the client gone.\<close>

datatype slot_wait = SlotFreed | SlotTimeout | SlotCancelled

record happening =
  hp_now :: int
  hp_rand :: "string option"
  hp_slot :: slot_wait
  hp_expired :: "nat \<Rightarrow> bool"
  hp_ping :: bool

record access =
  ac_method :: string
  ac_path :: string
  ac_status :: nat
  ac_request_id :: string
  ac_ip :: string

record metrics =
  http_requests_total :: "(string \<times> string \<times> string) \<rightharpoonup> nat"
  http_request_duration_seconds :: "(string \<times> string \<times> string) \<rightharpoonup> nat"
  http_response_bytes_total :: "string \<rightharpoonup> nat"
  scrape_runs_last_success_seconds :: "string \<rightharpoonup> int"
  products_total :: "string \<rightharpoonup> int"
  graphql_queries_total :: "string \<rightharpoonup> nat"

record 'b server =
  sv_limiters :: "'b limiters"
  sv_inflight :: nat
  sv_db :: db
  sv_metrics :: metrics
  sv_log :: "access list"

record 'b ran =
  ran_ops :: "wop list"
  ran_srv :: "'b server"
  ran_panic :: bool

type_synonym 'b handler = "request \<Rightarrow> happening \<Rightarrow> 'b server \<Rightarrow> 'b ran"

definition respond :: "wop list \<Rightarrow> 'b server \<Rightarrow> 'b ran" where
  "respond ops sv = \<lparr>ran_ops = ops, ran_srv = sv, ran_panic = False\<rparr>"

text \<open>
  What is fixed when the server starts. \<open>gql_result\<close> is a \<open>gql.Result\<close>: its data, and the
  messages of its errors. \<open>st_do\<close> is \<open>gql.Do\<close> on the schema, for the item of a batch with the
  given index (\<open>None\<close>: it panics), \<open>st_parse\<close> the GraphQL parser, \<open>st_print\<close> the printing of a result.
\<close>

record gql_result =
  res_data :: json
  res_errors :: "string list"

record 'b site =
  st_cfg :: config
  st_proxies :: "ip_net list"
  st_ips :: "ip list"
  st_cap :: nat
  st_new_bucket :: "int \<Rightarrow> int \<Rightarrow> 'b"
  st_allow :: "'b \<Rightarrow> int \<Rightarrow> bool \<times> 'b"
  st_parse :: "string \<Rightarrow> def_node list option"
  st_do :: "nat \<Rightarrow> graphQLRequest \<Rightarrow> db \<Rightarrow> requestBudget \<Rightarrow> (gql_result \<times> db \<times> requestBudget) option"
  st_print :: "gql_result \<Rightarrow> string"
  st_url_head :: "string \<Rightarrow> string option"
  st_url_frag :: "string \<Rightarrow> string option"

subsection \<open>Metrics\<close>

definition bump :: "'k \<Rightarrow> nat \<Rightarrow> ('k \<rightharpoonup> nat) \<Rightarrow> ('k \<rightharpoonup> nat)" where
  "bump k n m = m(k \<mapsto> (case m k of None \<Rightarrow> 0 | Some x \<Rightarrow> x) + n)"

definition recordHTTPMetrics :: "string \<Rightarrow> string \<Rightarrow> nat \<Rightarrow> nat \<Rightarrow> metrics \<Rightarrow> metrics" where
  "recordHTTPMetrics handler method status bytes m =
     (let key = (handler, method, show_nat status);
          m = m\<lparr>http_requests_total := bump key 1 (http_requests_total m),
                http_request_duration_seconds := bump key 1 (http_request_duration_seconds m)\<rparr>
      in if bytes > 0 then m\<lparr>http_response_bytes_total := bump handler bytes (http_response_bytes_total m)\<rparr>
         else m)"

definition SetProductsTotal :: "string \<Rightarrow> int \<Rightarrow> metrics \<Rightarrow> metrics" where
  "SetProductsTotal vendor count m = m\<lparr>products_total := (products_total m)(vendor \<mapsto> count)\<rparr>"

definition RecordGraphQLQuery :: "string \<Rightarrow> metrics \<Rightarrow> metrics" where
  "RecordGraphQLQuery result m = m\<lparr>graphql_queries_total := bump result 1 (graphql_queries_total m)\<rparr>"

text \<open>The zero time of Go is not the epoch; it is \<open>None\<close>.\<close>

definition SetScrapeLastSuccess :: "string \<Rightarrow> int option \<Rightarrow> metrics \<Rightarrow> metrics" where
  "SetScrapeLastSuccess vendor ts m =
     (case ts of None \<Rightarrow> m
      | Some t \<Rightarrow> m\<lparr>scrape_runs_last_success_seconds := (scrape_runs_last_success_seconds m)(vendor \<mapsto> t)\<rparr>)"

subsection \<open>The wrapping writers\<close>

record statusWriter =
  sw_status :: nat
  sw_bytes :: nat

definition statusWriter_init :: statusWriter where
  "statusWriter_init = \<lparr>sw_status = 200, sw_bytes = 0\<rparr>"

definition sw_step :: "wop \<Rightarrow> statusWriter \<Rightarrow> statusWriter" where
  "sw_step op w =
     (case op of
        WriteHeader code \<Rightarrow> w\<lparr>sw_status := code\<rparr>
      | WriteBody b \<Rightarrow> w\<lparr>sw_bytes := sw_bytes w + length b\<rparr>
      | _ \<Rightarrow> w)"

definition status_of :: "wop list \<Rightarrow> statusWriter" where
  "status_of ops = fold sw_step ops statusWriter_init"

text \<open>\<open>responseTracker\<close>: its one field, \<open>headerWritten\<close>.\<close>

definition rt_step :: "wop \<Rightarrow> bool \<Rightarrow> bool" where
  "rt_step op headerWritten =
     (case op of WriteHeader code \<Rightarrow> True | WriteBody b \<Rightarrow> True | _ \<Rightarrow> headerWritten)"

definition header_written :: "wop list \<Rightarrow> bool" where
  "header_written ops = fold rt_step ops False"

subsection \<open>Errors\<close>

definition content_json :: wop where
  "content_json = SetHeader ''Content-Type'' ''application/json''"

definition nl :: string where "nl = [CHR 0x0A]"

text \<open>\<open>json.NewEncoder(w).Encode\<close> prints a map with sorted keys and ends with a line feed.\<close>

definition writeError :: "nat \<Rightarrow> string \<Rightarrow> string \<Rightarrow> wop list" where
  "writeError status code message =
     [content_json, WriteHeader status,
      WriteBody (json_print (JObj [(''error'', JStr message), (''error_code'', JStr code)]) @ nl)]"

subsection \<open>The middlewares of /graphql\<close>

definition presented_key :: "request \<Rightarrow> string" where
  "presented_key rq =
     (let auth = h_get (rq_header rq) ''Authorization'';
          apiKey = (if has_prefix auth ''Bearer '' then trim_prefix auth ''Bearer '' else '''')
      in if apiKey = '''' then h_get (rq_header rq) ''X-Api-Key'' else apiKey)"

text \<open>The text of a constant JSON body: names and values without characters to escape.\<close>

definition const_json :: "(string \<times> string) list \<Rightarrow> string" where
  "const_json kvs =
     ''{'' @ join '','' (map (\<lambda>(k, v). [quote] @ k @ [quote] @ '':'' @ [quote] @ v @ [quote]) kvs) @ ''}''"

definition authMiddleware :: "'b site \<Rightarrow> 'b handler \<Rightarrow> 'b handler" where
  "authMiddleware site next rq hp sv =
     (if cfg_APIKey (st_cfg site) = '''' then next rq hp sv
      else
        (let providedHash = sha256 (presented_key rq);
             expectedHash = sha256 (cfg_APIKey (st_cfg site))
         in if providedHash \<noteq> expectedHash
            then respond [content_json, WriteHeader 403,
                          WriteBody (const_json [(''error'', ''Invalid API key''),
                                                 (''error_code'', ''invalid_api_key'')])] sv
            else next rq hp sv))"

definition trusted_peer :: "'b site \<Rightarrow> string \<Rightarrow> bool" where
  "trusted_peer site ip =
     (let remoteIP = ParseIP ip in
      list_ex (\<lambda>network. net_contains network remoteIP) (st_proxies site)
      \<or> list_ex (\<lambda>tip. remoteIP = Some tip) (st_ips site))"

definition clientIP :: "'b site \<Rightarrow> request \<Rightarrow> string" where
  "clientIP site rq =
     (let ip = (case SplitHostPort (rq_remote rq) of None \<Rightarrow> rq_remote rq | Some host \<Rightarrow> host) in
      if st_proxies site = [] \<and> st_ips site = [] then ip
      else if trusted_peer site ip then
        (let cf = trim_space (h_get (rq_header rq) ''CF-Connecting-IP'');
             fwd = h_get (rq_header rq) ''X-Forwarded-For''
         in if cf \<noteq> '''' then cf
            else if fwd \<noteq> '''' then trim_space (hd (split_on (CHR '','') fwd))
            else ip)
      else ip)"

definition rateLimitMiddleware :: "'b site \<Rightarrow> 'b handler \<Rightarrow> 'b handler" where
  "rateLimitMiddleware site next rq hp sv =
     (case rate_admit (st_new_bucket site) (st_allow site) (cfg_RateLimitPerSec (st_cfg site)) (hp_now hp)
             (clientIP site rq) (sv_limiters sv) of
        (admitted, ls) \<Rightarrow>
          let sv = sv\<lparr>sv_limiters := ls\<rparr> in
          if admitted then next rq hp sv
          else respond [content_json, SetHeader ''Retry-After'' ''1'', WriteHeader 429,
                        WriteBody (const_json [(''error'', ''Rate limit exceeded'')])] sv)"

text \<open>
  A free slot is taken at once. Otherwise the request waits: a slot another request gives back
  passes to it and the count stays. The slot goes back when the handler ends, also by a panic.
\<close>

definition release_slot :: "'b ran \<Rightarrow> 'b ran" where
  "release_slot r = r\<lparr>ran_srv := (ran_srv r)\<lparr>sv_inflight := sv_inflight (ran_srv r) - 1\<rparr>\<rparr>"

definition inflightMiddleware :: "'b site \<Rightarrow> 'b handler \<Rightarrow> 'b handler" where
  "inflightMiddleware site next rq hp sv =
     (if st_cap site = 0 then next rq hp sv
      else if sv_inflight sv < st_cap site
        then release_slot (next rq hp (sv\<lparr>sv_inflight := sv_inflight sv + 1\<rparr>))
      else (case hp_slot hp of
              SlotFreed \<Rightarrow> release_slot (next rq hp sv)
            | SlotTimeout \<Rightarrow>
                respond (SetHeader ''Retry-After'' ''1''
                         # writeError 503 ''server_busy'' ''Server busy, retry shortly'') sv
            | SlotCancelled \<Rightarrow> respond [] sv))"

definition recoverMiddleware :: "'b handler \<Rightarrow> 'b handler" where
  "recoverMiddleware next rq hp sv =
     (let r = next rq hp sv in
      if ran_panic r then
        \<lparr>ran_ops =
           (if header_written (ran_ops r) then ran_ops r
            else ran_ops r @ [content_json, WriteHeader 500,
                   WriteBody (const_json [(''error'', ''internal server error''),
                                          (''error_code'', ''internal_error'')])]),
         ran_srv = ran_srv r, ran_panic = False\<rparr>
      else r)"

definition validRequestID :: "string \<Rightarrow> bool" where
  "validRequestID s \<longleftrightarrow>
     1 \<le> length s \<and> length s \<le> 64
     \<and> list_all (\<lambda>c. let b = byte c in (65 \<le> b \<and> b \<le> 90) \<or> (97 \<le> b \<and> b \<le> 122) \<or> (48 \<le> b \<and> b \<le> 57)
                     \<or> c = CHR ''_'' \<or> c = CHR ''-'') s"

definition request_id :: "request \<Rightarrow> happening \<Rightarrow> string" where
  "request_id rq hp =
     (let reqID = h_get (rq_header rq) ''X-Request-ID'' in
      if reqID = '''' \<or> \<not> validRequestID reqID
      then (case hp_rand hp of None \<Rightarrow> show_int (hp_now hp) | Some b \<Rightarrow> hex_bytes b)
      else reqID)"

definition requestIDMiddleware :: "'b site \<Rightarrow> 'b handler \<Rightarrow> 'b handler" where
  "requestIDMiddleware site next rq hp sv =
     (let reqID = request_id rq hp;
          r = next rq hp sv;
          ops = SetHeader ''X-Request-ID'' reqID # ran_ops r;
          entry = \<lparr>ac_method = rq_method rq,
                   ac_path = redactSensitiveParams (st_url_head site) (st_url_frag site) (rq_uri rq),
                   ac_status = sw_status (status_of (ran_ops r)),
                   ac_request_id = reqID, ac_ip = clientIP site rq\<rparr>
      in if ran_panic r then r\<lparr>ran_ops := ops\<rparr>
         else r\<lparr>ran_ops := ops, ran_srv := (ran_srv r)\<lparr>sv_log := sv_log (ran_srv r) @ [entry]\<rparr>\<rparr>)"

text \<open>\<open>instrument\<close> wraps a fresh \<open>statusWriter\<close>; it records nothing when the handler panics.\<close>

definition instrument :: "string \<Rightarrow> 'b handler \<Rightarrow> 'b handler" where
  "instrument label next rq hp sv =
     (let r = next rq hp sv; sw = status_of (ran_ops r) in
      if ran_panic r then r
      else r\<lparr>ran_srv := (ran_srv r)\<lparr>sv_metrics :=
               recordHTTPMetrics label (rq_method rq) (sw_status sw) (sw_bytes sw) (sv_metrics (ran_srv r))\<rparr>\<rparr>)"

subsection \<open>The outer middlewares\<close>

definition prefix_ops :: "wop list \<Rightarrow> 'b ran \<Rightarrow> 'b ran" where
  "prefix_ops ops r = r\<lparr>ran_ops := ops @ ran_ops r\<rparr>"

definition securityHeadersMiddleware :: "'b handler \<Rightarrow> 'b handler" where
  "securityHeadersMiddleware next rq hp sv =
     prefix_ops
       [SetHeader ''X-Content-Type-Options'' ''nosniff'',
        SetHeader ''X-Frame-Options'' ''DENY'',
        SetHeader ''Referrer-Policy'' ''no-referrer'',
        SetHeader ''Content-Security-Policy'' (''default-src '' @ [CHR 0x27] @ ''none'' @ [CHR 0x27]),
        SetHeader ''Strict-Transport-Security'' ''max-age=31536000; includeSubDomains'',
        SetHeader ''Cache-Control'' ''no-store'']
       (next rq hp sv)"

definition cors_origins :: "string \<Rightarrow> string list" where
  "cors_origins allowedOrigins = filter (\<lambda>w. w \<noteq> '''') (map trim_space (split_on (CHR '','') allowedOrigins))"

definition corsMiddleware :: "string \<Rightarrow> 'b handler \<Rightarrow> 'b handler" where
  "corsMiddleware allowedOrigins next rq hp sv =
     (let origins = cors_origins allowedOrigins;
          origin = h_get (rq_header rq) ''Origin'';
          ops = AddHeader ''Vary'' ''Origin'' #
                (if origin \<noteq> '''' \<and> (''*'' \<in> set origins \<or> origin \<in> set origins)
                 then [SetHeader ''Access-Control-Allow-Origin'' origin,
                       SetHeader ''Access-Control-Allow-Methods'' ''GET, POST, OPTIONS'',
                       SetHeader ''Access-Control-Allow-Headers'' ''Content-Type, Authorization, X-Api-Key, X-Request-ID'',
                       SetHeader ''Access-Control-Max-Age'' ''86400'']
                 else [])
      in if rq_method rq = ''OPTIONS''
         then respond (ops @ [AddHeader ''Vary'' ''Access-Control-Request-Method'',
                              AddHeader ''Vary'' ''Access-Control-Request-Headers'', WriteHeader 204]) sv
         else prefix_ops ops (next rq hp sv))"

subsection \<open>Setting the server up\<close>

definition inflightLimit :: "int \<Rightarrow> int \<Rightarrow> int" where
  "inflightLimit configured poolMax =
     (if configured \<noteq> 0 then (if configured < 0 then 0 else configured)
      else if poolMax \<le> 0 then 0
      else (let n = poolMax - 2 in if n \<ge> 1 then n else 1))"

definition cloudflareCIDRStrings :: "string list" where
  "cloudflareCIDRStrings =
     [''173.245.48.0/20'', ''103.21.244.0/22'', ''103.22.200.0/22'', ''103.31.4.0/22'',
      ''141.101.64.0/18'', ''108.162.192.0/18'', ''190.93.240.0/20'', ''188.114.96.0/20'',
      ''197.234.240.0/22'', ''198.41.128.0/17'', ''162.158.0.0/15'', ''104.16.0.0/13'',
      ''104.24.0.0/14'', ''172.64.0.0/13'', ''131.0.72.0/22'',
      ''2400:cb00::/32'', ''2606:4700::/32'', ''2803:f800::/32'', ''2405:b500::/32'',
      ''2405:8100::/32'', ''2a06:98c0::/29'', ''2c0f:f248::/32'']"

definition cloudflareNetworks :: "ip_net list" where
  "cloudflareNetworks = List.map_filter ParseCIDR cloudflareCIDRStrings"

text \<open>One entry of \<open>TRUSTED_PROXIES\<close>, added to the networks and addresses read so far.\<close>

definition trust_entry :: "string \<Rightarrow> ip_net list \<times> ip list \<Rightarrow> ip_net list \<times> ip list" where
  "trust_entry entry acc =
     (case acc of (nets, ips) \<Rightarrow>
        let entry = trim_space entry in
        if equal_fold entry ''cloudflare'' then (nets @ cloudflareNetworks, ips)
        else (case ParseCIDR entry of
                Some network \<Rightarrow> (nets @ [network], ips)
              | None \<Rightarrow> (case ParseIP entry of Some ip \<Rightarrow> (nets, ips @ [ip]) | None \<Rightarrow> (nets, ips))))"

definition trusted_proxies :: "string \<Rightarrow> ip_net list \<times> ip list" where
  "trusted_proxies tp =
     (if tp \<noteq> '''' then fold trust_entry (split_on (CHR '','') tp) ([], []) else ([], []))"

end
