(* ===== verification/Graphql_Handler.thy ===== *)
theory Graphql_Handler
  imports Http
begin

text \<open>
  \<open>handleGraphQL\<close> of \<^verbatim>\<open>internal/server/server.go\<close>: reading and decoding the body, the limits on the
  batch, the guards on each item, the one budget all items share, and the response. The items of a
  batch are executed one after the other by \<open>gql.Do\<close>, the parameter \<open>st_do\<close>; the deadline of the
  request is looked at before each item (\<open>hp_expired\<close>).
\<close>

subsection \<open>The items\<close>

definition result_error :: "string \<Rightarrow> gql_result" where
  "result_error message = \<lparr>res_data = JNull, res_errors = [message]\<rparr>"

definition graphQLResultIsEmpty :: "gql_result \<Rightarrow> bool" where
  "graphQLResultIsEmpty r =
     (case res_data r of
        JObj data \<Rightarrow> (case map_of data ''products'' of Some (JArr list) \<Rightarrow> list = [] | _ \<Rightarrow> False)
      | _ \<Rightarrow> False)"

definition outcome_label :: "gql_result \<Rightarrow> string" where
  "outcome_label r =
     (if res_errors r \<noteq> [] then ''error'' else if graphQLResultIsEmpty r then ''empty'' else ''ok'')"

text \<open>What the guards answer for a query they refuse.\<close>

definition guard_query :: "'b site \<Rightarrow> string \<Rightarrow> gql_result option" where
  "guard_query site query =
     (if length query > 10000 then Some (result_error ''Query too large'')
      else
        (case st_parse site query of
           None \<Rightarrow> None
         | Some doc \<Rightarrow>
             let depth = computeQueryDepthFromAST doc in
             if int depth > cfg_MaxQueryDepth (st_cfg site)
             then Some (result_error (''Query depth '' @ show_nat depth @ '' exceeds maximum of ''
                                      @ show_int (cfg_MaxQueryDepth (st_cfg site))))
             else if cfg_DisableIntrospection (st_cfg site) \<and> astContainsIntrospection doc
             then Some (result_error ''Introspection is disabled'')
             else None))"

text \<open>
  The loop over the batch from item \<open>i\<close> on: the results of the items, the database, the budget and
  the metrics; \<open>None\<close> for the results when \<open>gql.Do\<close> panicked.
\<close>

fun run_items ::
  "'b site \<Rightarrow> (nat \<Rightarrow> bool) \<Rightarrow> nat \<Rightarrow> graphQLRequest list \<Rightarrow> db \<times> requestBudget \<times> metrics
     \<Rightarrow> gql_result list option \<times> db \<times> requestBudget \<times> metrics" where
  "run_items site expired i [] st = (Some [], st)"
| "run_items site expired i (req # reqs) (d, budget, m) =
     (if expired i
      then (Some (map (\<lambda>_. result_error ''query timeout exceeded'') (req # reqs)), d, budget, m)
      else
        (case guard_query site (gr_Query req) of
           Some refused \<Rightarrow>
             (case run_items site expired (Suc i) reqs (d, budget, m) of
                (rs, st) \<Rightarrow> (map_option (Cons refused) rs, st))
         | None \<Rightarrow>
             (case st_do site i req d budget of
                None \<Rightarrow> (None, d, budget, m)
              | Some (r, d, budget) \<Rightarrow>
                  (case run_items site expired (Suc i) reqs (d, budget, RecordGraphQLQuery (outcome_label r) m) of
                     (rs, st) \<Rightarrow> (map_option (Cons r) rs, st)))))"

text \<open>One value for a single request, an array for a batch; the encoder ends with a line feed.\<close>

definition encodeGraphQLResponse :: "'b site \<Rightarrow> gql_result list \<Rightarrow> bool \<Rightarrow> string" where
  "encodeGraphQLResponse site results isBatch =
     (if isBatch then ''['' @ join '','' (map (st_print site) results) @ '']''
      else st_print site (hd results)) @ nl"

subsection \<open>The handler\<close>

text \<open>\<open>io.ReadAll\<close> of the body behind \<open>MaxBytesReader\<close>.\<close>

definition read_body :: "'b site \<Rightarrow> request \<Rightarrow> string option" where
  "read_body site rq =
     (let maxBytes = max 0 (cfg_MaxRequestBodyMB (st_cfg site) * 1024 * 1024) in
      if rq_body_err rq \<or> int (length (rq_body rq)) > maxBytes then None else Some (rq_body rq))"

definition decode_body :: "string \<Rightarrow> string + (bool \<times> graphQLRequest list)" where
  "decode_body body =
     (if body \<noteq> [] \<and> hd body = CHR ''['' then
        (case unmarshal_batch body of
           None \<Rightarrow> Inl ''Invalid JSON array of queries.''
         | Some batch \<Rightarrow> Inr (True, batch))
      else
        (case unmarshal_single body of
           None \<Rightarrow> Inl ''Invalid JSON. Send a JSON object or array of queries.''
         | Some single \<Rightarrow> Inr (False, [single])))"

definition batch_too_large :: "'b site \<Rightarrow> nat \<Rightarrow> string" where
  "batch_too_large site n =
     ''Batch size '' @ show_nat n @ '' exceeds maximum of '' @ show_int (cfg_MaxBatchSize (st_cfg site))"

definition request_budget :: "'b site \<Rightarrow> requestBudget" where
  "request_budget site =
     NewRequestBudget (cfg_MaxProductsPerRequest (st_cfg site)) (cfg_MaxProductQueriesPerRequest (st_cfg site))"

definition execute_batch :: "'b site \<Rightarrow> bool \<Rightarrow> graphQLRequest list \<Rightarrow> happening \<Rightarrow> 'b server \<Rightarrow> 'b ran" where
  "execute_batch site isBatch batch hp sv =
     (case run_items site (hp_expired hp) 0 batch (sv_db sv, request_budget site, sv_metrics sv) of
        (results, d, budget, m) \<Rightarrow>
          let sv = sv\<lparr>sv_db := d, sv_metrics := m\<rparr> in
          (case results of
             None \<Rightarrow> \<lparr>ran_ops = [], ran_srv = sv, ran_panic = True\<rparr>
           | Some rs \<Rightarrow> respond [content_json, WriteBody (encodeGraphQLResponse site rs isBatch)] sv))"

definition handleGraphQL :: "'b site \<Rightarrow> 'b handler" where
  "handleGraphQL site rq hp sv =
     (if rq_method rq \<noteq> ''POST''
      then respond (writeError 405 ''method_not_allowed'' ''Method not allowed'') sv
      else if \<not> has_prefix (h_get (rq_header rq) ''Content-Type'') ''application/json''
      then respond (writeError 415 ''unsupported_media_type'' ''Content-Type must be application/json'') sv
      else
        (case read_body site rq of
           None \<Rightarrow> respond (writeError 400 ''bad_request'' ''Failed to read request body'') sv
         | Some body \<Rightarrow>
             (case decode_body body of
                Inl message \<Rightarrow> respond (writeError 400 ''invalid_json'' message) sv
              | Inr (isBatch, batch) \<Rightarrow>
                  if int (length batch) > cfg_MaxBatchSize (st_cfg site)
                  then respond (writeError 400 ''batch_too_large'' (batch_too_large site (length batch))) sv
                  else execute_batch site isBatch batch hp sv)))"

text \<open>The handler of the route, as \<open>publicHandler\<close> stacks it.\<close>

definition graphql_endpoint :: "'b site \<Rightarrow> 'b handler" where
  "graphql_endpoint site =
     instrument ''graphql''
       (requestIDMiddleware site (recoverMiddleware (rateLimitMiddleware site
         (authMiddleware site (inflightMiddleware site (handleGraphQL site))))))"

end
