(* ===== verification/Handler_Contract.thy ===== *)
theory Handler_Contract
  imports Graphql_Handler
begin

text \<open>
  The contract every handler of the API keeps, as the locale \<open>handler_contract\<close>: it sets headers,
  then sends at most one status, then writes the body, which is empty where the status forbids one;
  if it panics, nothing but headers was set; its status is one of a given set. The middlewares
  preserve it. Inside the locale the wrapping writers are related to the response: the status the
  access log and the metrics record is the one the client gets.
\<close>

subsection \<open>Well-shaped responses\<close>

definition is_header_op :: "wop \<Rightarrow> bool" where
  "is_header_op op = (case op of SetHeader k v \<Rightarrow> True | AddHeader k v \<Rightarrow> True | DelHeader k \<Rightarrow> True | _ \<Rightarrow> False)"

definition is_body_op :: "wop \<Rightarrow> bool" where
  "is_body_op op = (case op of WriteBody p \<Rightarrow> True | _ \<Rightarrow> False)"

definition well_shaped :: "wop list \<Rightarrow> bool" where
  "well_shaped ops =
     (case dropWhile is_header_op ops of
        WriteHeader n # bs \<Rightarrow> 200 \<le> n \<and> list_all is_body_op bs \<and> (\<not> body_allowed n \<longrightarrow> bs = [])
      | bs \<Rightarrow> list_all is_body_op bs)"

definition ops_status :: "wop list \<Rightarrow> nat" where
  "ops_status ops = sw_status (status_of ops)"

lemma op_kinds [simp]:
  "is_header_op (SetHeader k v)" "is_header_op (AddHeader k v)" "is_header_op (DelHeader k)"
  "\<not> is_header_op (WriteHeader n)" "\<not> is_header_op (WriteBody p)" "\<not> is_header_op FlushBody"
  "is_body_op (WriteBody p)" "\<not> is_body_op (WriteHeader n)" "\<not> is_body_op (SetHeader k v)"
  by (simp_all add: is_header_op_def is_body_op_def)

lemma content_json_header [simp]: "is_header_op content_json"
  by (simp add: content_json_def)

lemma well_shaped_prefix:
  "list_all is_header_op pre \<Longrightarrow> well_shaped (pre @ ops) = well_shaped ops"
  by (simp add: well_shaped_def list_all_iff dropWhile_append2)

lemma well_shaped_Cons: "is_header_op op \<Longrightarrow> well_shaped (op # ops) = well_shaped ops"
  by (simp add: well_shaped_def)

lemma well_shaped_headers: "list_all is_header_op ops \<Longrightarrow> well_shaped ops"
  using well_shaped_prefix [of ops "[]"] by (simp add: well_shaped_def)

lemma well_shaped_status: "200 \<le> n \<Longrightarrow> body_allowed n \<Longrightarrow> list_all is_body_op bs \<Longrightarrow> well_shaped (WriteHeader n # bs)"
  by (simp add: well_shaped_def)

lemma sw_fold_headers: "list_all is_header_op pre \<Longrightarrow> fold sw_step pre w = w"
  by (induction pre arbitrary: w) (auto simp: sw_step_def is_header_op_def split: wop.splits)

lemma ops_status_prefix: "list_all is_header_op pre \<Longrightarrow> ops_status (pre @ ops) = ops_status ops"
  by (simp add: ops_status_def status_of_def sw_fold_headers)

lemma ops_status_Cons: "is_header_op op \<Longrightarrow> ops_status (op # ops) = ops_status ops"
  using ops_status_prefix [of "[op]" ops] by simp

lemma ops_status_headers: "list_all is_header_op ops \<Longrightarrow> ops_status ops = 200"
  using ops_status_prefix [of ops "[]"] by (simp add: ops_status_def status_of_def statusWriter_init_def)

lemma sw_fold_bodies: "list_all is_body_op bs \<Longrightarrow> sw_status (fold sw_step bs w) = sw_status w"
  by (induction bs arbitrary: w) (auto simp: sw_step_def is_body_op_def split: wop.splits)

lemma ops_status_WriteHeader: "list_all is_body_op bs \<Longrightarrow> ops_status (WriteHeader n # bs) = n"
  by (simp add: ops_status_def status_of_def sw_fold_bodies) (simp add: sw_step_def)

lemma ops_status_bodies: "list_all is_body_op bs \<Longrightarrow> ops_status bs = 200"
  by (simp add: ops_status_def status_of_def sw_fold_bodies statusWriter_init_def)

lemmas shape_simps = well_shaped_Cons well_shaped_status ops_status_Cons ops_status_WriteHeader

text \<open>Every well-shaped sequence is headers, an optional status, a body.\<close>

lemma well_shaped_cases:
  assumes "well_shaped ops"
  obtains (status) pre n bs where "ops = pre @ WriteHeader n # bs" "list_all is_header_op pre" "200 \<le> n"
      "list_all is_body_op bs" "\<not> body_allowed n \<longrightarrow> bs = []"
  | (implicit) pre bs where "ops = pre @ bs" "list_all is_header_op pre" "list_all is_body_op bs"
proof -
  let ?pre = "takeWhile is_header_op ops"
  have pre: "list_all is_header_op ?pre" by (auto simp: list_all_iff dest: set_takeWhileD)
  have ops: "ops = ?pre @ dropWhile is_header_op ops" by simp
  show thesis
  proof (cases "\<exists>n bs. dropWhile is_header_op ops = WriteHeader n # bs")
    case True
    then obtain n bs where d: "dropWhile is_header_op ops = WriteHeader n # bs" by blast
    from assms d have "200 \<le> n" "list_all is_body_op bs" "\<not> body_allowed n \<longrightarrow> bs = []"
      by (simp_all add: well_shaped_def)
    then show ?thesis using ops [unfolded d] pre by (intro status)
  next
    case False
    then have "list_all is_body_op (dropWhile is_header_op ops)"
      using assms unfolding well_shaped_def
      by (cases "dropWhile is_header_op ops"; cases "hd (dropWhile is_header_op ops)") (simp_all del: dropWhile_eq_Nil_conv)
    with ops pre show ?thesis by (rule implicit)
  qed
qed

subsection \<open>The response of a well-shaped sequence\<close>

definition headers_of :: "wop list \<Rightarrow> header" where
  "headers_of ops = fold h_step ops (\<lambda>_. [])"

definition body_of :: "wop list \<Rightarrow> string" where
  "body_of ops = concat (map (\<lambda>op. case op of WriteBody p \<Rightarrow> p | _ \<Rightarrow> []) ops)"

lemma rw_fold_headers:
  "list_all is_header_op pre \<Longrightarrow> fold (rw_step hd_req) pre w = w\<lparr>rw_head := fold h_step pre (rw_head w)\<rparr>"
proof (induction pre arbitrary: w)
  case (Cons op pre)
  then have "rw_step hd_req op w = w\<lparr>rw_head := h_step op (rw_head w)\<rparr>"
    by (auto simp: rw_step_def is_header_op_def split: wop.splits)
  with Cons show ?case by simp
qed simp

lemma rw_fold_bodies:
  assumes "list_all is_body_op bs" "rw_sent w = Some (n, h)" "body_allowed n"
  shows "fold (rw_step hd_req) bs w = (if hd_req then w else w\<lparr>rw_body := rw_body w @ body_of bs\<rparr>)"
  using assms
proof (induction bs arbitrary: w)
  case (Cons op bs)
  then obtain p where "op = WriteBody p" by (cases op) (auto simp: is_body_op_def)
  with Cons show ?case by (auto simp: rw_step_def rw_commit_def body_of_def Let_def)
qed (simp add: body_of_def)

lemma fold_h_step_other: "list_all (\<lambda>op. \<not> is_header_op op) ops \<Longrightarrow> fold h_step ops h = h"
  by (induction ops arbitrary: h) (auto simp: h_step_def is_header_op_def split: wop.splits)

lemma headers_of_append: "list_all (\<lambda>op. \<not> is_header_op op) ops \<Longrightarrow> headers_of (pre @ ops) = headers_of pre"
  by (simp add: headers_of_def fold_h_step_other)

lemma body_not_header: "list_all is_body_op bs \<Longrightarrow> list_all (\<lambda>op. \<not> is_header_op op) bs"
  by (auto simp: list_all_iff is_body_op_def is_header_op_def split: wop.splits)

lemma body_of_headers: "list_all is_header_op pre \<Longrightarrow> body_of (pre @ ops) = body_of ops"
  by (induction pre) (auto simp: body_of_def is_header_op_def split: wop.splits)

text \<open>
  The response is: the status the writers around the handler recorded, the headers set, the
  concatenated body (none for a HEAD request).
\<close>

lemma response_well_shaped:
  assumes "well_shaped ops"
  shows "response_of hd_req ops
    = \<lparr>rs_status = ops_status ops, rs_header = headers_of ops, rs_body = (if hd_req then '''' else body_of ops)\<rparr>"
  using assms
proof (cases rule: well_shaped_cases)
  case (status pre n bs)
  let ?w = "\<lparr>rw_head = headers_of pre, rw_sent = Some (n, headers_of pre), rw_body = ''''\<rparr>"
  have "fold (rw_step hd_req) ops rw_init = fold (rw_step hd_req) bs ?w"
    using status by (simp add: rw_fold_headers rw_init_def headers_of_def rw_step_def rw_commit_def)
  moreover have "fold (rw_step hd_req) bs ?w = (if hd_req then ?w else ?w\<lparr>rw_body := body_of bs\<rparr>)"
  proof (cases "body_allowed n")
    case True
    then show ?thesis using rw_fold_bodies [of bs ?w] status by simp
  next
    case False
    with status show ?thesis by (simp add: body_of_def)
  qed
  moreover have "body_of ops = body_of bs" using status by (simp add: body_of_headers) (simp add: body_of_def)
  moreover have "headers_of ops = headers_of pre"
    using status body_not_header by (simp add: headers_of_append)
  ultimately show ?thesis
    using status by (simp add: response_of_def rw_commit_def ops_status_prefix ops_status_WriteHeader)
next
  case (implicit pre bs)
  have a: "body_allowed 200" by (simp add: body_allowed_def)
  have h: "headers_of ops = headers_of pre" "body_of ops = body_of bs"
    using implicit body_not_header by (simp_all add: headers_of_append body_of_headers)
  have w: "fold (rw_step hd_req) pre rw_init = rw_init\<lparr>rw_head := headers_of pre\<rparr>"
    using implicit by (simp add: rw_fold_headers headers_of_def rw_init_def)
  show ?thesis
  proof (cases bs)
    case Nil
    with implicit h w show ?thesis
      by (simp add: response_of_def rw_commit_def rw_init_def ops_status_headers body_of_def)
  next
    case (Cons op bs')
    with implicit obtain p where p: "op = WriteBody p" by (cases op) (auto simp: is_body_op_def)
    let ?w = "\<lparr>rw_head = headers_of pre, rw_sent = Some (200, headers_of pre), rw_body = (if hd_req then '''' else p)\<rparr>"
    have "fold (rw_step hd_req) ops rw_init = fold (rw_step hd_req) bs' ?w"
      using implicit w Cons p a by (simp add: rw_step_def rw_commit_def rw_init_def Let_def)
    also have "\<dots> = (if hd_req then ?w else ?w\<lparr>rw_body := p @ body_of bs'\<rparr>)"
      using rw_fold_bodies [of bs' ?w] implicit Cons a by simp
    finally show ?thesis
      using implicit h Cons p
      by (simp add: response_of_def rw_commit_def ops_status_prefix ops_status_bodies body_of_def)
  qed
qed

subsection \<open>The contract\<close>

definition ran_ok :: "nat set \<Rightarrow> 'b ran \<Rightarrow> bool" where
  "ran_ok S r \<longleftrightarrow>
     well_shaped (ran_ops r) \<and> ops_status (ran_ops r) \<in> S
     \<and> (ran_panic r \<longrightarrow> list_all is_header_op (ran_ops r))"

locale handler_contract =
  fixes h :: "'b handler" and S :: "nat set"
  assumes ok: "ran_ok S (h rq hp sv)"
begin

lemma recorded_status:
  "rs_status (response_of hd_req (ran_ops (h rq hp sv))) = ops_status (ran_ops (h rq hp sv))"
  using ok by (simp add: response_well_shaped ran_ok_def)

lemma status_known: "rs_status (response_of hd_req (ran_ops (h rq hp sv))) \<in> S"
  using ok by (simp add: recorded_status ran_ok_def)

lemma body_sent:
  "rs_body (response_of hd_req (ran_ops (h rq hp sv))) = (if hd_req then '''' else body_of (ran_ops (h rq hp sv)))"
  using ok by (simp add: response_well_shaped ran_ok_def)

lemma header_sent: "rs_header (response_of hd_req (ran_ops (h rq hp sv))) = headers_of (ran_ops (h rq hp sv))"
  using ok by (simp add: response_well_shaped ran_ok_def)

end

text \<open>A handler that never panics.\<close>

locale total_handler = handler_contract +
  assumes no_panic: "\<not> ran_panic (h rq hp sv)"

named_theorems contract_intros "handlers and middlewares keep the contract"

lemma respond_simps [simp]:
  "ran_ops (respond ops sv) = ops" "ran_srv (respond ops sv) = sv" "\<not> ran_panic (respond ops sv)"
  by (simp_all add: respond_def)

lemma bodies_allowed [simp]:
  "body_allowed 200" "body_allowed 400" "body_allowed 403" "body_allowed 404" "body_allowed 405"
  "body_allowed 415" "body_allowed 429" "body_allowed 500" "body_allowed 503"
  by (simp_all add: body_allowed_def)

lemma ran_ok_respond: "well_shaped ops \<Longrightarrow> ops_status ops \<in> S \<Longrightarrow> ran_ok S (respond ops sv)"
  by (simp add: ran_ok_def)

lemma ran_ok_writeError:
  "200 \<le> n \<Longrightarrow> body_allowed n \<Longrightarrow> n \<in> S \<Longrightarrow> ran_ok S (respond (writeError n c m) sv)"
  by (rule ran_ok_respond) (simp_all add: writeError_def shape_simps)

lemma ran_ok_srv [simp]: "ran_ok S (r\<lparr>ran_srv := sv\<rparr>) = ran_ok S r"
  by (simp add: ran_ok_def)

lemma ran_ok_prefix: "list_all is_header_op ops \<Longrightarrow> ran_ok S (prefix_ops ops r) = ran_ok S r"
  by (auto simp: ran_ok_def prefix_ops_def well_shaped_prefix ops_status_prefix)

lemma auth_contract [contract_intros]:
  "handler_contract h S \<Longrightarrow> 403 \<in> S \<Longrightarrow> handler_contract (authMiddleware site h) S"
  by (simp add: handler_contract_def authMiddleware_def Let_def ran_ok_respond shape_simps)

lemma rate_contract [contract_intros]:
  "handler_contract h S \<Longrightarrow> 429 \<in> S \<Longrightarrow> handler_contract (rateLimitMiddleware site h) S"
  by (simp add: handler_contract_def rateLimitMiddleware_def Let_def ran_ok_respond shape_simps split: prod.split)

lemma release_slot_ok [simp]: "ran_ok S (release_slot r) = ran_ok S r"
  by (simp add: release_slot_def)

lemma inflight_contract [contract_intros]:
  assumes "handler_contract h S" "503 \<in> S" "200 \<in> S"
  shows "handler_contract (inflightMiddleware site h) S"
proof
  fix rq hp sv
  show "ran_ok S (inflightMiddleware site h rq hp sv)"
    using assms
    by (cases "hp_slot hp")
      (auto simp: handler_contract_def inflightMiddleware_def ran_ok_respond shape_simps writeError_def
         well_shaped_headers ops_status_headers)
qed

text \<open>Recovering turns a panic into a 500, as nothing but headers was set.\<close>

lemma header_written_headers: "list_all is_header_op ops \<Longrightarrow> \<not> header_written ops"
proof -
  have "fold rt_step ops b = b" if "list_all is_header_op ops" for b
    using that by (induction ops) (auto simp: rt_step_def is_header_op_def split: wop.splits)
  then show "list_all is_header_op ops \<Longrightarrow> \<not> header_written ops" by (simp add: header_written_def)
qed

lemma recover_contract [contract_intros]:
  assumes "handler_contract h S" "500 \<in> S"
  shows "total_handler (recoverMiddleware h) S"
proof
  fix rq hp sv
  show "ran_ok S (recoverMiddleware h rq hp sv)"
    using assms
    by (auto simp: handler_contract_def recoverMiddleware_def Let_def ran_ok_def header_written_headers
        well_shaped_prefix ops_status_prefix shape_simps)
  show "\<not> ran_panic (recoverMiddleware h rq hp sv)"
    by (simp add: recoverMiddleware_def Let_def)
qed

lemma requestID_contract [contract_intros]:
  "total_handler h S \<Longrightarrow> total_handler (requestIDMiddleware site h) S"
  by (simp add: total_handler_def total_handler_axioms_def handler_contract_def requestIDMiddleware_def Let_def
      ran_ok_def shape_simps)

lemma instrument_contract [contract_intros]:
  "total_handler h S \<Longrightarrow> total_handler (instrument label h) S"
  by (simp add: total_handler_def total_handler_axioms_def handler_contract_def instrument_def Let_def)

lemma security_contract [contract_intros]:
  "total_handler h S \<Longrightarrow> total_handler (securityHeadersMiddleware h) S"
  by (simp add: total_handler_def total_handler_axioms_def handler_contract_def securityHeadersMiddleware_def
      ran_ok_prefix) (simp add: prefix_ops_def)

lemma cors_contract [contract_intros]:
  assumes "total_handler h S" "204 \<in> S"
  shows "total_handler (corsMiddleware origins h) S"
proof
  fix rq hp sv
  have b: "\<not> body_allowed 204" by (simp add: body_allowed_def)
  have p: "ran_panic (prefix_ops ops r) = ran_panic r" for ops and r :: "'a ran" by (simp add: prefix_ops_def)
  have "well_shaped [WriteHeader 204]" "ops_status [WriteHeader 204] = 204"
    by (simp_all add: well_shaped_def ops_status_WriteHeader)
  with assms b p show "ran_ok S (corsMiddleware origins h rq hp sv)" "\<not> ran_panic (corsMiddleware origins h rq hp sv)"
    by (auto simp: corsMiddleware_def Let_def total_handler_def total_handler_axioms_def handler_contract_def
        ran_ok_prefix shape_simps intro!: ran_ok_respond)
qed

subsection \<open>The endpoint /graphql\<close>

lemma handleGraphQL_contract [contract_intros]:
  "handler_contract (handleGraphQL site) {200, 400, 405, 415}"
proof
  fix rq hp and sv :: "'a server"
  have e: "ran_ok {200, 400, 405, 415} (execute_batch site isBatch batch hp sv)" for isBatch batch
    by (auto simp: execute_batch_def ran_ok_def well_shaped_Cons ops_status_Cons Let_def well_shaped_def
        ops_status_bodies ops_status_headers split: prod.splits option.splits)
  show "ran_ok {200, 400, 405, 415} (handleGraphQL site rq hp sv)"
    by (auto simp: handleGraphQL_def e intro!: ran_ok_writeError split: option.split sum.split prod.split)
qed

lemma contract_mono: "handler_contract h S \<Longrightarrow> S \<subseteq> T \<Longrightarrow> handler_contract h T"
  by (auto simp: handler_contract_def ran_ok_def)

definition graphql_statuses :: "nat set" where
  "graphql_statuses = {200, 400, 403, 405, 415, 429, 500, 503}"

lemma graphql_endpoint_total: "total_handler (graphql_endpoint site) graphql_statuses"
  unfolding graphql_endpoint_def
  by (intro contract_intros contract_mono [OF handleGraphQL_contract]) (auto simp: graphql_statuses_def)

interpretation gq: total_handler "graphql_endpoint site" graphql_statuses for site
  by (rule graphql_endpoint_total)

end
