(* ===== verification/Graphql_Safety.thy ===== *)
theory Graphql_Safety
  imports Handler_Contract
begin

text \<open>
  What \<open>POST /graphql\<close> guarantees: the type of its responses and its log, the API key, the guards on
  the items of a batch, and the budget of the request. The GraphQL executor is reached through the
  interface \<open>graphql_executor\<close>; it is interpreted on the execution of products fields by the
  resolvers of the model.
\<close>

subsection \<open>Headers the handlers leave alone\<close>

definition leaves :: "string \<Rightarrow> wop \<Rightarrow> bool" where
  "leaves k op =
     (case op of SetHeader k' v \<Rightarrow> canonical_key k' \<noteq> k | AddHeader k' v \<Rightarrow> canonical_key k' \<noteq> k
      | DelHeader k' \<Rightarrow> canonical_key k' \<noteq> k | _ \<Rightarrow> True)"

lemma leaves_fold: "list_all (leaves k) ops \<Longrightarrow> fold h_step ops h k = h k"
  by (induction ops arbitrary: h) (auto simp: leaves_def h_step_def split: wop.splits)

lemma leaves_simps [simp]:
  "leaves k (WriteHeader n)" "leaves k (WriteBody p)"
  "leaves k (SetHeader k' v) \<longleftrightarrow> canonical_key k' \<noteq> k"
  by (simp_all add: leaves_def)

lemma header_names:
  "canonical_key ''Content-Type'' = ''Content-Type''" "canonical_key ''Retry-After'' = ''Retry-After''"
  "canonical_key ''X-Request-ID'' = ''X-Request-Id''"
  by code_simp+

text \<open>
  A policy on the calls on the writer that everything \<open>/graphql\<close> does obeys when it allows the few
  calls its handlers make.
\<close>

locale op_policy =
  fixes P :: "wop \<Rightarrow> bool"
  assumes status_op: "P (WriteHeader n)" and body_op: "P (WriteBody p)" and json_op: "P content_json"
    and retry_op: "P (SetHeader ''Retry-After'' v)"
begin

definition obeys :: "'b handler \<Rightarrow> bool" where
  "obeys h \<longleftrightarrow> (\<forall>rq hp sv. list_all P (ran_ops (h rq hp sv)))"

lemmas graphql_op_rules = status_op body_op json_op retry_op obeys_def

lemma obeys_handleGraphQL: "obeys (handleGraphQL site)"
  by (auto simp: graphql_op_rules handleGraphQL_def execute_batch_def writeError_def Let_def
      split: option.split sum.split prod.split)

lemma obeys_inflight: "obeys h \<Longrightarrow> obeys (inflightMiddleware site h)"
  by (simp add: graphql_op_rules inflightMiddleware_def release_slot_def writeError_def split: slot_wait.split)

lemma obeys_auth: "obeys h \<Longrightarrow> obeys (authMiddleware site h)"
  by (simp add: graphql_op_rules authMiddleware_def Let_def)

lemma obeys_rate: "obeys h \<Longrightarrow> obeys (rateLimitMiddleware site h)"
  by (simp add: graphql_op_rules rateLimitMiddleware_def Let_def split: prod.split)

lemma obeys_recover: "obeys h \<Longrightarrow> obeys (recoverMiddleware h)"
  by (simp add: graphql_op_rules recoverMiddleware_def Let_def)

lemma obeys_instrument: "obeys h \<Longrightarrow> obeys (instrument l h)"
  by (simp add: obeys_def instrument_def Let_def)

end

definition graphql_inner :: "'b site \<Rightarrow> 'b handler" where
  "graphql_inner site =
     recoverMiddleware (rateLimitMiddleware site (authMiddleware site (inflightMiddleware site (handleGraphQL site))))"

context op_policy begin

lemma obeys_inner: "obeys (graphql_inner site)"
  unfolding graphql_inner_def
  by (intro obeys_recover obeys_rate obeys_auth obeys_inflight obeys_handleGraphQL)

lemma inner_ops: "list_all P (ran_ops (graphql_inner site rq hp sv))"
  using obeys_inner [of site] by (simp add: obeys_def)

end

interpretation ids: op_policy "leaves ''X-Request-Id''"
  by unfold_locales (simp_all add: content_json_def header_names)

text \<open>The content type: it is set to JSON or not at all, and whatever writes something has set it.\<close>

interpretation cts: op_policy "\<lambda>op. op = content_json \<or> leaves ''Content-Type'' op"
  by unfold_locales (simp_all add: header_names)

lemma content_type_fold:
  assumes "list_all (\<lambda>op. op = content_json \<or> leaves ''Content-Type'' op) ops"
  shows "fold h_step ops h ''Content-Type'' = (if content_json \<in> set ops then [''application/json''] else h ''Content-Type'')"
  using assms
proof (induction ops arbitrary: h)
  case (Cons op ops)
  have "h_step content_json h ''Content-Type'' = [''application/json'']" by (simp add: h_step_def content_json_def header_names)
  moreover have "op \<noteq> content_json \<Longrightarrow> h_step op h ''Content-Type'' = h ''Content-Type''"
    using Cons.prems leaves_fold [of "''Content-Type''" "[op]" h] by simp
  ultimately show ?case using Cons by auto
qed simp

definition says_json :: "'b handler \<Rightarrow> bool" where
  "says_json h \<longleftrightarrow> (\<forall>rq hp sv. ran_ops (h rq hp sv) = [] \<or> content_json \<in> set (ran_ops (h rq hp sv)))"

lemma inner_says_json: "says_json (graphql_inner site)"
proof -
  have "says_json (handleGraphQL site)"
    by (auto simp: says_json_def handleGraphQL_def execute_batch_def writeError_def Let_def
      split: option.split sum.split prod.split)
  then have "says_json (inflightMiddleware site (handleGraphQL site))"
    by (auto simp: says_json_def inflightMiddleware_def release_slot_def writeError_def split: slot_wait.split)
  then have "says_json (authMiddleware site (inflightMiddleware site (handleGraphQL site)))"
    by (auto simp: says_json_def authMiddleware_def Let_def)
  then have "says_json (rateLimitMiddleware site (authMiddleware site (inflightMiddleware site (handleGraphQL site))))"
    by (auto simp: says_json_def rateLimitMiddleware_def Let_def split: prod.split)
  then show ?thesis by (auto simp: says_json_def graphql_inner_def recoverMiddleware_def Let_def)
qed

lemma inner_total: "total_handler (graphql_inner site) graphql_statuses"
  unfolding graphql_inner_def
  by (intro contract_intros contract_mono [OF handleGraphQL_contract]) (auto simp: graphql_statuses_def)

interpretation gi: total_handler "graphql_inner site" graphql_statuses for site
  by (rule inner_total)

lemma endpoint_unfold:
  "graphql_endpoint site rq hp sv =
     (let r = graphql_inner site rq hp sv; sw = status_of (ran_ops r); reqID = request_id rq hp;
          entry = \<lparr>ac_method = rq_method rq,
                   ac_path = redactSensitiveParams (st_url_head site) (st_url_frag site) (rq_uri rq),
                   ac_status = sw_status sw, ac_request_id = reqID, ac_ip = clientIP site rq\<rparr>
      in \<lparr>ran_ops = SetHeader ''X-Request-ID'' reqID # ran_ops r,
          ran_srv = (ran_srv r)\<lparr>sv_log := sv_log (ran_srv r) @ [entry],
            sv_metrics := recordHTTPMetrics ''graphql'' (rq_method rq) (sw_status sw) (sw_bytes sw)
                            (sv_metrics (ran_srv r))\<rparr>,
          ran_panic = False\<rparr>)"
  using gi.no_panic [of site rq hp sv]
  by (simp add: graphql_endpoint_def graphql_inner_def [symmetric] instrument_def requestIDMiddleware_def Let_def
      status_of_def sw_step_def)

subsection \<open>Request identifiers\<close>

definition happening_ok :: "happening \<Rightarrow> bool" where
  "happening_ok hp \<longleftrightarrow> (case hp_rand hp of None \<Rightarrow> in_int64 (hp_now hp) | Some b \<Rightarrow> length b = 8)"

definition id_char :: "char \<Rightarrow> bool" where
  "id_char c \<longleftrightarrow>
     (let b = byte c in (65 \<le> b \<and> b \<le> 90) \<or> (97 \<le> b \<and> b \<le> 122) \<or> (48 \<le> b \<and> b \<le> 57)
      \<or> c = CHR ''_'' \<or> c = CHR ''-'')"

lemma validRequestID_iff: "validRequestID s \<longleftrightarrow> 1 \<le> length s \<and> length s \<le> 64 \<and> list_all id_char s"
  by (simp add: validRequestID_def id_char_def [abs_def])

lemma hex_lower_id: "id_char (hex_lower d)"
proof -
  have "list_all (\<lambda>d. id_char (hex_lower d)) [0..<16]" by code_simp
  then have "id_char (hex_lower (d mod 16))" unfolding list_all_iff by (rule bspec) simp
  then show ?thesis by (simp add: hex_lower_def)
qed

lemma hex_bytes_id: "list_all id_char (hex_bytes s)"
  by (induction s) (simp_all add: hex_bytes_def hex_lower_id)

lemma digit_char_id: "d < 10 \<Longrightarrow> id_char (digit_char d)"
proof -
  have "list_all (\<lambda>d. id_char (digit_char d)) [0..<10]" by code_simp
  moreover assume "d < 10"
  ultimately show ?thesis by (simp add: list_all_iff)
qed

lemma show_nat_id: "list_all id_char (show_nat n)"
  by (induction n rule: show_nat.induct) (subst show_nat.simps, auto simp: digit_char_id)

lemma length_show_nat: "n < 10 ^ Suc k \<Longrightarrow> length (show_nat n) \<le> Suc k"
proof (induction k arbitrary: n)
  case 0
  then show ?case by (subst show_nat.simps) simp
next
  case (Suc k)
  show ?case
  proof (cases "n < 10")
    case True
    then show ?thesis by (subst show_nat.simps) simp
  next
    case False
    have "n div 10 < 10 ^ Suc k" using Suc.prems by (simp add: div_less_iff_less_mult mult.commute)
    from Suc.IH [OF this] False show ?thesis by (subst show_nat.simps) simp
  qed
qed

lemma show_int_id:
  assumes "in_int64 n"
  shows "validRequestID (show_int n)"
proof -
  have "nat \<bar>n\<bar> < 10 ^ Suc 18" using assms by (simp add: in_int64_def max_int64_def min_int64_def nat_less_iff abs_if)
  from length_show_nat [OF this] have "length (show_nat (nat \<bar>n\<bar>)) \<le> 19" by simp
  moreover have "id_char (CHR ''-'')" by (simp add: id_char_def Let_def)
  moreover have "1 \<le> length (show_nat m)" for m by (cases "show_nat m") simp_all
  ultimately show ?thesis
    using show_nat_id by (auto simp: validRequestID_iff show_int_def abs_if split: if_splits)
qed

lemma request_id_valid: "happening_ok hp \<Longrightarrow> validRequestID (request_id rq hp)"
  using hex_bytes_id show_int_id
  by (auto simp: request_id_def happening_ok_def Let_def validRequestID_iff split: option.splits)

text \<open>
  C26: the type of a response of \<open>/graphql\<close>. For every request and whatever happens meanwhile, panics
  of the GraphQL library included, the handler returns normally; what it wrote is headers, at most one status, then
  the body, of content type JSON; the client gets one of eight statuses and exactly one request identifier, of at most 64
  characters that cannot break a log line; and the access log and the request counter record exactly
  this status and identifier.
\<close>

theorem graphql_response_typed:
  assumes "happening_ok hp"
  shows "let r = graphql_endpoint site rq hp sv; resp = response_of is_head (ran_ops r); m = sv_metrics (ran_srv r);
             key = (''graphql'', rq_method rq, show_nat (rs_status resp))
    in \<not> ran_panic r \<and> well_shaped (ran_ops r)
      \<and> rs_status resp \<in> {200, 400, 403, 405, 415, 429, 500, 503}
      \<and> (rs_body resp = '''' \<or> rs_header resp ''Content-Type'' = [''application/json''])
      \<and> rs_header resp ''X-Request-Id'' = [request_id rq hp] \<and> validRequestID (request_id rq hp)
      \<and> ac_status (last (sv_log (ran_srv r))) = rs_status resp
      \<and> ac_request_id (last (sv_log (ran_srv r))) = request_id rq hp
      \<and> http_requests_total m key \<noteq> None"
proof -
  let ?r = "graphql_endpoint site rq hp sv" and ?i = "graphql_inner site rq hp sv"
  have ops: "ran_ops ?r = SetHeader ''X-Request-ID'' (request_id rq hp) # ran_ops ?i"
    by (simp add: endpoint_unfold Let_def)
  have st: "rs_status (response_of is_head (ran_ops ?r)) = sw_status (status_of (ran_ops ?i))"
    by (simp only: gq.recorded_status) (simp add: ops ops_status_Cons, simp add: ops_status_def)
  have "rs_header (response_of is_head (ran_ops ?r)) ''X-Request-Id'' = [request_id rq hp]"
    by (simp only: gq.header_sent)
      (simp add: headers_of_def ops leaves_fold [OF ids.inner_ops], simp add: h_step_def header_names)
  moreover have "well_shaped (ran_ops ?r)" using gq.ok [of site rq hp sv] by (simp add: ran_ok_def)
  moreover have "rs_body (response_of is_head (ran_ops ?r)) = ''''
      \<or> rs_header (response_of is_head (ran_ops ?r)) ''Content-Type'' = [''application/json'']"
    using inner_says_json [of site, unfolded says_json_def, rule_format, of rq hp sv]
    by (simp only: gq.header_sent gq.body_sent)
      (auto simp: headers_of_def body_of_def ops content_type_fold [OF cts.inner_ops])
  moreover have "rs_status (response_of is_head (ran_ops ?r)) \<in> {200, 400, 403, 405, 415, 429, 500, 503}"
    using gq.status_known [of is_head site rq hp sv] by (simp only: graphql_statuses_def)
  moreover have "ac_status (last (sv_log (ran_srv ?r))) = sw_status (status_of (ran_ops ?i))"
    "ac_request_id (last (sv_log (ran_srv ?r))) = request_id rq hp"
    by (simp_all add: endpoint_unfold Let_def)
  moreover have "http_requests_total (sv_metrics (ran_srv ?r))
      (''graphql'', rq_method rq, show_nat (sw_status (status_of (ran_ops ?i)))) \<noteq> None"
    by (simp add: endpoint_unfold Let_def recordHTTPMetrics_def bump_def)
  ultimately show ?thesis
    using request_id_valid [OF assms] gq.no_panic [of site rq hp sv] unfolding Let_def st by blast
qed

text \<open>A site whose library answers every query with an empty list, and a request to it.\<close>

definition plain_config :: config where
  "plain_config = Load (\<lambda>_. None) (\<lambda>_. '''')"

definition empty_answer :: gql_result where
  "empty_answer = \<lparr>res_data = JObj [(''products'', JArr [])], res_errors = []\<rparr>"

definition sample_site :: "config \<Rightarrow> unit site" where
  "sample_site cfg =
     \<lparr>st_cfg = cfg, st_proxies = [], st_ips = [], st_cap = 1, st_new_bucket = (\<lambda>r b. ()),
      st_allow = (\<lambda>b t. (True, ())), st_parse = (\<lambda>q. Some []),
      st_do = (\<lambda>i req d b. Some (empty_answer, d\<lparr>now := now d + 1\<rparr>, b)),
      st_print = (\<lambda>r. json_print (res_data r)), st_url_head = Some, st_url_frag = Some\<rparr>"

definition no_metrics :: metrics where
  "no_metrics =
     \<lparr>http_requests_total = Map.empty, http_request_duration_seconds = Map.empty,
      http_response_bytes_total = Map.empty, scrape_runs_last_success_seconds = Map.empty,
      products_total = Map.empty, graphql_queries_total = Map.empty\<rparr>"

definition fresh_server :: "unit server" where
  "fresh_server =
     \<lparr>sv_limiters = no_limiters, sv_inflight = 0, sv_db = fresh_db 0 [], sv_metrics = no_metrics, sv_log = []\<rparr>"

definition sample_header :: "string \<Rightarrow> header" where
  "sample_header key =
     (\<lambda>_. [])(''Content-Type'' := [''application/json''], ''X-Api-Key'' := [key], ''X-Request-Id'' := [''a b''])"

definition sample_query_request :: "string \<Rightarrow> request" where
  "sample_query_request key =
     \<lparr>rq_method = ''POST'', rq_path = ''/graphql'', rq_uri = ''/graphql'', rq_remote = ''10.0.0.1:5000'',
      rq_header = sample_header key, rq_body = json_print (request_json \<lparr>cr_query = ''{products}'', cr_variables = []\<rparr>),
      rq_body_err = False\<rparr>"

definition sample_happening :: happening where
  "sample_happening =
     \<lparr>hp_now = 5, hp_rand = None, hp_slot = SlotTimeout, hp_expired = (\<lambda>_. False), hp_ping = True\<rparr>"

theorem graphql_response_typed_witness:
  "(let resp = response_of False (ran_ops (graphql_endpoint (sample_site plain_config) (sample_query_request ''k'')
                  sample_happening fresh_server))
    in rs_header resp ''X-Request-Id'' = [request_id (sample_query_request ''k'') sample_happening])
   \<and> request_id (sample_query_request ''k'') sample_happening = ''5''"
proof
  have "happening_ok sample_happening" by code_simp
  from graphql_response_typed [OF this, of "sample_site plain_config" "sample_query_request ''k''" fresh_server False]
  show "let resp = response_of False (ran_ops (graphql_endpoint (sample_site plain_config) (sample_query_request ''k'')
                  sample_happening fresh_server))
    in rs_header resp ''X-Request-Id'' = [request_id (sample_query_request ''k'') sample_happening]"
    unfolding Let_def by blast
  show "request_id (sample_query_request ''k'') sample_happening = ''5''"
    by code_simp
qed

subsection \<open>The API key\<close>

definition authorised :: "'b site \<Rightarrow> request \<Rightarrow> bool" where
  "authorised site rq \<longleftrightarrow>
     cfg_APIKey (st_cfg site) = '''' \<or> sha256 (presented_key rq) = sha256 (cfg_APIKey (st_cfg site))"

lemma auth_refused:
  "\<not> authorised site rq \<Longrightarrow> authMiddleware site h rq hp sv
     = respond [content_json, WriteHeader 403,
         WriteBody (const_json [(''error'', ''Invalid API key''), (''error_code'', ''invalid_api_key'')])] sv"
  by (simp add: authMiddleware_def authorised_def)

lemma inner_refused:
  assumes "\<not> authorised site rq"
  shows "let r = graphql_inner site rq hp sv in
     (\<exists>ls. ran_srv r = sv\<lparr>sv_limiters := ls\<rparr>) \<and> ops_status (ran_ops r) \<in> {403, 429}"
  using assms
  by (auto simp: graphql_inner_def recoverMiddleware_def rateLimitMiddleware_def auth_refused Let_def
      ops_status_Cons ops_status_WriteHeader split: prod.split)

text \<open>
  C24: the API key guards everything behind it. When a key is configured and a request changed the
  database, a GraphQL counter or the slots, or got an answer other than 403 or 429, then it
  presented a key with the same SHA-256 digest (in \<open>Authorization: Bearer\<close>, or else in \<open>X-Api-Key\<close>).
\<close>

theorem effects_need_the_key:
  assumes "r = graphql_endpoint site rq hp sv" "cfg_APIKey (st_cfg site) \<noteq> ''''"
    and "sv_db (ran_srv r) \<noteq> sv_db sv
      \<or> graphql_queries_total (sv_metrics (ran_srv r)) \<noteq> graphql_queries_total (sv_metrics sv)
      \<or> sv_inflight (ran_srv r) \<noteq> sv_inflight sv
      \<or> rs_status (response_of is_head (ran_ops r)) \<notin> {403, 429}"
  shows "sha256 (presented_key rq) = sha256 (cfg_APIKey (st_cfg site))"
proof (rule ccontr)
  assume "\<not> ?thesis"
  with assms(2) have na: "\<not> authorised site rq" by (simp add: authorised_def)
  from inner_refused [OF this, of hp sv] obtain ls where
    i: "ran_srv (graphql_inner site rq hp sv) = sv\<lparr>sv_limiters := ls\<rparr>"
      "ops_status (ran_ops (graphql_inner site rq hp sv)) \<in> {403, 429}"
    by (auto simp: Let_def)
  have s: "ran_srv r = (sv\<lparr>sv_limiters := ls\<rparr>)\<lparr>sv_log := sv_log (ran_srv r), sv_metrics := sv_metrics (ran_srv r)\<rparr>"
    "graphql_queries_total (sv_metrics (ran_srv r)) = graphql_queries_total (sv_metrics sv)"
    using i(1) unfolding assms(1) by (simp_all add: endpoint_unfold Let_def recordHTTPMetrics_def)
  have "sv_db (ran_srv r) = sv_db sv" "sv_inflight (ran_srv r) = sv_inflight sv"
    by (subst s(1), simp)+
  moreover have "rs_status (response_of is_head (ran_ops r)) \<in> {403, 429}"
    using i(2) unfolding assms(1) gq.recorded_status by (simp add: endpoint_unfold Let_def ops_status_Cons)
  ultimately show False using assms(3) s(2) by blast
qed

definition keyed_config :: config where
  "keyed_config = plain_config\<lparr>cfg_APIKey := ''k''\<rparr>"

lemma sample_run:
  "sv_db (ran_srv (graphql_endpoint (sample_site keyed_config) (sample_query_request ''k'') sample_happening fresh_server))
   = (sv_db fresh_server)\<lparr>now := 1\<rparr>"
proof -
  have k: "presented_key (sample_query_request ''k'') = ''k''" "cfg_APIKey (st_cfg (sample_site keyed_config)) = ''k''"
    by code_simp+
  let ?h = "\<lambda>sv. handleGraphQL (sample_site keyed_config) (sample_query_request ''k'') sample_happening sv"
  have rate: "rate_admit (st_new_bucket (sample_site keyed_config)) (st_allow (sample_site keyed_config))
      (cfg_RateLimitPerSec (st_cfg (sample_site keyed_config))) (hp_now sample_happening)
      (clientIP (sample_site keyed_config) (sample_query_request ''k'')) (sv_limiters fresh_server)
    = (True, \<lparr>rateLimiters = [''10.0.0.1''], rateLRU = [\<lparr>il_ip = ''10.0.0.1'', il_limiter = (), il_lastUse = 5\<rparr>]\<rparr>)"
    by code_simp
  have run: "(let r = ?h (fresh_server\<lparr>sv_limiters := ls, sv_inflight := 1\<rparr>) in (sv_db (ran_srv r), ran_panic r))
    = ((sv_db fresh_server)\<lparr>now := 1\<rparr>, False)" for ls
    by code_simp
  let ?S = "sample_site keyed_config" and ?q = "sample_query_request ''k''"
  have cap: "st_cap ?S = 1" by (simp add: sample_site_def)
  have auth: "authMiddleware ?S h ?q sample_happening sv = h ?q sample_happening sv" for h sv
    by (simp add: authMiddleware_def k)
  have slot: "inflightMiddleware ?S h ?q sample_happening (fresh_server\<lparr>sv_limiters := ls\<rparr>)
    = release_slot (h ?q sample_happening (fresh_server\<lparr>sv_limiters := ls, sv_inflight := 1\<rparr>))" for h ls
    by (simp add: inflightMiddleware_def cap) (simp add: fresh_server_def)
  obtain ls where "graphql_inner ?S ?q sample_happening fresh_server
      = recoverMiddleware (\<lambda>rq hp sv. release_slot (?h (fresh_server\<lparr>sv_limiters := ls, sv_inflight := 1\<rparr>)))
          ?q sample_happening fresh_server"
    by (simp add: graphql_inner_def recoverMiddleware_def rateLimitMiddleware_def rate auth slot Let_def)
  then show ?thesis
    using run [of ls] by (simp add: endpoint_unfold recoverMiddleware_def release_slot_def Let_def)
qed

theorem effects_need_the_key_witness:
  "sha256 (presented_key (sample_query_request ''k'')) = sha256 (cfg_APIKey (st_cfg (sample_site keyed_config)))
   \<and> presented_key (sample_query_request ''k'') = ''k''"
proof
  have "cfg_APIKey (st_cfg (sample_site keyed_config)) \<noteq> ''''" by code_simp
  moreover have "sv_db (ran_srv (graphql_endpoint (sample_site keyed_config) (sample_query_request ''k'')
      sample_happening fresh_server)) \<noteq> sv_db fresh_server"
    by (simp add: sample_run) (simp add: fresh_server_def fresh_db_def)
  ultimately show "sha256 (presented_key (sample_query_request ''k'')) = sha256 (cfg_APIKey (st_cfg (sample_site keyed_config)))"
    using effects_need_the_key [OF refl, of "sample_site keyed_config" "sample_query_request ''k''" sample_happening fresh_server]
    by blast
  show "presented_key (sample_query_request ''k'') = ''k''" by code_simp
qed

subsection \<open>The guards of a batch\<close>

lemma run_items_length:
  "run_items site e i reqs st = (Some rs, st') \<Longrightarrow> length rs = length reqs"
proof (induction reqs arbitrary: i st rs st')
  case (Cons req reqs)
  then show ?case
    by (cases st; cases st') (fastforce split: if_splits option.splits prod.splits)
qed simp

text \<open>What each item of the batch gets: time over, a refusal, or an answer of the library.\<close>

lemma run_items_nth:
  assumes "run_items site e i reqs st = (Some rs, st')" "k < length reqs"
    and "\<And>j. j < k \<Longrightarrow> \<not> e (i + j)"
  shows "rs ! k = (if e (i + k) then result_error ''query timeout exceeded''
     else (case guard_query site (gr_Query (reqs ! k)) of Some x \<Rightarrow> x | None \<Rightarrow> rs ! k))"
  using assms
proof (induction reqs arbitrary: i st rs st' k)
  case (Cons req reqs)
  obtain d b m where st: "st = (d, b, m)" by (cases st)
  show ?case
  proof (cases "e i")
    case True
    with Cons.prems have "k = 0" by (metis add.right_neutral neq0_conv)
    with True Cons.prems show ?thesis by (auto simp: st)
  next
    case False
    obtain r rs' st2 where r: "rs = r # rs'"
      "run_items site e (Suc i) reqs st2 = (Some rs', st')"
      "guard_query site (gr_Query req) = Some x \<Longrightarrow> r = x" for x
      using Cons.prems(1) False st by (auto split: option.splits prod.splits)
    show ?thesis
    proof (cases k)
      case 0
      with r(1,3) False show ?thesis by (auto split: option.split)
    next
      case (Suc k')
      have "rs' ! k' = (if e (Suc i + k') then result_error ''query timeout exceeded''
        else (case guard_query site (gr_Query (reqs ! k')) of Some x \<Rightarrow> x | None \<Rightarrow> rs' ! k'))"
      proof (rule Cons.IH [OF r(2)])
        show "k' < length reqs" using Cons.prems(2) Suc by simp
        show "\<not> e (Suc i + j)" if "j < k'" for j
          using Cons.prems(3) [of "Suc j"] that Suc by simp
      qed
      then show ?thesis unfolding r(1) Suc nth_Cons_Suc add_Suc_right add_Suc .
    qed
  qed
qed simp

definition same_but_do :: "'b site \<Rightarrow> 'b site \<Rightarrow> bool" where
  "same_but_do s t \<longleftrightarrow> t = s\<lparr>st_do := st_do t\<rparr>"

lemma guard_query_do [simp]: "guard_query (s\<lparr>st_do := f\<rparr>) q = guard_query s q"
proof -
  have same: "st_cfg (s\<lparr>st_do := f\<rparr>) = st_cfg s" "st_parse (s\<lparr>st_do := f\<rparr>) = st_parse s" by simp_all
  show ?thesis unfolding guard_query_def same ..
qed

lemma run_items_do_cong:
  assumes "\<And>i req d b. guard_query s (gr_Query req) = None \<Longrightarrow> f i req d b = st_do s i req d b"
  shows "run_items (s\<lparr>st_do := f\<rparr>) e i reqs st = run_items s e i reqs st"
proof (induction reqs arbitrary: i st)
  case (Cons req reqs)
  obtain d b m where "st = (d, b, m)" by (cases st)
  with Cons assms [of req i d b] show ?case
    by (cases "guard_query s (gr_Query req)") (simp_all split: option.split)
qed simp

text \<open>What the limits promise, without the walks of the code.\<close>

definition admissible :: "'b site \<Rightarrow> string \<Rightarrow> bool" where
  "admissible s q \<longleftrightarrow> length q \<le> 10000 \<and>
     (case st_parse s q of
        None \<Rightarrow> True
      | Some doc \<Rightarrow>
          (\<forall>ss \<in> set (operations_of doc). \<forall>rank k. acyclic_fragments (fragments_of doc) rank
              \<longrightarrow> nests (fragments_of doc) k ss \<longrightarrow> int k \<le> cfg_MaxQueryDepth (st_cfg s))
          \<and> (cfg_DisableIntrospection (st_cfg s) \<longrightarrow>
               (\<forall>ss \<in> set (operations_of doc). \<forall>n \<in> {''__schema'', ''__type''}.
                  \<not> reaches (fragments_of doc) {} ss n)))"

lemma guard_admissible: "guard_query s q = None \<Longrightarrow> admissible s q"
proof -
  assume g: "guard_query s q = None"
  show ?thesis
  proof (cases "st_parse s q")
    case None
    with g show ?thesis by (simp add: admissible_def guard_query_def split: if_splits)
  next
    case (Some doc)
    have l: "length q \<le> 10000" "int (computeQueryDepthFromAST doc) \<le> cfg_MaxQueryDepth (st_cfg s)"
      "cfg_DisableIntrospection (st_cfg s) \<Longrightarrow> \<not> astContainsIntrospection doc"
      using g Some by (auto simp: guard_query_def Let_def split: if_splits)
    have "k \<le> computeQueryDepthFromAST doc"
      if "ss \<in> set (operations_of doc)" "acyclic_fragments (fragments_of doc) rank" "nests (fragments_of doc) k ss"
      for ss rank k
      using depth_bounds_nests [OF that(2,3), of "[]"] that(1)
        fold_max_list [of 0 "selectionSetDepth (fragments_of doc) []" "operations_of doc"]
      unfolding computeQueryDepthFromAST_def by fastforce
    with l(2) have "int k \<le> cfg_MaxQueryDepth (st_cfg s)"
      if "ss \<in> set (operations_of doc)" "acyclic_fragments (fragments_of doc) rank" "nests (fragments_of doc) k ss"
      for ss rank k using that by (meson of_nat_le_iff order_trans)
    moreover have "\<not> reaches (fragments_of doc) {} ss n"
      if "cfg_DisableIntrospection (st_cfg s)" "ss \<in> set (operations_of doc)" "n \<in> {''__schema'', ''__type''}" for ss n
      using l(3) that has_introspection_reaches [of "fragments_of doc" "[]" ss]
      by (auto simp: astContainsIntrospection_def list_ex_iff)
    ultimately show ?thesis using l(1) Some by (simp add: admissible_def)
  qed
qed

text \<open>
  C27: queries the limits forbid never reach the executor. Replacing \<open>gql.Do\<close> by anything that answers
  admissible queries alike changes no response, database, budget or metric: an admissible query has
  at most 10000 bytes, nests no deeper than the configured depth once its fragments are expanded (they are not cyclic),
  and, with introspection disabled, reaches no \<open>__schema\<close> or \<open>__type\<close>.
\<close>

theorem forbidden_queries_never_execute:
  assumes "\<And>i req d b. admissible site (gr_Query req) \<Longrightarrow> f i req d b = st_do site i req d b"
  shows "handleGraphQL (site\<lparr>st_do := f\<rparr>) rq hp sv = handleGraphQL site rq hp sv"
proof -
  have run: "run_items (site\<lparr>st_do := f\<rparr>) e i reqs st = run_items site e i reqs st" for e i reqs st
    by (rule run_items_do_cong) (rule assms, erule guard_admissible)
  have same: "st_cfg (site\<lparr>st_do := f\<rparr>) = st_cfg site" "st_print (site\<lparr>st_do := f\<rparr>) = st_print site" by simp_all
  show ?thesis
    unfolding handleGraphQL_def execute_batch_def run read_body_def batch_too_large_def request_budget_def
      encodeGraphQLResponse_def same ..
qed

text \<open>The hypothesis holds for an executor that panics on a query of more than 10000 bytes.\<close>

theorem forbidden_queries_never_execute_witness:
  "handleGraphQL ((sample_site plain_config)\<lparr>st_do := \<lambda>i req d b.
       if length (gr_Query req) > 10000 then None else st_do (sample_site plain_config) i req d b\<rparr>)
     (sample_query_request ''k'') sample_happening fresh_server
   = handleGraphQL (sample_site plain_config) (sample_query_request ''k'') sample_happening fresh_server"
  by (rule forbidden_queries_never_execute) (simp add: admissible_def)

subsection \<open>The budget of a request\<close>

text \<open>The products a result shows: the elements of the lists its fields hold.\<close>

definition products_shown :: "gql_result \<Rightarrow> int" where
  "products_shown r =
     (case res_data r of
        JObj kvs \<Rightarrow> sum_list (map (\<lambda>(k, v). case v of JArr xs \<Rightarrow> int (length xs) | _ \<Rightarrow> 0) kvs)
      | _ \<Rightarrow> 0)"

text \<open>
  What the handler relies on: \<open>gql.Do\<close> touches the budget only through resolvers, and what it returns
  was returned by them.
\<close>

locale graphql_executor =
  fixes exe :: "nat \<Rightarrow> graphQLRequest \<Rightarrow> db \<Rightarrow> requestBudget \<Rightarrow> (gql_result \<times> db \<times> requestBudget) option"
  assumes by_resolvers: "exe i req d b = Some (r, d', b') \<Longrightarrow> - 1 \<le> productsLeft b \<Longrightarrow>
      \<exists>m k. products_shown r \<le> m
        \<and> budget_steps \<lparr>bs_budget = b, bs_open = [], bs_returned = n, bs_queries = q\<rparr>
            \<lparr>bs_budget = b', bs_open = [], bs_returned = n + m, bs_queries = q + k\<rparr>"
begin

lemma run_items_refines:
  assumes "st_do site = exe" "run_items site e i reqs (d, b, m) = (Some rs, d', b', m')"
    and "budget_inv P Q \<lparr>bs_budget = b, bs_open = [], bs_returned = n, bs_queries = q\<rparr>"
  shows "\<exists>x k. sum_list (map products_shown rs) \<le> x
    \<and> budget_steps \<lparr>bs_budget = b, bs_open = [], bs_returned = n, bs_queries = q\<rparr>
        \<lparr>bs_budget = b', bs_open = [], bs_returned = n + x, bs_queries = q + k\<rparr>"
  using assms(2,3)
proof (induction reqs arbitrary: i d b m rs n q)
  case Nil
  then show ?case by (auto intro!: exI [of _ "0 :: int"])
next
  case (Cons req reqs)
  have z: "products_shown (result_error s) = 0" for s by (simp add: products_shown_def result_error_def)
  show ?case
  proof (cases "e i")
    case True
    have "sum_list (map products_shown (map (\<lambda>_. result_error s) xs)) = 0" for s and xs :: "graphQLRequest list"
      by (induction xs) (simp_all add: z)
    with True Cons.prems show ?thesis by (auto simp: z intro!: exI [of _ "0 :: int"])
  next
    case False
    show ?thesis
    proof (cases "guard_query site (gr_Query req)")
      case (Some x)
      have "products_shown x = 0"
        using Some by (auto simp: guard_query_def Let_def z split: if_splits option.splits)
      moreover obtain rs' where "rs = x # rs'" "run_items site e (Suc i) reqs (d, b, m) = (Some rs', d', b', m')"
        using Cons.prems(1) False Some by (auto split: prod.splits)
      ultimately show ?thesis using Cons.IH [OF _ Cons.prems(2)] by auto
    next
      case None
      obtain r d2 b2 m2 rs' where r: "exe i req d b = Some (r, d2, b2)" "rs = r # rs'"
        "run_items site e (Suc i) reqs (d2, b2, m2) = (Some rs', d', b', m')"
        using Cons.prems(1) False None assms(1) by (auto split: prod.splits option.splits)
      have "- 1 \<le> productsLeft b" using Cons.prems(2) by (auto simp: budget_inv_def split: if_splits)
      from by_resolvers [OF r(1) this] obtain x k where x: "products_shown r \<le> x"
        "budget_steps \<lparr>bs_budget = b, bs_open = [], bs_returned = n, bs_queries = q\<rparr>
          \<lparr>bs_budget = b2, bs_open = [], bs_returned = n + x, bs_queries = q + k\<rparr>" by blast
      from Cons.IH [OF r(3) budget_inv_reachable [OF x(2) Cons.prems(2)]] obtain x' k' where
        "sum_list (map products_shown rs') \<le> x'"
        "budget_steps \<lparr>bs_budget = b2, bs_open = [], bs_returned = n + x, bs_queries = q + k\<rparr>
          \<lparr>bs_budget = b', bs_open = [], bs_returned = n + x + x', bs_queries = q + k + k'\<rparr>" by blast
      with x r(2) show ?thesis
        by (intro exI [of _ "x + x'"] exI [of _ "k + k'"]) (auto simp: add.assoc intro: rtranclp_trans)
    qed
  qed
qed

end

text \<open>
  The executor on the resolvers of the model: a query of products fields (\<open>asked\<close> reads them from the
  request) that select the product hash, resolved one after the other; a failed field is null.
\<close>

definition field_value :: "string + product list \<Rightarrow> json" where
  "field_value r = (case r of Inl e \<Rightarrow> JNull | Inr ps \<Rightarrow> JArr (map (\<lambda>p. JStr (p_hash p)) ps))"

definition serial_do ::
  "pg_regex \<Rightarrow> (graphQLRequest \<Rightarrow> products_args list) \<Rightarrow> nat \<Rightarrow> graphQLRequest \<Rightarrow> db \<Rightarrow> requestBudget
     \<Rightarrow> (gql_result \<times> db \<times> requestBudget) option" where
  "serial_do pg asked i req d b =
     (case resolve_all (QueryProducts pg) (Some b) (asked req) d of
        (rs, b', d') \<Rightarrow>
          Some (\<lparr>res_data = JObj (map (\<lambda>r. (''products'', field_value r)) rs),
                 res_errors = concat (map (\<lambda>r. case r of Inl e \<Rightarrow> [e] | Inr ps \<Rightarrow> []) rs)\<rparr>,
                d', the b'))"

lemma budget_step_left: "budget_step s t \<Longrightarrow> - 1 \<le> productsLeft (bs_budget s) \<Longrightarrow> - 1 \<le> productsLeft (bs_budget t)"
  by (erule budget_stepE) (auto simp: reserve_def refund_def Let_def split: if_splits)

lemma budget_steps_left:
  "budget_steps s t \<Longrightarrow> - 1 \<le> productsLeft (bs_budget s) \<Longrightarrow> - 1 \<le> productsLeft (bs_budget t)"
  by (induction rule: rtranclp_induct) (auto dest: budget_step_left)

context product_querier begin

lemma resolve_all_budget_steps:
  assumes "resolve_all query (Some b) fs d = (rs, b', d')" "- 1 \<le> productsLeft b"
  shows "\<exists>b1 k. b' = Some b1
     \<and> budget_steps \<lparr>bs_budget = b, bs_open = [], bs_returned = n, bs_queries = q\<rparr>
         \<lparr>bs_budget = b1, bs_open = [], bs_returned = n + sum_list (map returned rs), bs_queries = q + k\<rparr>"
  using assms
proof (induction fs arbitrary: b d rs n q)
  case Nil
  then show ?case by (auto intro!: exI [of _ "0 :: int"])
next
  case (Cons f fs)
  obtain r b2 d2 where 1: "resolve_products query (Some b) f d = (r, b2, d2)"
    by (cases "resolve_products query (Some b) f d") auto
  from resolve_steps [OF 1 Cons.prems(2)] obtain b1 k where
    2: "b2 = Some b1" "budget_steps \<lparr>bs_budget = b, bs_open = [], bs_returned = n, bs_queries = q\<rparr>
         \<lparr>bs_budget = b1, bs_open = [], bs_returned = n + returned r, bs_queries = q + k\<rparr>" by blast
  obtain rs' where 3: "rs = r # rs'" "resolve_all query (Some b1) fs d2 = (rs', b', d')"
    using Cons.prems(1) 1 2(1) by (auto split: prod.splits)
  have "- 1 \<le> productsLeft b1" using budget_steps_left [OF 2(2)] Cons.prems(2) by simp
  from Cons.IH [OF 3(2) this, of "n + returned r" "q + k"] obtain b3 k' where
    "b' = Some b3" "budget_steps \<lparr>bs_budget = b1, bs_open = [], bs_returned = n + returned r, bs_queries = q + k\<rparr>
      \<lparr>bs_budget = b3, bs_open = [], bs_returned = n + returned r + sum_list (map returned rs'), bs_queries = q + k + k'\<rparr>"
    by blast
  with 2(2) 3(1) show ?case
    by (intro exI [of _ b3] exI [of _ "k + k'"]) (auto simp: add.assoc intro: rtranclp_trans)
qed

end

lemma products_shown_fields:
  "products_shown \<lparr>res_data = JObj (map (\<lambda>r. (''products'', field_value r)) rs), res_errors = es\<rparr>
   = sum_list (map returned rs)"
  by (induction rs) (auto simp: products_shown_def field_value_def returned_def split: sum.split)

interpretation sd: graphql_executor "serial_do pg asked" for pg asked
proof
  fix i req d b r d' b' n q
  assume *: "serial_do pg asked i req d b = Some (r, d', b')" "- 1 \<le> productsLeft b"
  obtain rs bo d2 where res: "resolve_all (QueryProducts pg) (Some b) (asked req) d = (rs, bo, d2)"
    by (cases "resolve_all (QueryProducts pg) (Some b) (asked req) d") auto
  from qp.resolve_all_budget_steps [OF res *(2), of n q] * res
  show "\<exists>m k. products_shown r \<le> m
      \<and> budget_steps \<lparr>bs_budget = b, bs_open = [], bs_returned = n, bs_queries = q\<rparr>
          \<lparr>bs_budget = b', bs_open = [], bs_returned = n + m, bs_queries = q + k\<rparr>"
    apply (auto simp: serial_do_def products_shown_fields)
    subgoal for k by (rule exI [of _ "sum_list (map returned rs)"]) auto
    done
qed

lemma executor_bound:
  assumes "graphql_executor (st_do site)"
    and "run_items site e 0 reqs (d, request_budget site, m) = (Some rs, d', b', m')"
  shows "\<exists>final. budget_steps (budget_init (cfg_MaxProductsPerRequest (st_cfg site))
                              (cfg_MaxProductQueriesPerRequest (st_cfg site))) final
     \<and> bs_budget final = b' \<and> bs_open final = [] \<and> sum_list (map products_shown rs) \<le> bs_returned final"
proof -
  let ?P = "cfg_MaxProductsPerRequest (st_cfg site)" and ?Q = "cfg_MaxProductQueriesPerRequest (st_cfg site)"
  have "budget_inv ?P ?Q \<lparr>bs_budget = request_budget site, bs_open = [], bs_returned = 0, bs_queries = 0\<rparr>"
    using budget_inv_init [of ?P ?Q] by (simp add: budget_init_def request_budget_def)
  from graphql_executor.run_items_refines [OF assms(1) refl assms(2) this] obtain x k where
    "sum_list (map products_shown rs) \<le> x"
    "budget_steps (budget_init ?P ?Q) \<lparr>bs_budget = b', bs_open = [], bs_returned = x, bs_queries = k\<rparr>"
    by (auto simp: budget_init_def request_budget_def)
  then show ?thesis by (intro exI conjI) auto
qed

text \<open>
  C25: a whole HTTP request refines the budget machine. Whatever executor keeps to its contract, a
  batch of any size takes the budget of the request, shared by its items, from its initial state
  through steps of the abstract machine to a state with no open reservation, whose count of returned
  products covers every product the results show; so with a positive cap the response of a request
  never shows more products than the cap.
\<close>

theorem batch_refines_budget:
  assumes "graphql_executor (st_do site)"
    and "run_items site (hp_expired hp) 0 batch (sv_db sv, request_budget site, sv_metrics sv) = (Some rs, d', b', m')"
  shows "\<exists>final. budget_steps (budget_init (cfg_MaxProductsPerRequest (st_cfg site))
                              (cfg_MaxProductQueriesPerRequest (st_cfg site))) final
     \<and> bs_budget final = b' \<and> bs_open final = [] \<and> sum_list (map products_shown rs) \<le> bs_returned final
     \<and> (cfg_MaxProductsPerRequest (st_cfg site) \<le> 0
        \<or> sum_list (map products_shown rs) \<le> cfg_MaxProductsPerRequest (st_cfg site))"
proof -
  let ?P = "cfg_MaxProductsPerRequest (st_cfg site)" and ?Q = "cfg_MaxProductQueriesPerRequest (st_cfg site)"
  from executor_bound [OF assms] obtain final where f:
    "budget_steps (budget_init ?P ?Q) final" "bs_budget final = b'" "bs_open final = []"
    "sum_list (map products_shown rs) \<le> bs_returned final" by blast
  have "budget_inv ?P ?Q final" by (rule budget_inv_reachable [OF f(1) budget_inv_init])
  with f(3) have "?P \<le> 0 \<or> bs_returned final \<le> ?P" by (auto simp: budget_inv_def split: if_splits)
  with f show ?thesis by (intro exI [of _ final]) auto
qed

definition resolver_site :: "unit site" where
  "resolver_site = (sample_site plain_config)\<lparr>st_do := serial_do (\<lambda>_ _. None) (\<lambda>_. sample_fields)\<rparr>"

theorem batch_refines_budget_witness:
  "(let r = run_items resolver_site (hp_expired sample_happening) 0 [zero_request, zero_request]
              (sv_db fresh_server, request_budget resolver_site, sv_metrics fresh_server) in
    fst r \<noteq> None \<and> sum_list (map products_shown (the (fst r))) \<le> 5000)"
proof -
  have e: "graphql_executor (st_do resolver_site)"
    by (simp add: resolver_site_def) (rule sd.graphql_executor_axioms)
  have p: "cfg_MaxProductsPerRequest (st_cfg resolver_site) = 5000" by code_simp
  have some: "fst (run_items resolver_site (hp_expired sample_happening) 0 [zero_request, zero_request]
      (sv_db fresh_server, request_budget resolver_site, sv_metrics fresh_server)) \<noteq> None"
    by code_simp
  then obtain rs d' b' m' where r: "run_items resolver_site (hp_expired sample_happening) 0 [zero_request, zero_request]
      (sv_db fresh_server, request_budget resolver_site, sv_metrics fresh_server) = (Some rs, d', b', m')"
    by (cases "run_items resolver_site (hp_expired sample_happening) 0 [zero_request, zero_request]
      (sv_db fresh_server, request_budget resolver_site, sv_metrics fresh_server)") auto
  from batch_refines_budget [OF e r] p have "sum_list (map products_shown rs) \<le> 5000" by auto
  with r show ?thesis by (simp add: Let_def)
qed

end
