(* ===== verification/Gzip.thy ===== *)
theory Gzip
  imports Handler_Contract
begin

text \<open>
  \<^verbatim>\<open>internal/server/gzip.go\<close>: the response writer that buffers a body until it is long enough to be
  worth compressing. Each call on it yields the calls it makes on the writer below. The gzip format
  is the parameter \<open>deflate\<close> (the compressed form of everything written to one \<open>gzip.Writer\<close>); that a
  client can undo it is the hypothesis \<open>inflate (deflate s) = Some s\<close>. What the compressor emits is
  accounted for when it is closed.
\<close>

subsection \<open>The code\<close>

definition gzipMinSize :: nat where "gzipMinSize = 1024"

definition clientAcceptsGzip :: "request \<Rightarrow> bool" where
  "clientAcceptsGzip rq =
     (let ae = h_get (rq_header rq) ''Accept-Encoding'' in
      ae \<noteq> '''' \<and> list_ex (\<lambda>part. equal_fold (trim_space (hd (split_on (CHR '';'') part))) ''gzip'')
                            (split_on (CHR '','') ae))"

text \<open>\<open>gz_head\<close> is the header map below; the open compressor holds what was written to it.\<close>

record gzipResponseWriter =
  gz_head :: header
  gz_status :: nat
  gz_wroteHeader :: bool
  gz_buf :: string
  gz_passThrough :: bool
  gz_gz :: "string option"

definition gz_init :: gzipResponseWriter where
  "gz_init = \<lparr>gz_head = (\<lambda>_. []), gz_status = 0, gz_wroteHeader = False, gz_buf = '''', gz_passThrough = False,
              gz_gz = None\<rparr>"

definition writeHeaderNow :: "gzipResponseWriter \<Rightarrow> gzipResponseWriter \<times> wop list" where
  "writeHeaderNow g =
     (if gz_wroteHeader g then (g, [])
      else (g\<lparr>gz_wroteHeader := True\<rparr>, [WriteHeader (if gz_status g = 0 then 200 else gz_status g)]))"

definition gzip_headers :: "wop list" where
  "gzip_headers =
     [SetHeader ''Content-Encoding'' ''gzip'', DelHeader ''Content-Length'', AddHeader ''Vary'' ''Accept-Encoding'']"

definition startGzip :: "gzipResponseWriter \<Rightarrow> gzipResponseWriter \<times> wop list" where
  "startGzip g =
     (case writeHeaderNow (g\<lparr>gz_head := fold h_step gzip_headers (gz_head g)\<rparr>) of
        (g, ops) \<Rightarrow> (g\<lparr>gz_gz := Some ''''\<rparr>, gzip_headers @ ops))"

text \<open>Bailing out of buffering: the header, what was buffered, and the new bytes go through.\<close>

definition bail_out :: "string \<Rightarrow> gzipResponseWriter \<Rightarrow> gzipResponseWriter \<times> wop list" where
  "bail_out p g =
     (case writeHeaderNow (g\<lparr>gz_passThrough := True\<rparr>) of
        (g, ops) \<Rightarrow> (g\<lparr>gz_buf := ''''\<rparr>, ops @ (if gz_buf g \<noteq> '''' then [WriteBody (gz_buf g)] else []) @ [WriteBody p]))"

definition small_length :: "header \<Rightarrow> bool" where
  "small_length h =
     (let cl = h_get h ''Content-Length'' in
      cl \<noteq> '''' \<and> (case parse_int cl of Some n \<Rightarrow> n < int gzipMinSize | None \<Rightarrow> False))"

definition gz_write :: "string \<Rightarrow> gzipResponseWriter \<Rightarrow> gzipResponseWriter \<times> wop list" where
  "gz_write p g =
     (let g = (if \<not> gz_passThrough g \<and> gz_gz g = None
                  \<and> (gz_status g = 204 \<or> gz_status g = 304 \<or> (100 \<le> gz_status g \<and> gz_status g < 200))
               then g\<lparr>gz_passThrough := True\<rparr> else g) in
      if gz_passThrough g then (case writeHeaderNow g of (g, ops) \<Rightarrow> (g, ops @ [WriteBody p]))
      else
        (case gz_gz g of
           Some s \<Rightarrow> (g\<lparr>gz_gz := Some (s @ p)\<rparr>, [])
         | None \<Rightarrow>
             if h_get (gz_head g) ''Content-Encoding'' \<noteq> '''' then bail_out p g
             else if small_length (gz_head g) then bail_out p g
             else
               (let g = g\<lparr>gz_buf := gz_buf g @ p\<rparr> in
                if length (gz_buf g) < gzipMinSize then (g, [])
                else (case startGzip g of
                        (g, ops) \<Rightarrow> (g\<lparr>gz_gz := Some (gz_buf g), gz_buf := ''''\<rparr>, ops)))))"

definition gz_close :: "(string \<Rightarrow> string) \<Rightarrow> gzipResponseWriter \<Rightarrow> wop list" where
  "gz_close deflate g =
     (case gz_gz g of
        Some s \<Rightarrow> [WriteBody (deflate s)]
      | None \<Rightarrow>
          (case writeHeaderNow (g\<lparr>gz_passThrough := True\<rparr>) of
             (g, ops) \<Rightarrow> ops @ (if gz_buf g \<noteq> '''' then [WriteBody (gz_buf g)] else [])))"

definition gz_step :: "wop \<Rightarrow> gzipResponseWriter \<times> wop list \<Rightarrow> gzipResponseWriter \<times> wop list" where
  "gz_step op st =
     (case st of (g, out) \<Rightarrow>
        (case op of
           WriteHeader status \<Rightarrow> (g\<lparr>gz_status := status\<rparr>, out)
         | WriteBody p \<Rightarrow> (case gz_write p g of (g, ops) \<Rightarrow> (g, out @ ops))
         | FlushBody \<Rightarrow> (g, out @ [FlushBody])
         | _ \<Rightarrow> (g\<lparr>gz_head := h_step op (gz_head g)\<rparr>, out @ [op])))"

definition gzip_ops :: "(string \<Rightarrow> string) \<Rightarrow> wop list \<Rightarrow> wop list" where
  "gzip_ops deflate ops =
     (case fold gz_step ops (gz_init, []) of (g, out) \<Rightarrow> out @ gz_close deflate g)"

definition gzipMiddleware :: "(string \<Rightarrow> string) \<Rightarrow> 'b handler \<Rightarrow> 'b handler" where
  "gzipMiddleware deflate next rq hp sv =
     (if \<not> clientAcceptsGzip rq then next rq hp sv
      else (let r = next rq hp sv in r\<lparr>ran_ops := gzip_ops deflate (ran_ops r)\<rparr>))"

subsection \<open>What it makes of a well-shaped response\<close>

definition unencoded :: "header \<Rightarrow> bool" where
  "unencoded h \<longleftrightarrow> h ''Content-Encoding'' = [] \<and> h ''Content-Length'' = []"

lemma gz_names:
  "canonical_key ''Content-Encoding'' = ''Content-Encoding''" "canonical_key ''Content-Length'' = ''Content-Length''"
  "canonical_key ''Vary'' = ''Vary''"
  by code_simp+

lemma unencoded_get:
  "unencoded h \<Longrightarrow> h_get h ''Content-Encoding'' = '''' \<and> \<not> small_length h"
  by (simp add: unencoded_def h_get_def small_length_def gz_names)

lemma gz_fold_headers:
  "list_all is_header_op pre \<Longrightarrow>
   fold gz_step pre (g, out) = (g\<lparr>gz_head := fold h_step pre (gz_head g)\<rparr>, out @ pre)"
proof (induction pre arbitrary: g out)
  case (Cons op pre)
  then have "gz_step op (g, out) = (g\<lparr>gz_head := h_step op (gz_head g)\<rparr>, out @ [op])"
    by (auto simp: gz_step_def is_header_op_def split: wop.splits)
  with Cons show ?case by simp
qed simp

text \<open>The state after a body \<open>t\<close>, from the state \<open>g\<close> before it.\<close>

definition sent_status :: "nat \<Rightarrow> nat" where
  "sent_status n = (if n = 0 then 200 else n)"

definition gz_after :: "gzipResponseWriter \<Rightarrow> wop list \<Rightarrow> string \<Rightarrow> gzipResponseWriter \<times> wop list" where
  "gz_after g out t =
     (if length t < gzipMinSize then (g\<lparr>gz_buf := t\<rparr>, out)
      else (g\<lparr>gz_head := fold h_step gzip_headers (gz_head g), gz_wroteHeader := True, gz_buf := '''', gz_gz := Some t\<rparr>,
            out @ gzip_headers @ [WriteHeader (sent_status (gz_status g))]))"

definition gz_fresh :: "gzipResponseWriter \<Rightarrow> bool" where
  "gz_fresh g \<longleftrightarrow>
     \<not> gz_wroteHeader g \<and> gz_buf g = '''' \<and> \<not> gz_passThrough g \<and> gz_gz g = None \<and> unencoded (gz_head g)
     \<and> (gz_status g = 0 \<or> (200 \<le> gz_status g \<and> body_allowed (gz_status g)))"

lemma gz_write_after:
  assumes "gz_fresh g"
  shows "gz_step (WriteBody p) (gz_after g out t) = gz_after g out (t @ p)"
proof (cases "length t < gzipMinSize")
  case True
  have s: "\<not> (gz_status g = 204 \<or> gz_status g = 304 \<or> (100 \<le> gz_status g \<and> gz_status g < 200))"
    using assms by (auto simp: gz_fresh_def body_allowed_def)
  show ?thesis
    using True assms s unencoded_get [of "gz_head g"]
    by (auto simp: gz_step_def gz_after_def gz_write_def gz_fresh_def startGzip_def writeHeaderNow_def sent_status_def
        Let_def split: prod.splits)
next
  case False
  then show ?thesis
    using assms by (simp add: gz_step_def gz_after_def gz_write_def gz_fresh_def Let_def)
qed

lemma gz_fold_bodies:
  assumes "gz_fresh g" "list_all is_body_op bs"
  shows "fold gz_step bs (gz_after g out t) = gz_after g out (t @ body_of bs)"
  using assms(2)
proof (induction bs arbitrary: t)
  case (Cons op bs)
  then obtain p where "op = WriteBody p" by (cases op) (auto simp: is_body_op_def)
  with Cons gz_write_after [OF assms(1)] show ?case by (simp add: body_of_def)
qed (simp add: body_of_def)

lemma gz_bodies:
  assumes "gz_fresh g" "list_all is_body_op bs"
  shows "fold gz_step bs (g, out) = gz_after g out (body_of bs)"
proof -
  have "gz_after g out [] = (g, out)"
    using assms(1) by (simp add: gz_after_def gz_fresh_def gzipMinSize_def)
  with gz_fold_bodies [OF assms, of out "[]"] show ?thesis by simp
qed

text \<open>A response below the threshold passes unchanged, a longer one is sent compressed.\<close>

definition gzipped :: "(string \<Rightarrow> string) \<Rightarrow> wop list \<Rightarrow> nat \<Rightarrow> string \<Rightarrow> wop list" where
  "gzipped deflate pre status t =
     (if length t < gzipMinSize then pre @ WriteHeader status # (if t \<noteq> '''' then [WriteBody t] else [])
      else pre @ gzip_headers @ [WriteHeader status, WriteBody (deflate t)])"

lemma gz_close_after:
  "gz_fresh g \<Longrightarrow> (case gz_after g out t of (g, out) \<Rightarrow> out @ gz_close deflate g)
     = gzipped deflate out (sent_status (gz_status g)) t"
  by (simp add: gz_after_def gz_close_def gz_fresh_def writeHeaderNow_def gzipped_def sent_status_def)

lemma gzip_ops_well_shaped:
  assumes "well_shaped ops" "unencoded (headers_of ops)"
  shows "\<exists>pre. list_all is_header_op pre \<and> set pre \<subseteq> set ops \<and> headers_of ops = headers_of pre
    \<and> gzip_ops deflate ops = gzipped deflate pre (ops_status ops) (body_of ops)
    \<and> (\<not> body_allowed (ops_status ops) \<longrightarrow> body_of ops = '''')"
  using assms(1)
proof (cases rule: well_shaped_cases)
  case (status pre n bs)
  let ?g = "gz_init\<lparr>gz_head := headers_of pre, gz_status := n\<rparr>"
  have h: "headers_of ops = headers_of pre" "body_of ops = body_of bs" "ops_status ops = n"
    using status body_not_header
    by (simp_all add: headers_of_append body_of_headers ops_status_prefix ops_status_WriteHeader) (simp add: body_of_def)
  have f: "fold gz_step ops (gz_init, []) = fold gz_step bs (?g, pre)"
    using status by (simp add: gz_fold_headers) (simp add: gz_step_def gz_init_def headers_of_def)
  show ?thesis
  proof (cases "body_allowed n")
    case True
    have "gz_fresh ?g" using True status assms(2) h by (simp add: gz_fresh_def gz_init_def)
    from gz_bodies [OF this, of bs pre] gz_close_after [OF this] f status h True show ?thesis
      by (intro exI [of _ pre]) (auto simp: gzip_ops_def sent_status_def)
  next
    case False
    with status have bs: "bs = []" by simp
    then have b: "body_of ops = ''''" using h(2) by (simp add: body_of_def)
    have "gzip_ops deflate ops = pre @ [WriteHeader n]"
      unfolding gzip_ops_def f bs using status(3) by (simp add: gz_close_def writeHeaderNow_def gz_init_def)
    moreover have "set pre \<subseteq> set ops" using status(1) by auto
    ultimately show ?thesis using status(2) h(1,3) b
      by (intro exI [of _ pre]) (auto simp: gzipped_def gzipMinSize_def)
  qed
next
  case (implicit pre bs)
  let ?g = "gz_init\<lparr>gz_head := headers_of pre\<rparr>"
  have h: "headers_of ops = headers_of pre" "body_of ops = body_of bs" "ops_status ops = 200"
    using implicit body_not_header by (simp_all add: headers_of_append body_of_headers ops_status_prefix ops_status_bodies)
  have f: "fold gz_step ops (gz_init, []) = fold gz_step bs (?g, pre)"
    using implicit by (simp add: gz_fold_headers) (simp add: gz_init_def headers_of_def)
  have "gz_fresh ?g" using assms(2) h by (simp add: gz_fresh_def gz_init_def)
  from gz_bodies [OF this, of bs pre] gz_close_after [OF this] f implicit h show ?thesis
    by (intro exI [of _ pre]) (auto simp: gzip_ops_def sent_status_def gz_init_def)
qed

lemma gzip_headers_shape:
  "list_all is_header_op gzip_headers"
  "fold h_step gzip_headers h = h(''Content-Encoding'' := [''gzip''], ''Content-Length'' := [],
     ''Vary'' := h ''Vary'' @ [''Accept-Encoding''])"
  by (simp_all add: gzip_headers_def h_step_def gz_names)

lemma gzipped_shape:
  assumes "list_all is_header_op pre" "200 \<le> n" "body_allowed n \<or> t = ''''"
  shows "well_shaped (gzipped deflate pre n t) \<and> ops_status (gzipped deflate pre n t) = n
    \<and> headers_of (gzipped deflate pre n t)
       = (if length t < gzipMinSize then headers_of pre
          else (headers_of pre)(''Content-Encoding'' := [''gzip''], ''Content-Length'' := [],
                 ''Vary'' := headers_of pre ''Vary'' @ [''Accept-Encoding'']))
    \<and> body_of (gzipped deflate pre n t) = (if length t < gzipMinSize then t else deflate t)"
proof (cases "length t < gzipMinSize")
  case True
  let ?bs = "if t \<noteq> '''' then [WriteBody t] else []"
  have b: "list_all is_body_op ?bs" by simp
  have "headers_of (pre @ WriteHeader n # ?bs) = headers_of pre"
    by (rule headers_of_append) simp
  moreover have "well_shaped (WriteHeader n # ?bs)" using assms(2,3) b by (auto simp: well_shaped_def)
  moreover have "body_of (pre @ WriteHeader n # ?bs) = t"
    using assms(1) by (simp add: body_of_headers) (simp add: body_of_def)
  ultimately show ?thesis
    using True assms b
    by (simp add: gzipped_def well_shaped_prefix ops_status_prefix ops_status_WriteHeader)
next
  case False
  then have a: "body_allowed n" using assms(3) by (auto simp: gzipMinSize_def)
  let ?rest = "[WriteHeader n, WriteBody (deflate t)]"
  have p: "list_all is_header_op (pre @ gzip_headers)" using assms(1) gzip_headers_shape by simp
  have "headers_of ((pre @ gzip_headers) @ ?rest) = headers_of (pre @ gzip_headers)"
    by (rule headers_of_append) simp
  moreover have "headers_of (pre @ gzip_headers) = fold h_step gzip_headers (headers_of pre)"
    by (simp add: headers_of_def)
  moreover have "body_of ((pre @ gzip_headers) @ ?rest) = deflate t"
    by (subst body_of_headers [OF p]) (simp add: body_of_def)
  moreover have "well_shaped ((pre @ gzip_headers) @ ?rest)"
    by (subst well_shaped_prefix [OF p]) (rule well_shaped_status, use assms(2) a in simp_all)
  moreover have "ops_status ((pre @ gzip_headers) @ ?rest) = n"
    by (subst ops_status_prefix [OF p]) (rule ops_status_WriteHeader, simp)
  ultimately show ?thesis using False gzip_headers_shape(2) by (simp add: gzipped_def)
qed

lemma well_shaped_status_ge: "well_shaped ops \<Longrightarrow> 200 \<le> ops_status ops"
  by (erule well_shaped_cases) (simp_all add: ops_status_prefix ops_status_WriteHeader ops_status_bodies)

subsection \<open>Transparency\<close>

text \<open>What a client makes of a response: it undoes a gzip content encoding.\<close>

definition client_body :: "(string \<Rightarrow> string option) \<Rightarrow> response \<Rightarrow> string option" where
  "client_body inflate resp =
     (if rs_header resp ''Content-Encoding'' = [''gzip''] then inflate (rs_body resp) else Some (rs_body resp))"

lemma gzip_response:
  assumes "well_shaped ops" "unencoded (headers_of ops)"
  shows "response_of False (gzip_ops deflate ops)
    = (let plain = response_of False ops in
       if length (rs_body plain) < gzipMinSize then plain
       else plain\<lparr>rs_header := (rs_header plain)(''Content-Encoding'' := [''gzip''], ''Content-Length'' := [],
                    ''Vary'' := rs_header plain ''Vary'' @ [''Accept-Encoding'']),
                  rs_body := deflate (rs_body plain)\<rparr>)"
proof -
  from gzip_ops_well_shaped [OF assms, of deflate] obtain pre where pre: "list_all is_header_op pre" "headers_of ops = headers_of pre"
    "gzip_ops deflate ops = gzipped deflate pre (ops_status ops) (body_of ops)"
    "\<not> body_allowed (ops_status ops) \<longrightarrow> body_of ops = ''''" by blast
  from gzipped_shape [OF pre(1) well_shaped_status_ge [OF assms(1)], of "body_of ops" deflate] pre(4)
  have g: "well_shaped (gzip_ops deflate ops)" "ops_status (gzip_ops deflate ops) = ops_status ops"
    "headers_of (gzip_ops deflate ops)
       = (if length (body_of ops) < gzipMinSize then headers_of ops
          else (headers_of ops)(''Content-Encoding'' := [''gzip''], ''Content-Length'' := [],
                 ''Vary'' := headers_of ops ''Vary'' @ [''Accept-Encoding'']))"
    "body_of (gzip_ops deflate ops) = (if length (body_of ops) < gzipMinSize then body_of ops else deflate (body_of ops))"
    unfolding pre(2,3) by auto
  show ?thesis
    by (simp add: response_well_shaped assms(1) g Let_def)
qed

lemma gzip_contract [contract_intros]:
  assumes "total_handler h S" "\<And>rq hp sv. unencoded (headers_of (ran_ops (h rq hp sv)))"
  shows "total_handler (gzipMiddleware deflate h) S"
proof
  fix rq hp sv
  let ?ops = "ran_ops (h rq hp sv)"
  have h: "ran_ok S (h rq hp sv)" "\<not> ran_panic (h rq hp sv)"
    using assms(1) by (auto simp: total_handler_def total_handler_axioms_def handler_contract_def)
  then have w: "well_shaped ?ops" by (simp add: ran_ok_def)
  from gzip_ops_well_shaped [OF w assms(2), of deflate] obtain pre where pre: "list_all is_header_op pre"
    "gzip_ops deflate ?ops = gzipped deflate pre (ops_status ?ops) (body_of ?ops)"
    "\<not> body_allowed (ops_status ?ops) \<longrightarrow> body_of ?ops = ''''" by blast
  from gzipped_shape [OF pre(1) well_shaped_status_ge [OF w], of "body_of ?ops" deflate] pre(2,3) h
  show "ran_ok S (gzipMiddleware deflate h rq hp sv)"
    by (auto simp: gzipMiddleware_def ran_ok_def Let_def)
  show "\<not> ran_panic (gzipMiddleware deflate h rq hp sv)"
    using h(2) by (simp add: gzipMiddleware_def Let_def)
qed

text \<open>
  C30: compression is invisible. For a handler that keeps the contract of the API and sets no content
  encoding or length, the compressing writer refines the plain one: the client that undoes the encoding
  gets the same status and the same body, every header but three is the same, and the response is
  encoded exactly when its body has at least 1024 bytes.
\<close>

theorem gzip_refines_plain:
  assumes "total_handler h S" "unencoded (headers_of (ran_ops (h rq hp sv)))"
    and "\<And>s. inflate (deflate s) = Some s"
  shows "let plain = response_of False (ran_ops (h rq hp sv));
             sent = response_of False (ran_ops (gzipMiddleware deflate h rq hp sv)) in
    rs_status sent = rs_status plain \<and> client_body inflate sent = Some (rs_body plain)
    \<and> (\<lambda>k. if k \<in> {''Content-Encoding'', ''Content-Length'', ''Vary''} then [] else rs_header sent k)
      = (\<lambda>k. if k \<in> {''Content-Encoding'', ''Content-Length'', ''Vary''} then [] else rs_header plain k)
    \<and> (rs_header sent ''Content-Encoding'' = [''gzip'']) = (clientAcceptsGzip rq \<and> 1024 \<le> length (rs_body plain))"
proof -
  let ?ops = "ran_ops (h rq hp sv)"
  have "ran_ok S (h rq hp sv)" using assms(1) by (simp add: total_handler_def handler_contract_def)
  then have w: "well_shaped ?ops" by (simp add: ran_ok_def)
  have u: "rs_header (response_of False ?ops) ''Content-Encoding'' = []"
    using assms(2) by (simp add: response_well_shaped w unencoded_def)
  show ?thesis
  proof (cases "clientAcceptsGzip rq")
    case False
    with u show ?thesis by (simp add: gzipMiddleware_def client_body_def)
  next
    case True
    have "ran_ops (gzipMiddleware deflate h rq hp sv) = gzip_ops deflate ?ops"
      using True by (simp add: gzipMiddleware_def Let_def)
    with True u show ?thesis
      by (simp add: gzip_response [OF w assms(2)] client_body_def assms(3) gzipMinSize_def Let_def)
        (auto simp: fun_eq_iff)
  qed
qed

definition long_handler :: "unit handler" where
  "long_handler rq hp sv = respond [content_json, WriteBody (replicate 2000 (CHR ''a''))] sv"

definition gzip_request :: request where
  "gzip_request =
     \<lparr>rq_method = ''GET'', rq_path = ''/'', rq_uri = ''/'', rq_remote = '''',
      rq_header = (\<lambda>_. [])(''Accept-Encoding'' := [''br, GZIP;q=0.5'']), rq_body = '''', rq_body_err = False\<rparr>"

theorem gzip_refines_plain_witness:
  "clientAcceptsGzip gzip_request
   \<and> (\<lambda>hp sv. client_body (\<lambda>s. Some (tl s)) (response_of False (ran_ops (gzipMiddleware (Cons (CHR ''z'')) long_handler gzip_request hp sv)))
     ) = (\<lambda>hp sv. Some (replicate 2000 (CHR ''a'')))
   \<and> (\<lambda>hp sv. rs_header (response_of False (ran_ops (gzipMiddleware (Cons (CHR ''z'')) long_handler gzip_request hp sv)))
       ''Content-Encoding'') = (\<lambda>hp sv. [''gzip''])"
proof -
  have acc: "clientAcceptsGzip gzip_request" by code_simp
  have t: "total_handler long_handler {200}"
    by unfold_locales (simp_all add: long_handler_def ran_ok_def shape_simps well_shaped_def ops_status_bodies)
  have u: "unencoded (headers_of (ran_ops (long_handler rq hp sv)))" for rq hp sv
    by (simp add: long_handler_def unencoded_def headers_of_def h_step_def content_json_def) (code_simp)
  have b: "rs_body (response_of False (ran_ops (long_handler gzip_request hp sv))) = replicate 2000 (CHR ''a'')" for hp sv
    by (simp add: long_handler_def response_of_def rw_step_def rw_commit_def rw_init_def content_json_def Let_def
        )
  have l: "1024 \<le> length (replicate 2000 (CHR ''a''))" by simp
  show ?thesis
    using gzip_refines_plain [OF t u, of "\<lambda>s. Some (tl s)" "Cons (CHR ''z'')" gzip_request] acc b l
    unfolding Let_def by (auto simp: fun_eq_iff)
qed

text \<open>
  \<open>Flush\<close> before the threshold loses the status. A handler that sends a 404 and flushes is answered
  404 without the compressing writer, but 200 through it: \<open>Flush\<close> does not send the buffered header
  first.
\<close>

theorem gzip_flush_loses_status:
  "rs_status (response_of False [WriteHeader 404, FlushBody, WriteBody t]) = 404
   \<and> rs_status (response_of False (gzip_ops deflate [WriteHeader 404, FlushBody, WriteBody t])) = 200"
  by (simp add: response_of_def rw_step_def rw_commit_def rw_init_def gzip_ops_def gz_step_def gz_init_def gz_write_def
      h_get_def small_length_def gz_close_def startGzip_def writeHeaderNow_def gzip_headers_def gzipMinSize_def Let_def)

end
