(* ===== verification/Public_Api.thy ===== *)
theory Public_Api
  imports Graphql_Safety Gzip
begin

text \<open>
  The public surface of \<^verbatim>\<open>internal/server/server.go\<close>: the other handlers, the catalogue bundle of
  \<^verbatim>\<open>catalog/bundle.go\<close> and \<^verbatim>\<open>internal/server/catalog.go\<close>, the routes, and the whole stack of
  middlewares as \<open>Start\<close> builds it. Times are nanoseconds. The files embedded in the program
  are a parameter of the bundle (directory by directory, in the order they are read), and so is the
  RFC 3339 form of a time. \<open>ServeMux\<close> is modelled on clean paths, which it does not redirect.
\<close>

subsection \<open>Small handlers\<close>

definition get_or_head :: "request \<Rightarrow> bool" where
  "get_or_head rq \<longleftrightarrow> rq_method rq = ''GET'' \<or> rq_method rq = ''HEAD''"

definition handleLiveness :: "'b handler" where
  "handleLiveness rq hp sv =
     (if \<not> get_or_head rq then respond [WriteHeader 405] sv
      else respond [content_json, WriteHeader 200, WriteBody (const_json [(''status'', ''ok'')])] sv)"

definition text_plain :: wop where
  "text_plain = SetHeader ''Content-Type'' ''text/plain; charset=utf-8''"

text \<open>\<open>http.NotFound\<close> of the standard library.\<close>

definition not_found :: "wop list" where
  "not_found =
     [DelHeader ''Content-Length'', text_plain, SetHeader ''X-Content-Type-Options'' ''nosniff'',
      WriteHeader 404, WriteBody (''404 page not found'' @ nl)]"

definition handleRoot :: "'b handler" where
  "handleRoot rq hp sv =
     (if rq_path rq \<noteq> ''/'' then respond not_found sv
      else
        (let ops = [text_plain, SetHeader ''X-Robots-Tag'' ''noindex''] in
         if \<not> get_or_head rq then respond (ops @ [WriteHeader 405]) sv
         else respond (ops @ [WriteHeader 200, WriteBody
           (''c3x pricing API. Docs: https://c3x.dev/docs/self-hosted/  Query endpoint: POST /graphql'' @ nl)]) sv))"

definition handleReadiness :: "'b handler" where
  "handleReadiness rq hp sv =
     (if \<not> get_or_head rq then respond [WriteHeader 405] sv
      else if \<not> hp_ping hp
      then respond [content_json, WriteHeader 503,
             WriteBody (const_json [(''status'', ''unhealthy''), (''error'', ''database connection failed'')])] sv
      else respond [content_json, WriteHeader 200, WriteBody (const_json [(''status'', ''ok'')])] sv)"

subsection \<open>The catalogue\<close>

record entry =
  en_Provider :: string
  en_Kind :: string
  en_TOML :: string

definition SchemaVersion :: string where "SchemaVersion = ''1''"

record catalog_bundle =
  bu_SchemaVersion :: string
  bu_Hash :: string
  bu_Count :: nat
  bu_Entries :: "entry list"

text \<open>The files of a provider's directory: a name, whether it is a directory, its bytes (or an error).\<close>

type_synonym catalog_fs = "string \<Rightarrow> string + (string \<times> bool \<times> (string + string)) list"

fun read_entries :: "string \<Rightarrow> (string \<times> bool \<times> (string + string)) list \<Rightarrow> string + entry list" where
  "read_entries provider [] = Inr []"
| "read_entries provider ((name, is_dir, content) # files) =
     (if is_dir \<or> \<not> has_suffix name ''.toml'' then read_entries provider files
      else
        (case content of
           Inl e \<Rightarrow> Inl (''read '' @ provider @ ''/'' @ name @ '': '' @ e)
         | Inr raw \<Rightarrow>
             (case read_entries provider files of
                Inl e \<Rightarrow> Inl e
              | Inr es \<Rightarrow>
                  Inr (\<lparr>en_Provider = provider, en_Kind = trim_suffix name ''.toml'', en_TOML = raw\<rparr> # es))))"

fun read_providers :: "catalog_fs \<Rightarrow> string list \<Rightarrow> string + entry list" where
  "read_providers fs [] = Inr []"
| "read_providers fs (provider # ps) =
     (case fs provider of
        Inl e \<Rightarrow> Inl (''read catalog dir '' @ provider @ '': '' @ e)
      | Inr files \<Rightarrow>
          (case read_entries provider files of
             Inl e \<Rightarrow> Inl e
           | Inr es \<Rightarrow> (case read_providers fs ps of Inl e \<Rightarrow> Inl e | Inr rest \<Rightarrow> Inr (es @ rest))))"

text \<open>\<open>sort.Slice\<close> by provider, then kind; a file system has no two entries of one name.\<close>

definition sort_entries :: "entry list \<Rightarrow> entry list" where
  "sort_entries es = sort_key en_Provider (sort_key en_Kind es)"

definition entry_bytes :: "entry \<Rightarrow> string" where
  "entry_bytes e = en_Provider e @ [NUL] @ en_Kind e @ [NUL] @ en_TOML e @ [NUL]"

definition entries_hash :: "entry list \<Rightarrow> string" where
  "entries_hash es = hex_bytes (sha256 (concat (map entry_bytes es)))"

definition entry_json :: "entry \<Rightarrow> json" where
  "entry_json e =
     JObj [(''provider'', JStr (en_Provider e)), (''kind'', JStr (en_Kind e)), (''toml'', JStr (en_TOML e))]"

definition bundle_json :: "catalog_bundle \<Rightarrow> json" where
  "bundle_json b =
     JObj [(''schema_version'', JStr (bu_SchemaVersion b)), (''hash'', JStr (bu_Hash b)),
           (''count'', JNum (show_nat (bu_Count b))),
           (''entries'', if bu_Entries b = [] then JNull else JArr (map entry_json (bu_Entries b)))]"

definition build_bundle :: "catalog_fs \<Rightarrow> string + catalog_bundle" where
  "build_bundle fs =
     (case read_providers fs [''aws'', ''azure'', ''gcp''] of
        Inl e \<Rightarrow> Inl e
      | Inr es \<Rightarrow>
          (let es = sort_entries es in
           Inr \<lparr>bu_SchemaVersion = SchemaVersion, bu_Hash = entries_hash es, bu_Count = length es, bu_Entries = es\<rparr>))"

text \<open>The body, the hash and the count, or the error; built once, the files never change.\<close>

definition BundleJSON :: "catalog_fs \<Rightarrow> string + (string \<times> string \<times> nat)" where
  "BundleJSON fs = map_sum id (\<lambda>b. (json_print (bundle_json b), bu_Hash b, bu_Count b)) (build_bundle fs)"

definition handleCatalog :: "catalog_fs \<Rightarrow> 'b handler" where
  "handleCatalog fs rq hp sv =
     (if \<not> get_or_head rq then respond [WriteHeader 405] sv
      else
        (case BundleJSON fs of
           Inl e \<Rightarrow> respond [WriteHeader 500] sv
         | Inr (body, hash, count) \<Rightarrow>
             (let etag = [quote] @ hash @ [quote];
                  ops = [SetHeader ''ETag'' etag, content_json, SetHeader ''Cache-Control'' ''public, max-age=3600'']
              in if h_get (rq_header rq) ''If-None-Match'' = etag then respond (ops @ [WriteHeader 304]) sv
                 else if rq_method rq = ''HEAD'' then respond (ops @ [WriteHeader 200]) sv
                 else respond (ops @ [WriteBody body]) sv)))"

subsection \<open>Vendor status\<close>

definition vendorStatus :: "int \<Rightarrow> bool \<Rightarrow> int \<Rightarrow> string \<Rightarrow> int option \<Rightarrow> string" where
  "vendorStatus time_now sawSuccess successProducts latestStatus finishedAt =
     (if latestStatus = '''' \<and> \<not> sawSuccess then ''never''
      else if latestStatus = ''running'' then ''scraping''
      else if latestStatus = ''failed'' then ''failed''
      else if \<not> sawSuccess then ''never''
      else if successProducts = 0 then ''empty''
      else if (case finishedAt of None \<Rightarrow> False | Some t \<Rightarrow> time_now - t > 48 * 3600 * 10 ^ 9) then ''stale''
      else ''ready'')"

record vendorInfo =
  vi_Status :: string
  vi_Products :: int
  vi_LastScraped :: "int option"

record facts =
  fa_sawSuccess :: bool
  fa_successProducts :: int
  fa_latestStatus :: string
  fa_finishedAt :: "int option"

definition known_vendors :: "string list" where
  "known_vendors = [''aws'', ''azure'', ''gcp'']"

text \<open>\<open>SELECT DISTINCT ON (vendor) ... ORDER BY vendor, id DESC\<close>: the newest run of each vendor.\<close>

definition newest_run :: "run list \<Rightarrow> run option" where
  "newest_run rs = (case rs of [] \<Rightarrow> None | _ \<Rightarrow> find (\<lambda>r. run_id r = Max (set (map run_id rs))) rs)"

definition newest_per_vendor :: "run list \<Rightarrow> run list" where
  "newest_per_vendor rs =
     List.map_filter (\<lambda>v. newest_run (filter (\<lambda>r. run_vendor r = v) rs)) (sort (remdups (map run_vendor rs)))"

definition sql_newest_success :: "(string \<times> int) list stmt" where
  "sql_newest_success d =
     (Inr (map (\<lambda>r. (run_vendor r, run_products r))
             (newest_per_vendor (filter (\<lambda>r. run_status r = ''success'') (tbl_runs d)))), d)"

definition sql_newest_runs :: "(string \<times> string \<times> int option) list stmt" where
  "sql_newest_runs d =
     (Inr (map (\<lambda>r. (run_vendor r, run_status r, run_finished r)) (newest_per_vendor (tbl_runs d))), d)"

type_synonym status_state = "(string \<Rightarrow> facts) \<times> (string \<Rightarrow> vendorInfo) \<times> metrics"

definition success_row :: "string \<times> int \<Rightarrow> status_state \<Rightarrow> status_state" where
  "success_row r st =
     (case (r, st) of ((vendor, count), (fs, vs, m)) \<Rightarrow>
        if vendor \<in> set known_vendors
        then (fs(vendor := (fs vendor)\<lparr>fa_sawSuccess := True, fa_successProducts := count\<rparr>),
              vs(vendor := (vs vendor)\<lparr>vi_Products := count\<rparr>), SetProductsTotal vendor count m)
        else st)"

definition latest_row :: "string \<times> string \<times> int option \<Rightarrow> status_state \<Rightarrow> status_state" where
  "latest_row r st =
     (case (r, st) of ((vendor, status, finishedAt), (fs, vs, m)) \<Rightarrow>
        if vendor \<in> set known_vendors
        then (fs(vendor := (fs vendor)\<lparr>fa_latestStatus := status, fa_finishedAt := finishedAt\<rparr>),
              (if finishedAt = None then vs else vs(vendor := (vs vendor)\<lparr>vi_LastScraped := finishedAt\<rparr>)),
              (if status = ''success'' then SetScrapeLastSuccess vendor finishedAt m else m))
        else st)"

definition rows_of :: "string + 'a list \<Rightarrow> 'a list" where
  "rows_of r = (case r of Inl e \<Rightarrow> [] | Inr rows \<Rightarrow> rows)"

definition status_init :: "metrics \<Rightarrow> status_state" where
  "status_init m =
     (\<lambda>_. \<lparr>fa_sawSuccess = False, fa_successProducts = 0, fa_latestStatus = '''', fa_finishedAt = None\<rparr>,
      \<lambda>_. \<lparr>vi_Status = ''never'', vi_Products = 0, vi_LastScraped = None\<rparr>, m)"

text \<open>What \<open>handleStatus\<close> gathers from its two queries, and the state it reports per vendor.\<close>

definition gather_status :: "int \<Rightarrow> metrics \<Rightarrow> db \<Rightarrow> (string \<Rightarrow> vendorInfo) \<times> metrics \<times> db" where
  "gather_status time_now m d =
     (case exec sql_newest_success d of
        (r1, d) \<Rightarrow>
          (case exec sql_newest_runs d of
             (r2, d) \<Rightarrow>
               (case fold latest_row (rows_of r2) (fold success_row (rows_of r1) (status_init m)) of
                  (fs, vs, m) \<Rightarrow>
                    (\<lambda>v. (vs v)\<lparr>vi_Status := vendorStatus time_now (fa_sawSuccess (fs v)) (fa_successProducts (fs v))
                                               (fa_latestStatus (fs v)) (fa_finishedAt (fs v))\<rparr>, m, d))))"

definition vendor_json :: "(int \<Rightarrow> string) \<Rightarrow> vendorInfo \<Rightarrow> json" where
  "vendor_json rfc3339 v =
     JObj ([(''status'', JStr (vi_Status v)), (''products'', JNum (show_int (vi_Products v)))]
           @ (case vi_LastScraped v of None \<Rightarrow> [] | Some t \<Rightarrow> [(''lastScraped'', JStr (rfc3339 t))]))"

definition handleStatus :: "(int \<Rightarrow> string) \<Rightarrow> 'b handler" where
  "handleStatus rfc3339 rq hp sv =
     (if \<not> get_or_head rq then respond [WriteHeader 405] sv
      else
        (case gather_status (hp_now hp) (sv_metrics sv) (sv_db sv) of
           (vs, m, d) \<Rightarrow>
             respond [content_json, SetHeader ''Cache-Control'' ''no-store'',
                      WriteBody (json_print (JObj [(''vendors'',
                        JObj (map (\<lambda>v. (v, vendor_json rfc3339 (vs v))) known_vendors))]) @ nl)]
               (sv\<lparr>sv_metrics := m, sv_db := d\<rparr>)))"

subsection \<open>Routes and the whole stack\<close>

definition handlerLabel :: "string \<Rightarrow> string" where
  "handlerLabel path =
     (if path = ''/graphql'' then ''graphql'' else if path = ''/healthz'' then ''healthz''
      else if path = ''/readyz'' \<or> path = ''/health'' then ''readyz''
      else if path = ''/status'' then ''status'' else if path = ''/metrics'' then ''metrics'' else ''other'')"

definition publicHandler :: "'b site \<Rightarrow> catalog_fs \<Rightarrow> (int \<Rightarrow> string) \<Rightarrow> 'b handler" where
  "publicHandler site fs rfc3339 rq =
     (let p = rq_path rq in
      if p = ''/graphql'' then graphql_endpoint site rq
      else if p = ''/healthz'' then instrument ''healthz'' handleLiveness rq
      else if p = ''/readyz'' \<or> p = ''/health'' then instrument ''readyz'' handleReadiness rq
      else if p = ''/status'' then instrument ''status'' (handleStatus rfc3339) rq
      else if p = ''/catalog'' then instrument ''catalog'' (handleCatalog fs) rq
      else instrument ''root'' handleRoot rq)"

definition server_handler :: "(string \<Rightarrow> string) \<Rightarrow> 'b site \<Rightarrow> catalog_fs \<Rightarrow> (int \<Rightarrow> string) \<Rightarrow> 'b handler" where
  "server_handler deflate site fs rfc3339 =
     (let h = securityHeadersMiddleware (gzipMiddleware deflate (publicHandler site fs rfc3339)) in
      if cfg_CORSOrigins (st_cfg site) \<noteq> '''' then corsMiddleware (cfg_CORSOrigins (st_cfg site)) h else h)"

subsection \<open>Every route keeps the contract\<close>

definition api_statuses :: "nat set" where
  "api_statuses = {200, 204, 304, 400, 403, 404, 405, 415, 429, 500, 503}"

lemma text_plain_header [simp]: "is_header_op text_plain"
  by (simp add: text_plain_def)

lemma ran_ok_only_status: "200 \<le> n \<Longrightarrow> n \<in> S \<Longrightarrow> ran_ok S (respond [WriteHeader n] sv)"
  by (simp add: ran_ok_def well_shaped_def ops_status_WriteHeader)

lemmas route_defs = handleLiveness_def handleReadiness_def handleRoot_def handleCatalog_def handleStatus_def not_found_def

lemma small_contracts [contract_intros]:
  "total_handler handleLiveness api_statuses" "total_handler handleReadiness api_statuses"
  "total_handler handleRoot api_statuses" "total_handler (handleCatalog fs) api_statuses"
  "total_handler (handleStatus rfc3339) api_statuses"
proof -
  note defs = route_defs api_statuses_def shape_simps well_shaped_def ops_status_bodies Let_def
  show "total_handler handleLiveness api_statuses"
    by unfold_locales (simp_all add: defs ran_ok_def)
  show "total_handler handleReadiness api_statuses"
    by unfold_locales (simp_all add: defs ran_ok_def)
  show "total_handler handleRoot api_statuses"
    by unfold_locales (simp_all add: defs ran_ok_def)
  show "total_handler (handleCatalog fs) api_statuses"
    by unfold_locales (simp_all add: defs ran_ok_def split: sum.split)
  show "total_handler (handleStatus rfc3339) api_statuses"
    by unfold_locales (simp_all add: defs ran_ok_def split: prod.split)
qed

lemma graphql_api_total [contract_intros]: "total_handler (graphql_endpoint site) api_statuses"
proof -
  have "graphql_statuses \<subseteq> api_statuses" by (auto simp: graphql_statuses_def api_statuses_def)
  with graphql_endpoint_total [of site] show ?thesis
    by (auto simp: total_handler_def total_handler_axioms_def intro: contract_mono)
qed

lemma public_total [contract_intros]: "total_handler (publicHandler site fs rfc3339) api_statuses"
proof
  fix rq hp and sv :: "'a server"
  have t: "ran_ok api_statuses (h rq hp sv) \<and> \<not> ran_panic (h rq hp sv)" if "total_handler h api_statuses" for h :: "'a handler"
    using that by (auto simp: total_handler_def total_handler_axioms_def handler_contract_def)
  have "ran_ok api_statuses (publicHandler site fs rfc3339 rq hp sv) \<and> \<not> ran_panic (publicHandler site fs rfc3339 rq hp sv)"
    by (simp add: publicHandler_def Let_def t contract_intros)
  then show "ran_ok api_statuses (publicHandler site fs rfc3339 rq hp sv)"
    "\<not> ran_panic (publicHandler site fs rfc3339 rq hp sv)" by auto
qed

text \<open>A policy on the calls on the writer, for all routes.\<close>

locale api_policy = op_policy +
  assumes id_op: "P (SetHeader ''X-Request-ID'' v)" and text_op: "P text_plain"
    and robots_op: "P (SetHeader ''X-Robots-Tag'' v)" and etag_op: "P (SetHeader ''ETag'' v)"
    and cache_op: "P (SetHeader ''Cache-Control'' v)"
    and nosniff_op: "P (SetHeader ''X-Content-Type-Options'' ''nosniff'')"
    and length_op: "P (DelHeader ''Content-Length'')"
begin

lemmas api_op_rules = graphql_op_rules id_op text_op robots_op etag_op cache_op nosniff_op length_op

lemma public_ops: "list_all P (ran_ops (publicHandler site fs rfc3339 rq hp (sv :: 'b server)))"
proof -
  have "obeys (handleLiveness :: 'b handler)" "obeys (handleReadiness :: 'b handler)" "obeys (handleRoot :: 'b handler)"
    by (simp_all add: api_op_rules route_defs Let_def)
  moreover have "obeys (handleCatalog fs :: 'b handler)"
    by (simp add: api_op_rules route_defs Let_def split: sum.split)
  moreover have "obeys (handleStatus rfc3339 :: 'b handler)"
    by (simp add: api_op_rules route_defs Let_def split: prod.split)
  moreover have "obeys (graphql_endpoint site)"
    by (simp add: obeys_def endpoint_unfold Let_def id_op inner_ops)
  moreover have D: "list_all P (ran_ops (h rq hp sv))" if "obeys h" for h :: "'b handler" and rq hp sv
    using that by (simp add: obeys_def)
  ultimately show ?thesis
    by (simp add: publicHandler_def Let_def D obeys_instrument)
qed

end

subsection \<open>Security headers\<close>

definition security_pairs :: "(string \<times> string) list" where
  "security_pairs =
     [(''X-Content-Type-Options'', ''nosniff''), (''X-Frame-Options'', ''DENY''), (''Referrer-Policy'', ''no-referrer''),
      (''Content-Security-Policy'', ''default-src '' @ [CHR 0x27] @ ''none'' @ [CHR 0x27]),
      (''Strict-Transport-Security'', ''max-age=31536000; includeSubDomains'')]"

definition secure_op :: "wop \<Rightarrow> bool" where
  "secure_op op =
     (case op of
        SetHeader k v \<Rightarrow>
          canonical_key k \<notin> fst ` set security_pairs \<or> (canonical_key k, v) \<in> set security_pairs
      | AddHeader k v \<Rightarrow> canonical_key k \<notin> fst ` set security_pairs
      | DelHeader k \<Rightarrow> canonical_key k \<notin> fst ` set security_pairs
      | _ \<Rightarrow> True)"

lemma security_distinct: "distinct (map fst security_pairs)"
  by (simp add: security_pairs_def)

lemma secure_fold:
  assumes "list_all secure_op ops" "(k, v) \<in> set security_pairs" "h k = [v]"
  shows "fold h_step ops h k = [v]"
  using assms(1,3)
proof (induction ops arbitrary: h)
  case (Cons op ops)
  have u: "v' = v" if "(k, v') \<in> set security_pairs" for v'
    using eq_key_imp_eq_value [OF security_distinct that assms(2)] .
  have n: "k' \<noteq> k" if "k' \<notin> fst ` set security_pairs" for k' using that assms(2) by force
  have "h_step op h k = [v]"
    using Cons.prems u n by (cases op) (auto simp: secure_op_def h_step_def)
  with Cons show ?case by simp
qed simp

lemma secure_names:
  "list_all (\<lambda>k. canonical_key k \<notin> fst ` set security_pairs)
     [''Content-Type'', ''Retry-After'', ''X-Request-ID'', ''X-Robots-Tag'', ''ETag'', ''Cache-Control'',
      ''Content-Encoding'', ''Content-Length'', ''Vary'', ''Access-Control-Allow-Origin'',
      ''Access-Control-Allow-Methods'', ''Access-Control-Allow-Headers'', ''Access-Control-Max-Age'']"
  by code_simp

lemma nosniff_secure: "secure_op (SetHeader ''X-Content-Type-Options'' ''nosniff'')"
  by code_simp

lemma secure_ops [simp]:
  "secure_op (WriteHeader n)" "secure_op (WriteBody p)" "secure_op content_json" "secure_op text_plain"
  "secure_op (SetHeader ''Retry-After'' v)" "secure_op (SetHeader ''X-Request-ID'' v)"
  "secure_op (SetHeader ''X-Robots-Tag'' v)" "secure_op (SetHeader ''ETag'' v)" "secure_op (SetHeader ''Cache-Control'' v)"
  "secure_op (DelHeader ''Content-Length'')" "secure_op (SetHeader ''Content-Encoding'' v)" "secure_op (AddHeader ''Vary'' v)"
  "secure_op (SetHeader ''X-Content-Type-Options'' ''nosniff'')"
  using secure_names nosniff_secure by (simp_all add: secure_op_def content_json_def text_plain_def)

interpretation sec: api_policy secure_op
  by unfold_locales simp_all

lemma secure_gzip_ops:
  assumes "well_shaped ops" "unencoded (headers_of ops)" "list_all secure_op ops"
  shows "list_all secure_op (gzip_ops deflate ops)"
proof -
  from gzip_ops_well_shaped [OF assms(1,2), of deflate] obtain pre where
    "set pre \<subseteq> set ops" "gzip_ops deflate ops = gzipped deflate pre (ops_status ops) (body_of ops)" by blast
  moreover from this(1) assms(3) have "list_all secure_op pre" by (auto simp: list_all_iff)
  ultimately show ?thesis by (simp add: gzipped_def gzip_headers_def)
qed

subsection \<open>No handler encodes or measures its body\<close>

definition plain_op :: "wop \<Rightarrow> bool" where
  "plain_op op = (leaves ''Content-Encoding'' op \<and> (leaves ''Content-Length'' op \<or> op = DelHeader ''Content-Length''))"

lemma plain_fold: "list_all plain_op ops \<Longrightarrow> unencoded h \<Longrightarrow> unencoded (fold h_step ops h)"
proof (induction ops arbitrary: h)
  case (Cons op ops)
  have "unencoded (h_step op h)"
    using Cons.prems by (cases op) (auto simp: plain_op_def leaves_def h_step_def unencoded_def gz_names)
  with Cons show ?case by simp
qed simp

lemma plain_unencoded: "list_all plain_op ops \<Longrightarrow> unencoded (headers_of ops)"
  unfolding headers_of_def by (rule plain_fold) (simp_all add: unencoded_def)

lemma plain_names:
  "list_all (\<lambda>k. canonical_key k \<notin> {''Content-Encoding'', ''Content-Length''})
     [''Content-Type'', ''Retry-After'', ''X-Request-ID'', ''X-Robots-Tag'', ''ETag'', ''Cache-Control'',
      ''X-Content-Type-Options'']"
  by code_simp

lemma plain_ops [simp]:
  "plain_op (WriteHeader n)" "plain_op (WriteBody p)" "plain_op content_json" "plain_op text_plain"
  "plain_op (SetHeader ''Retry-After'' v)" "plain_op (SetHeader ''X-Request-ID'' v)"
  "plain_op (SetHeader ''X-Robots-Tag'' v)" "plain_op (SetHeader ''ETag'' v)" "plain_op (SetHeader ''Cache-Control'' v)"
  "plain_op (SetHeader ''X-Content-Type-Options'' v)" "plain_op (DelHeader ''Content-Length'')"
  using plain_names by (simp_all add: plain_op_def content_json_def text_plain_def) (simp_all add: leaves_def gz_names)

interpretation pl: api_policy plain_op
  by unfold_locales simp_all

lemma public_unencoded: "unencoded (headers_of (ran_ops (publicHandler site fs rfc3339 rq hp sv)))"
  by (rule plain_unencoded) (rule pl.public_ops)

lemma server_total: "total_handler (server_handler deflate site fs rfc3339) api_statuses"
proof -
  have "total_handler (securityHeadersMiddleware (gzipMiddleware deflate (publicHandler site fs rfc3339))) api_statuses"
    by (intro contract_intros public_unencoded)
  then show ?thesis by (simp add: server_handler_def Let_def cors_contract api_statuses_def)
qed

interpretation srv: total_handler "server_handler deflate site fs rfc3339" api_statuses for deflate site fs rfc3339
  by (rule server_total)

subsection \<open>What the public server guarantees\<close>

definition security_ops :: "wop list" where
  "security_ops =
     [SetHeader ''X-Content-Type-Options'' ''nosniff'', SetHeader ''X-Frame-Options'' ''DENY'',
      SetHeader ''Referrer-Policy'' ''no-referrer'',
      SetHeader ''Content-Security-Policy'' (''default-src '' @ [CHR 0x27] @ ''none'' @ [CHR 0x27]),
      SetHeader ''Strict-Transport-Security'' ''max-age=31536000; includeSubDomains'',
      SetHeader ''Cache-Control'' ''no-store'']"

lemma security_ops_set:
  assumes "(k, v) \<in> set security_pairs"
  shows "fold h_step security_ops h k = [v]"
proof -
  have n: "canonical_key ''X-Content-Type-Options'' = ''X-Content-Type-Options''"
    "canonical_key ''X-Frame-Options'' = ''X-Frame-Options''" "canonical_key ''Referrer-Policy'' = ''Referrer-Policy''"
    "canonical_key ''Content-Security-Policy'' = ''Content-Security-Policy''"
    "canonical_key ''Strict-Transport-Security'' = ''Strict-Transport-Security''"
    "canonical_key ''Cache-Control'' = ''Cache-Control''"
    by code_simp+
  show ?thesis using assms by (auto simp: security_ops_def security_pairs_def h_step_def n)
qed

definition api_stack :: "(string \<Rightarrow> string) \<Rightarrow> 'b site \<Rightarrow> catalog_fs \<Rightarrow> (int \<Rightarrow> string) \<Rightarrow> 'b handler" where
  "api_stack deflate site fs rfc3339 = gzipMiddleware deflate (publicHandler site fs rfc3339)"

lemma api_stack_secure: "list_all secure_op (ran_ops (api_stack deflate site fs rfc3339 rq hp sv))"
proof -
  let ?r = "publicHandler site fs rfc3339 rq hp sv"
  have "well_shaped (ran_ops ?r)"
    using public_total [of site fs rfc3339] by (simp add: total_handler_def handler_contract_def ran_ok_def)
  then have "list_all secure_op (gzip_ops deflate (ran_ops ?r))"
    by (rule secure_gzip_ops [OF _ public_unencoded sec.public_ops])
  then show ?thesis by (simp add: api_stack_def gzipMiddleware_def Let_def sec.public_ops)
qed

lemma security_sets:
  assumes "(k, v) \<in> set security_pairs"
  shows "fold h_step (ran_ops (securityHeadersMiddleware (api_stack deflate site fs rfc3339) rq hp sv)) h k = [v]"
proof -
  have "ran_ops (securityHeadersMiddleware (api_stack deflate site fs rfc3339) rq hp sv)
    = security_ops @ ran_ops (api_stack deflate site fs rfc3339 rq hp sv)"
    by (simp add: securityHeadersMiddleware_def prefix_ops_def security_ops_def)
  then show ?thesis
    by (simp add: secure_fold [of _ k v] api_stack_secure assms security_ops_set)
qed

lemma cors_names:
  "list_all (\<lambda>k. canonical_key k \<notin> fst ` set security_pairs)
     [''Vary'', ''Access-Control-Allow-Origin'', ''Access-Control-Allow-Methods'', ''Access-Control-Allow-Headers'',
      ''Access-Control-Max-Age'']"
  by code_simp

lemma preflight_headers:
  assumes "rq_method rq = ''OPTIONS''" "k \<in> fst ` set security_pairs"
  shows "headers_of (ran_ops (corsMiddleware origins next rq hp sv)) k = []"
proof -
  have n: "canonical_key ''Vary'' \<noteq> k" "canonical_key ''Access-Control-Allow-Origin'' \<noteq> k"
    "canonical_key ''Access-Control-Allow-Methods'' \<noteq> k" "canonical_key ''Access-Control-Allow-Headers'' \<noteq> k"
    "canonical_key ''Access-Control-Max-Age'' \<noteq> k"
    using cors_names assms(2) by auto
  show ?thesis
    using assms(1) n by (simp add: corsMiddleware_def headers_of_def h_step_def Let_def)
qed

text \<open>
  The security headers. On every path, whatever the handlers do, panics and compression included,
  the response carries each of the five fixed security headers exactly once with its value - except
  the answer to a CORS preflight (an \<open>OPTIONS\<close> request when CORS is configured), which carries none
  of them, because \<open>corsMiddleware\<close> is outside \<open>securityHeadersMiddleware\<close> and answers by itself.
\<close>

theorem security_headers_exact:
  assumes "(k, v) \<in> set security_pairs"
  shows "rs_header (response_of is_head (ran_ops (server_handler deflate site fs rfc3339 rq hp sv))) k
    = (if rq_method rq = ''OPTIONS'' \<and> cfg_CORSOrigins (st_cfg site) \<noteq> '''' then [] else [v])"
proof -
  let ?h = "securityHeadersMiddleware (api_stack deflate site fs rfc3339)"
  have sh: "server_handler deflate site fs rfc3339
      = (if cfg_CORSOrigins (st_cfg site) \<noteq> '''' then corsMiddleware (cfg_CORSOrigins (st_cfg site)) ?h else ?h)"
    by (simp add: server_handler_def api_stack_def Let_def)
  have k: "k \<in> fst ` set security_pairs" using assms by force
  have "headers_of (ran_ops (server_handler deflate site fs rfc3339 rq hp sv)) k
    = (if rq_method rq = ''OPTIONS'' \<and> cfg_CORSOrigins (st_cfg site) \<noteq> '''' then [] else [v])"
  proof (cases "rq_method rq = ''OPTIONS'' \<and> cfg_CORSOrigins (st_cfg site) \<noteq> ''''")
    case True
    then show ?thesis by (simp add: sh preflight_headers k)
  next
    case False
    then have "\<exists>pre. ran_ops (server_handler deflate site fs rfc3339 rq hp sv) = pre @ ran_ops (?h rq hp sv)"
      unfolding sh by (cases "cfg_CORSOrigins (st_cfg site) = ''''") (simp_all add: corsMiddleware_def prefix_ops_def Let_def)
    then obtain pre where "ran_ops (server_handler deflate site fs rfc3339 rq hp sv) = pre @ ran_ops (?h rq hp sv)" ..
    with False show ?thesis by (simp add: headers_of_def security_sets [OF assms])
  qed
  then show ?thesis by (simp only: srv.header_sent)
qed

theorem security_headers_exact_witness:
  "(''X-Frame-Options'', ''DENY'') \<in> set security_pairs
   \<and> rs_header (response_of False (ran_ops (server_handler id (sample_site plain_config) (\<lambda>p. Inr []) show_int
       (sample_query_request ''k'') sample_happening fresh_server))) ''X-Frame-Options'' = [''DENY'']
   \<and> rs_header (response_of False (ran_ops (server_handler id (sample_site (plain_config\<lparr>cfg_CORSOrigins := ''*''\<rparr>))
       (\<lambda>p. Inr []) show_int ((sample_query_request ''k'')\<lparr>rq_method := ''OPTIONS''\<rparr>) sample_happening fresh_server)))
       ''X-Frame-Options'' = []"
proof (intro conjI)
  show m: "(''X-Frame-Options'', ''DENY'') \<in> set security_pairs" by (simp add: security_pairs_def)
  show "rs_header (response_of False (ran_ops (server_handler id (sample_site plain_config) (\<lambda>p. Inr []) show_int
       (sample_query_request ''k'') sample_happening fresh_server))) ''X-Frame-Options'' = [''DENY'']"
    by (subst security_headers_exact [OF m]) (simp add: sample_query_request_def)
  show "rs_header (response_of False (ran_ops (server_handler id (sample_site (plain_config\<lparr>cfg_CORSOrigins := ''*''\<rparr>))
       (\<lambda>p. Inr []) show_int ((sample_query_request ''k'')\<lparr>rq_method := ''OPTIONS''\<rparr>) sample_happening fresh_server)))
       ''X-Frame-Options'' = []"
    by (subst security_headers_exact [OF m]) (simp add: sample_site_def)
qed

end
