(* ===== verification/Api_Properties.thy ===== *)
theory Api_Properties
  imports Public_Api
begin

text \<open>
  Properties of the smaller parts of the public surface: what \<open>/status\<close> reports of the run table, the
  key the rate limiter uses for a client, and the entity tag of the catalogue.
\<close>

subsection \<open>The newest run of a vendor\<close>

lemma newest_run_None: "newest_run rs = None \<longleftrightarrow> rs = []"
proof (cases rs)
  case (Cons r rs')
  let ?P = "\<lambda>r. run_id r = Max (set (map run_id rs))"
  have "Max (set (map run_id rs)) \<in> set (map run_id rs)" using Cons by (intro Max_in) auto
  then have "\<exists>x \<in> set rs. ?P x" by (metis imageE set_map)
  then have "find ?P rs \<noteq> None" unfolding find_None by blast
  moreover have "newest_run rs = find ?P rs" using Cons by (simp add: newest_run_def del: find.simps)
  ultimately show ?thesis using Cons by simp
qed (simp add: newest_run_def)

lemma newest_run_Nil [simp]: "newest_run [] = None"
  by (simp add: newest_run_None)

lemma newest_run_Some:
  assumes "newest_run rs = Some r"
  shows "r \<in> set rs" "r' \<in> set rs \<Longrightarrow> run_id r' \<le> run_id r"
proof -
  from assms have f: "find (\<lambda>r. run_id r = Max (set (map run_id rs))) rs = Some r"
    by (auto simp: newest_run_def split: list.splits)
  from find_Some_map_of [OF f] show "r \<in> set rs" by simp
  from find_Some_map_of [OF f] show "r' \<in> set rs \<Longrightarrow> run_id r' \<le> run_id r" by simp
qed

lemma newest_run_unique:
  assumes "distinct (map run_id rs)" "r \<in> set rs" "\<And>r'. r' \<in> set rs \<Longrightarrow> run_id r' \<le> run_id r"
  shows "newest_run rs = Some r"
proof -
  obtain r2 where r2: "newest_run rs = Some r2" using assms(2) newest_run_None [of rs] by fastforce
  from newest_run_Some [OF r2] assms(2,3) have "r2 \<in> set rs" "run_id r2 = run_id r" by (auto intro: antisym)
  with assms(1,2) have "r2 = r" by (auto simp: distinct_map inj_on_def)
  with r2 show ?thesis by simp
qed

lemma newest_success:
  assumes "distinct (map run_id rs)" "newest_run rs = Some r" "run_status r = ''success''"
  shows "newest_run (filter (\<lambda>r. run_status r = ''success'') rs) = Some r"
  using assms newest_run_Some [OF assms(2)]
  by (intro newest_run_unique) (auto simp: distinct_map inj_on_def)

lemma map_filter_find:
  assumes "distinct ks" "\<And>k x. f k = Some x \<Longrightarrow> key x = k"
  shows "distinct (map key (List.map_filter f ks))
    \<and> find (\<lambda>x. key x = v) (List.map_filter f ks) = (if v \<in> set ks then f v else None)
    \<and> key ` set (List.map_filter f ks) \<subseteq> set ks"
  using assms(1)
proof (induction ks)
  case (Cons k ks)
  then show ?case using assms(2) by (auto simp: map_filter_simps split: option.split)
qed (simp add: map_filter_simps)

lemma newest_per_vendor_find:
  "distinct (map run_vendor (newest_per_vendor rs))
   \<and> find (\<lambda>r. run_vendor r = v) (newest_per_vendor rs) = newest_run (filter (\<lambda>r. run_vendor r = v) rs)"
proof -
  have k: "run_vendor x = k" if "newest_run (filter (\<lambda>r. run_vendor r = k) rs) = Some x" for k x
    using newest_run_Some(1) [OF that] by simp
  have n: "newest_run (filter (\<lambda>r. run_vendor r = v) rs) = None" if "v \<notin> set (map run_vendor rs)"
    using that by (auto simp: newest_run_None filter_empty_conv)
  let ?ks = "sort (remdups (map run_vendor rs))"
  have "distinct ?ks" by simp
  note l = map_filter_find [where f = "\<lambda>v. newest_run (filter (\<lambda>r. run_vendor r = v) rs)" and key = run_vendor
      and v = v, OF this k]
  have "distinct (map run_vendor (newest_per_vendor rs))"
    unfolding newest_per_vendor_def by (rule l [THEN conjunct1])
  moreover have "find (\<lambda>r. run_vendor r = v) (newest_per_vendor rs)
      = (if v \<in> set ?ks then newest_run (filter (\<lambda>r. run_vendor r = v) rs) else None)"
    unfolding newest_per_vendor_def by (rule l [THEN conjunct2, THEN conjunct1])
  moreover have "set ?ks = set (map run_vendor rs)" by simp
  ultimately show ?thesis using n by simp
qed

subsection \<open>Folding the rows\<close>

lemma fold_success_rows:
  assumes "distinct (map fst rows)" "v \<in> set known_vendors"
  shows "fst (fold success_row rows (fs, vs, m)) v
      = (case map_of rows v of None \<Rightarrow> fs v | Some c \<Rightarrow> (fs v)\<lparr>fa_sawSuccess := True, fa_successProducts := c\<rparr>)
    \<and> vi_Products (fst (snd (fold success_row rows (fs, vs, m))) v)
      = (case map_of rows v of None \<Rightarrow> vi_Products (vs v) | Some c \<Rightarrow> c)"
  using assms(1)
proof (induction rows arbitrary: fs vs m)
  case (Cons row rows)
  obtain w c where row: "row = (w, c)" by (cases row)
  have "map_of rows w = None" using Cons.prems row by (auto simp: map_of_eq_None_iff)
  with Cons.IH [of "fst (success_row row (fs, vs, m))" "fst (snd (success_row row (fs, vs, m)))"
      "snd (snd (success_row row (fs, vs, m)))"] Cons.prems assms(2) row
  show ?case by (auto simp: success_row_def split: option.split)
qed simp

lemma fold_latest_rows:
  assumes "distinct (map fst rows)" "v \<in> set known_vendors"
  shows "fst (fold latest_row rows (fs, vs, m)) v
      = (case map_of rows v of None \<Rightarrow> fs v | Some (s, f) \<Rightarrow> (fs v)\<lparr>fa_latestStatus := s, fa_finishedAt := f\<rparr>)
    \<and> vi_Products (fst (snd (fold latest_row rows (fs, vs, m))) v) = vi_Products (vs v)"
  using assms(1)
proof (induction rows arbitrary: fs vs m)
  case (Cons row rows)
  obtain w s f where row: "row = (w, s, f)" by (cases row) auto
  have "map_of rows w = None" using Cons.prems row by (auto simp: map_of_eq_None_iff)
  with Cons.IH [of "fst (latest_row row (fs, vs, m))" "fst (snd (latest_row row (fs, vs, m)))"
      "snd (snd (latest_row row (fs, vs, m)))"] Cons.prems assms(2) row
  show ?case by (auto simp: latest_row_def split: option.split)
qed simp

lemma map_of_find: "map_of (map (\<lambda>r. (key r, val r)) xs) v = map_option val (find (\<lambda>r. key r = v) xs)"
  by (induction xs) auto

subsection \<open>What /status reports\<close>

text \<open>The state of a vendor, from the newest of its runs alone.\<close>

definition reported :: "int \<Rightarrow> run list \<Rightarrow> string" where
  "reported time_now rs =
     (case newest_run rs of
        None \<Rightarrow> ''never''
      | Some r \<Rightarrow>
          if run_status r = ''running'' then ''scraping''
          else if run_status r = ''failed'' then ''failed''
          else if run_products r = 0 then ''empty''
          else if (case run_finished r of None \<Rightarrow> False | Some t \<Rightarrow> time_now - t > 48 * 3600 * 10 ^ 9) then ''stale''
          else ''ready'')"

lemma gather_status_facts:
  assumes "script d = []" "v \<in> set known_vendors"
  shows "let rs = filter (\<lambda>r. run_vendor r = v) (tbl_runs d);
             good = newest_run (filter (\<lambda>r. run_status r = ''success'') rs); new = newest_run rs;
             vi = fst (gather_status t m d) v in
    vi_Status vi = vendorStatus t (good \<noteq> None) (case good of None \<Rightarrow> 0 | Some r \<Rightarrow> run_products r)
                     (case new of None \<Rightarrow> '''' | Some r \<Rightarrow> run_status r) (Option.bind new run_finished)
    \<and> vi_Products vi = (case good of None \<Rightarrow> 0 | Some r \<Rightarrow> run_products r)"
proof -
  let ?ok = "filter (\<lambda>r. run_status r = ''success'') (tbl_runs d)"
  let ?r1 = "map (\<lambda>r. (run_vendor r, run_products r)) (newest_per_vendor ?ok)"
  let ?r2 = "map (\<lambda>r. (run_vendor r, run_status r, run_finished r)) (newest_per_vendor (tbl_runs d))"
  obtain fs0 vs0 m0 where init: "status_init m = (fs0, vs0, m0)" by (cases "status_init m") auto
  have f0: "fs0 v = \<lparr>fa_sawSuccess = False, fa_successProducts = 0, fa_latestStatus = '''', fa_finishedAt = None\<rparr>"
    "vi_Products (vs0 v) = 0"
    using init by (auto simp: status_init_def)
  obtain fs1 vs1 m1 where s1: "fold success_row ?r1 (status_init m) = (fs1, vs1, m1)"
    by (cases "fold success_row ?r1 (status_init m)") auto
  obtain fs2 vs2 m2 where s2: "fold latest_row ?r2 (fs1, vs1, m1) = (fs2, vs2, m2)"
    by (cases "fold latest_row ?r2 (fs1, vs1, m1)") auto
  have d1: "distinct (map fst ?r1)" "distinct (map fst ?r2)"
    using newest_per_vendor_find by (simp_all add: o_def)
  have m1: "map_of ?r1 v = map_option run_products (newest_run (filter (\<lambda>r. run_vendor r = v) ?ok))"
    by (simp only: map_of_find newest_per_vendor_find)
  have m2: "map_of ?r2 v = map_option (\<lambda>r. (run_status r, run_finished r)) (newest_run (filter (\<lambda>r. run_vendor r = v) (tbl_runs d)))"
    by (simp only: map_of_find newest_per_vendor_find)
  have g: "fst (gather_status t m d) v = (vs2 v)\<lparr>vi_Status := vendorStatus t (fa_sawSuccess (fs2 v))
      (fa_successProducts (fs2 v)) (fa_latestStatus (fs2 v)) (fa_finishedAt (fs2 v))\<rparr>"
    using assms(1) s1 s2
    by (simp add: gather_status_def exec_def sql_newest_success_def sql_newest_runs_def rows_of_def)
  have sw: "filter (\<lambda>r. run_vendor r = v) ?ok = filter (\<lambda>r. run_status r = ''success'') (filter (\<lambda>r. run_vendor r = v) (tbl_runs d))"
    by (simp add: conj_commute)
  from fold_success_rows [OF d1(1) assms(2), of fs0 vs0 m0] fold_latest_rows [OF d1(2) assms(2), of fs1 vs1 m1]
  show ?thesis
    unfolding Let_def g sw [symmetric] using f0 s1 s2 init m1 m2
    by (simp split: option.split)
qed

text \<open>
  C31: \<open>/status\<close> tells the truth about the last scrape. Although it is computed from two queries (the
  newest successful run and the newest run of each vendor) and a ladder of tests, the state reported
  for a vendor is a function of its newest run only: \<open>never\<close> without runs, \<open>scraping\<close>, \<open>failed\<close> or
  \<open>empty\<close> as that run says, \<open>stale\<close> when it succeeded more than 48 hours ago, else \<open>ready\<close>; a vendor
  whose newest run failed or brought nothing is never \<open>ready\<close>.
\<close>

theorem status_reports_newest_run:
  assumes "script d = []" "v \<in> set known_vendors" "distinct (map run_id (tbl_runs d))"
    and "list_all (\<lambda>r. run_status r \<in> {''running'', ''failed'', ''success''}) (tbl_runs d)"
  shows "vi_Status (fst (gather_status t m d) v) = reported t (filter (\<lambda>r. run_vendor r = v) (tbl_runs d))"
proof -
  let ?rs = "filter (\<lambda>r. run_vendor r = v) (tbl_runs d)"
  have dist: "distinct (map run_id ?rs)" using assms(3) by (simp add: distinct_map inj_on_def)
  note f = gather_status_facts [OF assms(1,2), of t m, unfolded Let_def, THEN conjunct1]
  show ?thesis
  proof (cases "newest_run ?rs")
    case None
    then have "newest_run (filter (\<lambda>r. run_status r = ''success'') ?rs) = None"
      by (simp only: newest_run_None filter.simps)
    with None show ?thesis unfolding f by (simp add: reported_def vendorStatus_def)
  next
    case (Some r)
    from newest_run_Some(1) [OF Some] assms(4) have "run_status r \<in> {''running'', ''failed'', ''success''}"
      by (auto simp: list_all_iff)
    with newest_success [OF dist Some] Some show ?thesis
      unfolding f by (auto simp: reported_def vendorStatus_def)
  qed
qed

definition failed_db :: db where
  "failed_db = (fresh_db 0 [])\<lparr>tbl_runs :=
     [\<lparr>run_id = 1, run_vendor = ''aws'', run_started = 0, run_finished = Some 5, run_status = ''success'',
       run_products = 7, run_deleted = 0, run_error = None\<rparr>,
      \<lparr>run_id = 2, run_vendor = ''aws'', run_started = 6, run_finished = Some 9, run_status = ''failed'',
       run_products = 0, run_deleted = 0, run_error = Some ''denied''\<rparr>]\<rparr>"

theorem status_reports_newest_run_witness:
  "vi_Status (fst (gather_status 10 no_metrics failed_db) ''aws'') = ''failed''"
proof -
  have "script failed_db = []" "''aws'' \<in> set known_vendors" "distinct (map run_id (tbl_runs failed_db))"
    "list_all (\<lambda>r. run_status r \<in> {''running'', ''failed'', ''success''}) (tbl_runs failed_db)"
    by (simp_all add: failed_db_def fresh_db_def known_vendors_def)
  from status_reports_newest_run [OF this, of 10 no_metrics] show ?thesis
    by (simp add: reported_def newest_run_def failed_db_def)
qed

subsection \<open>The key of a client\<close>

definition peer :: "request \<Rightarrow> string" where
  "peer rq = (case SplitHostPort (rq_remote rq) of None \<Rightarrow> rq_remote rq | Some host \<Rightarrow> host)"

lemma clientIP_untrusted: "\<not> trusted_peer site (peer rq) \<Longrightarrow> clientIP site rq = peer rq"
  by (simp add: clientIP_def peer_def Let_def)

lemma clientIP_forwarded:
  assumes "trusted_peer site (peer rq)" "trim_space (h_get (rq_header rq) ''CF-Connecting-IP'') = ''''"
    and "h_get (rq_header rq) ''X-Forwarded-For'' = forged @ '','' @ others" "CHR '','' \<notin> set forged"
  shows "clientIP site rq = trim_space forged"
proof -
  have "st_proxies site \<noteq> [] \<or> st_ips site \<noteq> []" using assms(1) by (auto simp: trusted_peer_def Let_def)
  with assms show ?thesis by (auto simp: clientIP_def peer_def Let_def split_on_append)
qed

lemma new_limiter:
  assumes "ip \<notin> set (rateLimiters ls)"
  shows "fst (getLimiter new_bucket perSec time_now ip ls) = Some (new_bucket perSec (burst_of perSec))"
  using assms by (simp add: getLimiter_def Let_def)

text \<open>
  C40: the rate limiter can be evaded behind a proxy that appends to \<open>X-Forwarded-For\<close>, as proxies
  commonly do. The key is the leftmost address of the header, which is the client's own text, while
  the address the proxy vouches for comes after it. A client that names an address without a limiter
  in each request is admitted each time, whatever it has sent before.
\<close>

theorem forged_header_evades_rate_limit:
  assumes "trusted_peer site (peer rq)" "trim_space (h_get (rq_header rq) ''CF-Connecting-IP'') = ''''"
    and "h_get (rq_header rq) ''X-Forwarded-For'' = forged @ '','' @ vouched" "CHR '','' \<notin> set forged"
    and "trim_space forged \<notin> set (rateLimiters ls)"
    and "\<And>r b t. 1 \<le> b \<Longrightarrow> fst (st_allow site (st_new_bucket site r b) t)"
  shows "fst (rate_admit (st_new_bucket site) (st_allow site) perSec time_now (clientIP site rq) ls)"
proof -
  have "1 \<le> burst_of perSec" by (simp add: burst_of_def Let_def)
  then have "fst (st_allow site (st_new_bucket site perSec (burst_of perSec)) time_now)" by (rule assms(6))
  with new_limiter [OF assms(5), of "st_new_bucket site" perSec time_now]
  show ?thesis
    by (auto simp: rate_admit_def clientIP_forwarded [OF assms(1-4)] allow_bucket_def
        split: prod.split option.split)
qed

definition proxied_site :: "int site" where
  "proxied_site =
     \<lparr>st_cfg = plain_config, st_proxies = fst (trusted_proxies ''10.0.0.0/8''), st_ips = [], st_cap = 0,
      st_new_bucket = (\<lambda>r b. b), st_allow = (\<lambda>b t. (1 \<le> b, b - 1)), st_parse = (\<lambda>q. None),
      st_do = (\<lambda>i req d b. None), st_print = (\<lambda>r. ''''), st_url_head = Some, st_url_frag = Some\<rparr>"

definition forwarded_request :: "string \<Rightarrow> request" where
  "forwarded_request forged =
     \<lparr>rq_method = ''POST'', rq_path = ''/graphql'', rq_uri = ''/graphql'', rq_remote = ''10.1.2.3:443'',
      rq_header = (\<lambda>_. [])(''X-Forwarded-For'' := [forged @ '','' @ '' 203.0.113.9'']), rq_body = '''', rq_body_err = False\<rparr>"

theorem forged_header_evades_rate_limit_witness:
  "trusted_peer proxied_site (peer (forwarded_request ''1.1.1.1''))
   \<and> fst (rate_admit (\<lambda>r b. b) (\<lambda>b t. (1 \<le> b, b - 1)) 1 0 (clientIP proxied_site (forwarded_request ''1.1.1.1'')) no_limiters)"
proof -
  have t: "trusted_peer proxied_site (peer (forwarded_request ''1.1.1.1''))"
    "trim_space (h_get (rq_header (forwarded_request ''1.1.1.1'')) ''CF-Connecting-IP'') = ''''"
    "h_get (rq_header (forwarded_request ''1.1.1.1'')) ''X-Forwarded-For'' = ''1.1.1.1'' @ '','' @ '' 203.0.113.9''"
    "CHR '','' \<notin> set ''1.1.1.1''" "trim_space ''1.1.1.1'' \<notin> set (rateLimiters (no_limiters :: int limiters))"
    by code_simp+
  have "fst (st_allow proxied_site (st_new_bucket proxied_site r b) t)" if "1 \<le> b" for r b t
    using that by (simp add: proxied_site_def)
  from forged_header_evades_rate_limit [OF t this, of 1 0] t(1) show ?thesis by (simp add: proxied_site_def)
qed

subsection \<open>The catalogue\<close>

definition no_nul :: "entry \<Rightarrow> bool" where
  "no_nul e \<longleftrightarrow> NUL \<notin> set (en_Provider e) \<and> NUL \<notin> set (en_Kind e) \<and> NUL \<notin> set (en_TOML e)"

lemma nul_prefix: "NUL \<notin> set a \<Longrightarrow> NUL \<notin> set b \<Longrightarrow> a @ NUL # s = b @ NUL # t \<Longrightarrow> a = b \<and> s = t"
  by (auto simp: append_eq_append_conv2 append_eq_Cons_conv Cons_eq_append_conv)

lemma entry_bytes_inj:
  assumes "no_nul e" "no_nul e'" "entry_bytes e @ s = entry_bytes e' @ t"
  shows "e = e' \<and> s = t"
proof -
  obtain p k x where e: "e = \<lparr>en_Provider = p, en_Kind = k, en_TOML = x\<rparr>" by (cases e)
  obtain p' k' x' where e': "e' = \<lparr>en_Provider = p', en_Kind = k', en_TOML = x'\<rparr>" by (cases e')
  have "p @ NUL # k @ NUL # x @ NUL # s = p' @ NUL # k' @ NUL # x' @ NUL # t"
    using assms(3) by (simp add: entry_bytes_def e e')
  from nul_prefix [OF _ _ this] assms(1,2) have 1: "p = p'" "k @ NUL # x @ NUL # s = k' @ NUL # x' @ NUL # t"
    by (simp_all add: no_nul_def e e')
  from nul_prefix [OF _ _ 1(2)] assms(1,2) have 2: "k = k'" "x @ NUL # s = x' @ NUL # t"
    by (simp_all add: no_nul_def e e')
  from nul_prefix [OF _ _ 2(2)] assms(1,2) 1(1) 2(1) show ?thesis by (simp add: no_nul_def e e')
qed

lemma entries_bytes_inj:
  "list_all no_nul es \<Longrightarrow> list_all no_nul es' \<Longrightarrow> concat (map entry_bytes es) = concat (map entry_bytes es') \<Longrightarrow> es = es'"
proof (induction es arbitrary: es')
  case Nil
  then show ?case by (cases es') (auto simp: entry_bytes_def)
next
  case (Cons e es)
  then obtain e' es2 where "es' = e' # es2" by (cases es') (auto simp: entry_bytes_def)
  with Cons entry_bytes_inj [of e e'] show ?case by auto
qed

lemma hex_bytes_inj: "hex_bytes a = hex_bytes b \<Longrightarrow> a = b"
proof (induction a arbitrary: b)
  case Nil
  then show ?case by (cases b) (auto simp: hex_bytes_def)
next
  case (Cons c a)
  then obtain d b' where b: "b = d # b'" by (cases b) (auto simp: hex_bytes_def)
  have inj: "m = n" if "m < 16" "n < 16" "hex_lower m = hex_lower n" for m n
  proof -
    have "list_all (\<lambda>m. list_all (\<lambda>n. hex_lower m = hex_lower n \<longrightarrow> m = n) [0..<16]) [0..<16]" by code_simp
    with that show ?thesis by (simp add: list_all_iff)
  qed
  have m: "hex_lower n = hex_lower (n mod 16)" for n by (simp add: hex_lower_def)
  from Cons.prems b have "hex_lower (of_char c div 16) = hex_lower (of_char d div 16)"
    "hex_lower (of_char c) = hex_lower (of_char d)" "hex_bytes a = hex_bytes b'"
    by (simp_all add: hex_bytes_def)
  moreover have "(of_char x :: nat) div 16 < 16" for x by (rule less_mult_imp_div_less) simp
  ultimately have "(of_char c :: nat) div 16 = of_char d div 16" "(of_char c :: nat) mod 16 = of_char d mod 16"
    using inj [of "of_char c div 16" "of_char d div 16"] inj [of "of_char c mod 16" "of_char d mod 16"] m by auto
  then have "(of_char c :: nat) = of_char d" by (metis div_mult_mod_eq)
  with Cons.IH \<open>hex_bytes a = hex_bytes b'\<close> b show ?case by simp
qed

lemma sort_entries_set: "set (sort_entries es) = set es"
  by (simp add: sort_entries_def)

text \<open>
  The entity tag of the catalogue stands for its entries. Two catalogues of TOML files without NUL
  bytes have the same hashed byte string only if they have the same entries in the same order, so equal tags
  with different entries are a collision of SHA-256; and a client that has the current entries is
  answered 304 without a body.
\<close>

theorem catalogue_tag_sound:
  assumes "build_bundle fs = Inr b" "build_bundle fs' = Inr b'"
    and "list_all no_nul (bu_Entries b)" "list_all no_nul (bu_Entries b')" "bu_Hash b = bu_Hash b'"
  shows "(bu_Entries b = bu_Entries b' \<and> BundleJSON fs = BundleJSON fs'
      \<or> (\<exists>x y. x \<noteq> y \<and> sha256 x = sha256 y \<and> bu_Hash b = hex_bytes (sha256 x)))
    \<and> (get_or_head rq = False \<or> h_get (rq_header rq) ''If-None-Match'' \<noteq> [quote] @ bu_Hash b @ [quote]
       \<or> response_of is_head (ran_ops (handleCatalog fs rq hp sv))
           = \<lparr>rs_status = 304, rs_header = headers_of (ran_ops (handleCatalog fs rq hp sv)), rs_body = ''''\<rparr>)"
proof
  have h: "bu_Hash b = entries_hash (bu_Entries b)" "bu_Hash b' = entries_hash (bu_Entries b')"
    "bu_SchemaVersion b = SchemaVersion" "bu_SchemaVersion b' = SchemaVersion"
    "bu_Count b = length (bu_Entries b)" "bu_Count b' = length (bu_Entries b')"
    using assms(1,2) by (auto simp: build_bundle_def Let_def split: sum.splits)
  let ?x = "concat (map entry_bytes (bu_Entries b))" and ?y = "concat (map entry_bytes (bu_Entries b'))"
  have sha: "sha256 ?x = sha256 ?y" using assms(5) h by (simp add: entries_hash_def hex_bytes_inj)
  show "bu_Entries b = bu_Entries b' \<and> BundleJSON fs = BundleJSON fs'
      \<or> (\<exists>x y. x \<noteq> y \<and> sha256 x = sha256 y \<and> bu_Hash b = hex_bytes (sha256 x))"
  proof (cases "?x = ?y")
    case True
    then have "bu_Entries b = bu_Entries b'" by (rule entries_bytes_inj [OF assms(3,4)])
    moreover from this h have "b = b'" by (cases b; cases b') simp
    ultimately show ?thesis using assms(1,2) by (simp add: BundleJSON_def)
  next
    case False
    with sha h(1) show ?thesis
      by (intro disjI2 exI [of _ ?x] exI [of _ ?y]) (simp add: entries_hash_def)
  qed
  have w: "well_shaped (ran_ops (handleCatalog fs rq hp sv))"
    by (rule small_contracts(4) [unfolded total_handler_def handler_contract_def ran_ok_def, THEN conjunct1, rule_format,
          THEN conjunct1])
  have "body_of (ran_ops (handleCatalog fs rq hp sv)) = '''' \<and> ops_status (ran_ops (handleCatalog fs rq hp sv)) = 304"
    if "get_or_head rq" "h_get (rq_header rq) ''If-None-Match'' = [quote] @ bu_Hash b @ [quote]"
    using that assms(1)
    by (simp add: handleCatalog_def BundleJSON_def Let_def ops_status_Cons ops_status_WriteHeader body_of_def content_json_def)
  with w show "get_or_head rq = False \<or> h_get (rq_header rq) ''If-None-Match'' \<noteq> [quote] @ bu_Hash b @ [quote]
       \<or> response_of is_head (ran_ops (handleCatalog fs rq hp sv))
           = \<lparr>rs_status = 304, rs_header = headers_of (ran_ops (handleCatalog fs rq hp sv)), rs_body = ''''\<rparr>"
    by (auto simp: response_well_shaped)
qed

definition sample_fs :: catalog_fs where
  "sample_fs p = (if p = ''aws'' then Inr [(''b.toml'', False, Inr ''x''), (''a.toml'', False, Inr ''y''), (''README'', False, Inr '''')]
                  else Inr [])"

theorem catalogue_tag_sound_witness:
  "(\<exists>b. build_bundle sample_fs = Inr b \<and> map en_Kind (bu_Entries b) = [''a'', ''b'']
     \<and> (bu_Entries b = bu_Entries b \<and> BundleJSON sample_fs = BundleJSON sample_fs
        \<or> (\<exists>x y. x \<noteq> y \<and> sha256 x = sha256 y \<and> bu_Hash b = hex_bytes (sha256 x))))"
proof -
  let ?es = "[\<lparr>en_Provider = ''aws'', en_Kind = ''a'', en_TOML = ''y''\<rparr>, \<lparr>en_Provider = ''aws'', en_Kind = ''b'', en_TOML = ''x''\<rparr>]"
  let ?b = "\<lparr>bu_SchemaVersion = SchemaVersion, bu_Hash = entries_hash ?es, bu_Count = 2, bu_Entries = ?es\<rparr>"
  have "read_providers sample_fs [''aws'', ''azure'', ''gcp''] = Inr (rev ?es)" by code_simp
  moreover have "sort_entries (rev ?es) = ?es" by code_simp
  ultimately have b: "build_bundle sample_fs = Inr ?b" by (simp add: build_bundle_def Let_def)
  have n: "list_all no_nul (bu_Entries ?b)" by (simp, code_simp)
  from catalogue_tag_sound [OF b b n n refl] b show ?thesis by (intro exI [of _ ?b]) auto
qed

end
