(* ===== verification/Inflight.thy ===== *)
theory Inflight
  imports Graphql_Safety
begin

text \<open>
  The semaphore that bounds concurrent \<open>/graphql\<close> requests (\<open>inflightMiddleware\<close> of
  \<^verbatim>\<open>internal/server/server.go\<close>) with all requests at once. The channel \<open>s.inflight\<close> of capacity
  \<open>cap\<close> holds one token per request that runs its handler; a request that found it full waits in
  the second \<open>select\<close> for a slot, its timer or the end of its context. Each step is one request taking
  one branch; branches that are ready together are taken in any order.
\<close>

record slots =
  sl_holding :: "nat set"
  sl_waiting :: "nat set"

definition no_slots :: slots where
  "no_slots = \<lparr>sl_holding = {}, sl_waiting = {}\<rparr>"

inductive arrive :: "nat \<Rightarrow> slots \<Rightarrow> slots \<Rightarrow> bool" for cap where
  Free: "r \<notin> H \<union> W \<Longrightarrow> card H < cap \<Longrightarrow>
    arrive cap \<lparr>sl_holding = H, sl_waiting = W\<rparr> \<lparr>sl_holding = insert r H, sl_waiting = W\<rparr>"
| Queue: "r \<notin> H \<union> W \<Longrightarrow> cap \<le> card H \<Longrightarrow>
    arrive cap \<lparr>sl_holding = H, sl_waiting = W\<rparr> \<lparr>sl_holding = H, sl_waiting = insert r W\<rparr>"

inductive depart :: "nat \<Rightarrow> slots \<Rightarrow> slots \<Rightarrow> bool" for cap where
  Acquire: "r \<in> W \<Longrightarrow> card H < cap \<Longrightarrow>
    depart cap \<lparr>sl_holding = H, sl_waiting = W\<rparr> \<lparr>sl_holding = insert r H, sl_waiting = W - {r}\<rparr>"
| Give_up: "r \<in> W \<Longrightarrow>
    depart cap \<lparr>sl_holding = H, sl_waiting = W\<rparr> \<lparr>sl_holding = H, sl_waiting = W - {r}\<rparr>"
| Finish: "r \<in> H \<Longrightarrow>
    depart cap \<lparr>sl_holding = H, sl_waiting = W\<rparr> \<lparr>sl_holding = H - {r}, sl_waiting = W\<rparr>"

inductive_cases arriveE: "arrive cap s t"
inductive_cases departE: "depart cap s t"

definition slot_step :: "nat \<Rightarrow> slots \<Rightarrow> slots \<Rightarrow> bool" where
  "slot_step cap s t \<longleftrightarrow> arrive cap s t \<or> depart cap s t"

definition slots_ok :: "nat \<Rightarrow> slots \<Rightarrow> bool" where
  "slots_ok cap s \<longleftrightarrow>
     finite (sl_holding s) \<and> finite (sl_waiting s) \<and> sl_holding s \<inter> sl_waiting s = {} \<and> card (sl_holding s) \<le> cap"

lemma slots_ok_init: "slots_ok cap no_slots"
  by (simp add: slots_ok_def no_slots_def)

lemma slots_ok_step: "slot_step cap s t \<Longrightarrow> slots_ok cap s \<Longrightarrow> slots_ok cap t"
proof (unfold slot_step_def, erule disjE)
  assume "arrive cap s t" "slots_ok cap s"
  then show ?thesis by (elim arriveE) (auto simp: slots_ok_def)
next
  assume "depart cap s t" "slots_ok cap s"
  then show ?thesis
    by (elim departE) (auto simp: slots_ok_def card_insert_if intro: order_trans [OF card_Diff1_le])
qed

lemma slots_ok_reachable: "(slot_step cap)\<^sup>*\<^sup>* s t \<Longrightarrow> slots_ok cap s \<Longrightarrow> slots_ok cap t"
  by (induction rule: rtranclp_induct) (auto dest: slots_ok_step)

text \<open>Requests that leave: a waiting request has at most two steps to go, a running one has one.\<close>

definition backlog :: "slots \<Rightarrow> nat" where
  "backlog s = 2 * card (sl_waiting s) + card (sl_holding s)"

lemma depart_backlog:
  assumes "depart cap s t" "slots_ok cap s"
  shows "backlog t < backlog s"
  using assms(1)
proof cases
  case (Acquire r W H)
  with assms(2) have "r \<notin> H" "finite H" "0 < card W" by (auto simp: slots_ok_def card_gt_0_iff)
  with Acquire show ?thesis by (simp add: backlog_def)
next
  case (Give_up r W H)
  with assms(2) have "0 < card W" by (auto simp: slots_ok_def card_gt_0_iff)
  with Give_up show ?thesis by (simp add: backlog_def)
next
  case (Finish r H W)
  with assms(2) have "0 < card H" by (auto simp: slots_ok_def card_gt_0_iff)
  with Finish show ?thesis by (simp add: backlog_def)
qed

lemma depart_ok: "depart cap s t \<Longrightarrow> slots_ok cap s \<Longrightarrow> slots_ok cap t"
  by (rule slots_ok_step) (simp_all add: slot_step_def)

lemma departs_bound:
  "(depart cap ^^ n) s t \<Longrightarrow> slots_ok cap s \<Longrightarrow> slots_ok cap t \<and> n + backlog t \<le> backlog s"
proof (induction n arbitrary: t)
  case (Suc n)
  then obtain u where u: "(depart cap ^^ n) s u" "depart cap u t" by auto
  with Suc.IH Suc.prems(2) have "slots_ok cap u" "n + backlog u \<le> backlog s" by auto
  with depart_backlog [OF u(2)] depart_ok [OF u(2)] show ?case by auto
qed auto

lemma depart_enabled:
  assumes "slots_ok cap s" "\<nexists>t. depart cap s t"
  shows "s = no_slots"
proof (cases s)
  case (fields H W)
  have "r \<notin> W" "r \<notin> H" for r
    using assms(2) depart.Give_up [of r W cap H] depart.Finish [of r H cap W] by (auto simp: fields)
  then show ?thesis by (auto simp: no_slots_def fields)
qed

text \<open>
  C28: the semaphore bounds and drains. In every state any interleaving of arriving, waiting and
  finishing requests can reach, at most \<open>cap\<close> requests hold a slot, none of them also waits, and with
  the cap derived from a pool of three or more connections two connections stay free. Once no more
  requests arrive, every run of the others (finishing, taking a freed slot, giving up) has at most
  two steps per waiting and one per running request, and it cannot stop before all slots are free
  again: no slot leaks and no waiting request is forgotten.
\<close>

theorem inflight_bounded_and_drains:
  assumes "(slot_step (nat (inflightLimit 0 poolMax)))\<^sup>*\<^sup>* no_slots s" "3 \<le> poolMax"
    and "(depart (nat (inflightLimit 0 poolMax)) ^^ n) s t"
  shows "int (card (sl_holding s)) + 2 \<le> poolMax \<and> sl_holding s \<inter> sl_waiting s = {}
    \<and> n \<le> 2 * card (sl_waiting s) + card (sl_holding s)
    \<and> ((\<exists>u. depart (nat (inflightLimit 0 poolMax)) t u) \<or> t = no_slots)"
proof -
  let ?cap = "nat (inflightLimit 0 poolMax)"
  have ok: "slots_ok ?cap s" by (rule slots_ok_reachable [OF assms(1) slots_ok_init])
  from departs_bound [OF assms(3) ok] have t: "slots_ok ?cap t" "n \<le> backlog s" by auto
  have "int ?cap + 2 \<le> poolMax" using assms(2) by (simp add: inflightLimit_def Let_def)
  moreover have "card (sl_holding s) \<le> ?cap" using ok by (simp add: slots_ok_def)
  ultimately have "int (card (sl_holding s)) + 2 \<le> poolMax" by linarith
  with ok t depart_enabled [OF t(1)] show ?thesis by (auto simp: slots_ok_def backlog_def)
qed

text \<open>One slot: a request runs, a second waits and then gives up.\<close>

theorem inflight_bounded_and_drains_witness:
  "inflightLimit 0 3 = 1
   \<and> (slot_step (nat (inflightLimit 0 3)))\<^sup>*\<^sup>* no_slots \<lparr>sl_holding = {1}, sl_waiting = {2}\<rparr>
   \<and> (\<exists>u. depart (nat (inflightLimit 0 3)) \<lparr>sl_holding = {1}, sl_waiting = {}\<rparr> u)"
proof -
  have l: "inflightLimit 0 3 = 1" by (simp add: inflightLimit_def)
  have "slot_step 1 no_slots \<lparr>sl_holding = {1}, sl_waiting = {}\<rparr>"
    using arrive.Free [of 1 "{}" "{}" 1] by (simp add: slot_step_def no_slots_def)
  moreover have "slot_step 1 \<lparr>sl_holding = {1}, sl_waiting = {}\<rparr> \<lparr>sl_holding = {1}, sl_waiting = {2}\<rparr>"
    using arrive.Queue [of 2 "{1}" "{}" 1] by (simp add: slot_step_def)
  ultimately have r: "(slot_step (nat (inflightLimit 0 3)))\<^sup>*\<^sup>* no_slots \<lparr>sl_holding = {1}, sl_waiting = {2}\<rparr>"
    unfolding l by (simp add: converse_rtranclp_into_rtranclp)
  have d: "(depart (nat (inflightLimit 0 3)) ^^ 1) \<lparr>sl_holding = {1}, sl_waiting = {2}\<rparr> \<lparr>sl_holding = {1}, sl_waiting = {}\<rparr>"
    using depart.Give_up [of 2 "{2}" 1 "{1}"] unfolding l by (simp add: eq_OO)
  from inflight_bounded_and_drains [OF r _ d] have "\<exists>u. depart (nat (inflightLimit 0 3)) \<lparr>sl_holding = {1}, sl_waiting = {}\<rparr> u"
    by (simp add: no_slots_def)
  with l r show ?thesis by blast
qed

subsection \<open>The middleware as a path of the machine\<close>

text \<open>
  One request through \<open>inflightMiddleware\<close>: it gives back exactly the slot it took, whatever its
  handler does, panics included.
\<close>

lemma slot_given_back:
  assumes "\<And>rq hp sv. sv_inflight (ran_srv (next rq hp sv)) = sv_inflight sv"
  shows "sv_inflight (ran_srv (inflightMiddleware site next rq hp sv))
    = (if st_cap site = 0 \<or> sv_inflight sv < st_cap site \<or> hp_slot hp \<noteq> SlotFreed
       then sv_inflight sv else sv_inflight sv - 1)"
  using assms by (auto simp: inflightMiddleware_def release_slot_def split: slot_wait.split)

end
