(* ===== verification/Scraper_Core.thy ===== *)
theory Scraper_Core
  imports Scrape_Safety Json_Value Sha256 Go_Float
begin

text \<open>
  What the three scrapers of \<^verbatim>\<open>internal/scraper\<close> share: talking to a price list over HTTP, the loop
  \<open>retryWithBackoff\<close> of \<^verbatim>\<open>azure.go\<close>, decoding JSON into structs, and the group of goroutines
  (\<open>errgroup\<close>) that scrapes one service each and hands its products to the handler.

  The other end of a connection is a \<open>wire\<close>: for each request that is made while the scrape lasts,
  in order, the answer as a function of the requested URL, with the error of the context if it ended
  after that answer. A scrape that returns has made finitely many requests; after the last element the
  context is over and requests fail. Theorems hold for all wires.
\<close>

subsection \<open>Requests\<close>

text \<open>A URL no request can be made for, a failed connection, or a status with the body read and the error that ended reading it.\<close>

datatype reply = BadURL string | NoReply string | Reply nat string "string option"

type_synonym wire = "(string \<Rightarrow> reply \<times> string option) list"

definition send :: "string \<Rightarrow> wire \<Rightarrow> reply \<times> string option \<times> wire" where
  "send url w =
     (case w of
        [] \<Rightarrow> (NoReply ''context canceled'', Some ''context canceled'', [])
      | f # w \<Rightarrow> (case f url of (r, ended) \<Rightarrow> (r, ended, w)))"

text \<open>
  One attempt yields a result, or an error and whether to try again, with the error of a context that
  ended meanwhile: it interrupts the sleep before the next attempt.
\<close>

type_synonym 'a attempt = "('a + string \<times> bool) \<times> string option \<times> wire"

fun retryWithBackoff :: "(wire \<Rightarrow> 'a attempt) \<Rightarrow> nat \<Rightarrow> wire \<Rightarrow> (string + 'a \<times> string option) \<times> wire" where
  "retryWithBackoff fn 0 w = (Inl ''max retries exceeded'', w)"
| "retryWithBackoff fn (Suc left) w =
     (case fn w of
        (Inl result, ended, w) \<Rightarrow> (Inr (result, ended), w)
      | (Inr (err, retryable), ended, w) \<Rightarrow>
          if \<not> retryable \<or> left = 0 then (Inl err, w)
          else (case ended of Some e \<Rightarrow> (Inl e, w) | None \<Rightarrow> retryWithBackoff fn left w))"

text \<open>An attempt makes one request; it cannot succeed after the end of the wire.\<close>

definition one_request :: "(wire \<Rightarrow> 'a attempt) \<Rightarrow> bool" where
  "one_request fn \<longleftrightarrow> (\<forall>w. case fn w of (r, ended, w') \<Rightarrow> w' = drop 1 w \<and> (isl r \<longrightarrow> w \<noteq> []))"

lemma retry_success:
  assumes "one_request fn"
  shows "retryWithBackoff fn n w = (Inr r, w') \<Longrightarrow> length w' < length w \<and> length w \<le> length w' + n"
proof (induction n arbitrary: w)
  case (Suc left)
  obtain a ended w1 where fn: "fn w = (a, ended, w1)" by (metis prod.exhaust)
  with assms have w1: "w1 = drop 1 w" "isl a \<longrightarrow> w \<noteq> []"
    by (auto simp: one_request_def dest: spec [of _ w])
  show ?case
  proof (cases a)
    case Inl
    with Suc.prems fn w1 show ?thesis by (cases w) auto
  next
    case (Inr er)
    obtain e b where "er = (e, b)" by fastforce
    with Suc.prems fn Inr have r: "retryWithBackoff fn left w1 = (Inr r, w')"
      by (auto split: if_splits option.splits)
    then have "length w' < length w1 \<and> length w1 \<le> length w' + left" by (rule Suc.IH)
    with w1(1) show ?thesis by (cases w) auto
  qed
qed simp

text \<open>Failures in front of a success are retried away, as long as they are retryable and fewer than \<open>n\<close>.\<close>

lemma retry_after_failures:
  assumes "fn w = (Inr (e, True), None, w1)" "retryWithBackoff fn n w1 = (Inr r, w')"
  shows "retryWithBackoff fn (Suc n) w = (Inr r, w')"
  using assms by (cases n) auto

subsection \<open>Decoding into structs\<close>

text \<open>
  \<open>json.Unmarshal\<close> into a struct: fields are matched by tag up to ASCII case, \<open>null\<close> leaves a scalar
  alone and empties a slice or map, unknown fields are skipped, a value of the wrong type is an error
  that is reported at the end. A key that is given twice is decoded twice, afresh each time.
\<close>

type_synonym 'r decoder = "json \<Rightarrow> 'r \<times> bool \<Rightarrow> 'r \<times> bool"

definition decode_struct :: "(string \<times> 'r decoder) list \<Rightarrow> 'r decoder" where
  "decode_struct tags j st =
     (case j of
        JNull \<Rightarrow> st
      | JObj kvs \<Rightarrow>
          fold (\<lambda>(k, v) st. case find (\<lambda>(tag, f). equal_fold k tag) tags of None \<Rightarrow> st | Some (tag, f) \<Rightarrow> f v st) kvs st
      | _ \<Rightarrow> (fst st, False))"

definition put_string :: "(string \<Rightarrow> 'r \<Rightarrow> 'r) \<Rightarrow> 'r decoder" where
  "put_string upd j st =
     (case j of JStr s \<Rightarrow> (upd s (fst st), snd st) | JNull \<Rightarrow> st | _ \<Rightarrow> (fst st, False))"

definition put_bool :: "(bool \<Rightarrow> 'r \<Rightarrow> 'r) \<Rightarrow> 'r decoder" where
  "put_bool upd j st =
     (case j of JBool b \<Rightarrow> (upd b (fst st), snd st) | JNull \<Rightarrow> st | _ \<Rightarrow> (fst st, False))"

definition put_float :: "(rat \<Rightarrow> 'r \<Rightarrow> 'r) \<Rightarrow> 'r decoder" where
  "put_float upd j st =
     (case j of
        JNum s \<Rightarrow> if float64_ok s then (upd (to_float64 (num_value s)) (fst st), snd st) else (fst st, False)
      | JNull \<Rightarrow> st
      | _ \<Rightarrow> (fst st, False))"

definition put_int :: "(int \<Rightarrow> 'r \<Rightarrow> 'r) \<Rightarrow> 'r decoder" where
  "put_int upd j st =
     (case j of
        JNum s \<Rightarrow> (case parse_int s of Some n \<Rightarrow> (upd n (fst st), snd st) | None \<Rightarrow> (fst st, False))
      | JNull \<Rightarrow> st
      | _ \<Rightarrow> (fst st, False))"

text \<open>A struct in a struct, a slice of structs, and a \<open>map[string]string\<close>.\<close>

definition put_struct :: "('r \<Rightarrow> 's) \<Rightarrow> ('s \<Rightarrow> 'r \<Rightarrow> 'r) \<Rightarrow> 's decoder \<Rightarrow> 'r decoder" where
  "put_struct get upd dec j st = (case dec j (get (fst st), snd st) of (s, ok) \<Rightarrow> (upd s (fst st), ok))"

definition put_list :: "('s list \<Rightarrow> 'r \<Rightarrow> 'r) \<Rightarrow> 's \<Rightarrow> 's decoder \<Rightarrow> 'r decoder" where
  "put_list upd zero dec j st =
     (case j of
        JArr vs \<Rightarrow> (let ds = map (\<lambda>v. dec v (zero, True)) vs in
                    (upd (map fst ds) (fst st), snd st \<and> list_all snd ds))
      | JNull \<Rightarrow> (upd [] (fst st), snd st)
      | _ \<Rightarrow> (fst st, False))"

definition put_map :: "('r \<Rightarrow> (string \<times> 's) list) \<Rightarrow> ((string \<times> 's) list \<Rightarrow> 'r \<Rightarrow> 'r) \<Rightarrow> 's \<Rightarrow> 's decoder \<Rightarrow> 'r decoder" where
  "put_map get upd zero dec j st =
     (case j of
        JObj kvs \<Rightarrow>
          (case fold (\<lambda>(k, v) (m, ok). case dec v (zero, ok) of (x, ok) \<Rightarrow> (AList.update k x m, ok)) kvs (get (fst st), snd st) of
             (m, ok) \<Rightarrow> (upd m (fst st), ok))
      | JNull \<Rightarrow> (upd [] (fst st), snd st)
      | _ \<Rightarrow> (fst st, False))"

definition string_value :: "string decoder" where
  "string_value = put_string (\<lambda>s _. s)"

text \<open>The first value of a stream, as \<open>json.Decoder\<close> reads it, and what follows it.\<close>

definition finished :: "mode \<Rightarrow> frame list \<Rightarrow> json option" where
  "finished m st = (case (m, st) of (MDone v, []) \<Rightarrow> Some v | _ \<Rightarrow> None)"

function json_first :: "mode \<Rightarrow> frame list \<Rightarrow> string \<Rightarrow> (json \<times> string) option" where
  "json_first m st s =
     (case lex_one (dropWhile json_space s) of
        None \<Rightarrow> None
      | Some (k, t) \<Rightarrow>
          (case jstep m st k of
             None \<Rightarrow> None
           | Some (m, st) \<Rightarrow> (case finished m st of Some v \<Rightarrow> Some (v, t) | None \<Rightarrow> json_first m st t)))"
  by pat_completeness auto
termination
proof (relation "measure (\<lambda>(m, st, s). length s)")
  fix m m' :: mode and st st' :: "frame list" and s t :: string and x y k
  assume "lex_one (dropWhile json_space s) = Some x" "(k, t) = x"
  then have "length t < length (dropWhile json_space s)" using lex_one_shorter by metis
  also have "\<dots> \<le> length s" by (rule length_dropWhile_le)
  finally show "((m', st', t), (m, st, s)) \<in> measure (\<lambda>(m, st, s). length s)" by simp
qed simp

declare json_first.simps [simp del]

subsection \<open>Groups of goroutines\<close>

text \<open>
  The goroutines of an \<open>errgroup\<close> are taken in the order in which they look at the outcome of their
  service; the calls of the handler are made one after the other. The first error is the group's and
  cancels its context: a goroutine whose scrape fails afterwards returns the context's error instead of
  counting a failed service. \<open>ended\<close> is the error of the parent context, if it is over by then.
\<close>

record group =
  gr_err :: "string option"
  gr_failed :: int
  gr_state :: run_state

definition group_init :: "run_state \<Rightarrow> group" where
  "group_init s = \<lparr>gr_err = None, gr_failed = 0, gr_state = s\<rparr>"

definition group_fail :: "string \<Rightarrow> group \<Rightarrow> group" where
  "group_fail e g = (if gr_err g = None then g\<lparr>gr_err := Some e\<rparr> else g)"

definition ctx_err :: "string option \<Rightarrow> group \<Rightarrow> string option" where
  "ctx_err ended g =
     (case ended of Some e \<Rightarrow> Some e | None \<Rightarrow> if gr_err g \<noteq> None then Some ''context canceled'' else None)"

definition service_task :: "handler \<Rightarrow> string \<Rightarrow> string option \<Rightarrow> string + product list \<Rightarrow> group \<Rightarrow> group" where
  "service_task h label ended outcome g =
     (case outcome of
        Inl e \<Rightarrow> (case ctx_err ended g of Some c \<Rightarrow> group_fail c g | None \<Rightarrow> g\<lparr>gr_failed := gr_failed g + 1\<rparr>)
      | Inr products \<Rightarrow>
          if products \<noteq> [] then
            (case h products (gr_state g) of
               (Some e, s) \<Rightarrow> group_fail (label @ '': '' @ e) (g\<lparr>gr_state := s\<rparr>)
             | (None, s) \<Rightarrow> g\<lparr>gr_state := s\<rparr>)
          else g)"

text \<open>What a group does to the state is to feed the handler the batches its goroutines hand over.\<close>

definition handed :: "(string + product list) list \<Rightarrow> product list list" where
  "handed outcomes = filter (\<lambda>ps. ps \<noteq> []) (List.map_filter (\<lambda>r. case r of Inr ps \<Rightarrow> Some ps | Inl e \<Rightarrow> None) outcomes)"

definition group_from :: "handler \<Rightarrow> ('t \<Rightarrow> string) \<Rightarrow> ('t \<Rightarrow> string option) \<Rightarrow> ('t \<Rightarrow> string + product list) \<Rightarrow> 't list \<Rightarrow> group \<Rightarrow> group" where
  "group_from h label ended outcome ts g = fold (\<lambda>t. service_task h (label t) (ended t) (outcome t)) ts g"

lemma handed_simps [simp]:
  "handed [] = []"
  "handed (Inl e # rs) = handed rs"
  "handed (Inr ps # rs) = (if ps = [] then handed rs else ps # handed rs)"
  by (simp_all add: handed_def List.map_filter_def)

lemma group_from_feed:
  "gr_state (group_from h label ended outcome ts g) = snd (feed h (handed (map outcome ts)) (gr_state g))
   \<and> (gr_err (group_from h label ended outcome ts g) = None \<longrightarrow>
        gr_err g = None \<and> list_all id (fst (feed h (handed (map outcome ts)) (gr_state g))))
   \<and> (gr_err (group_from h label ended outcome ts g) = None \<longrightarrow>
        gr_failed (group_from h label ended outcome ts g) = gr_failed g + int (length (filter isl (map outcome ts))))"
proof (induction ts arbitrary: g)
  case (Cons t ts)
  let ?g = "service_task h (label t) (ended t) (outcome t) g"
  have e: "gr_err ?g = None \<Longrightarrow> gr_err g = None"
    by (auto simp: service_task_def group_fail_def split: sum.splits option.splits prod.splits if_splits)
  show ?case
  proof (cases "outcome t")
    case (Inl x)
    then have "gr_state ?g = gr_state g" "gr_err ?g = None \<longrightarrow> gr_failed ?g = gr_failed g + 1"
      by (auto simp: service_task_def group_fail_def ctx_err_def split: option.splits if_splits)
    with Inl e Cons.IH [of ?g] show ?thesis by (auto simp: group_from_def)
  next
    case (Inr ps)
    show ?thesis
    proof (cases "ps = []")
      case True
      with Inr have "?g = g" by (simp add: service_task_def)
      with Inr True Cons.IH [of g] show ?thesis by (simp add: group_from_def)
    next
      case False
      obtain r s where h: "h ps (gr_state g) = (r, s)" by fastforce
      with Inr False have "gr_state ?g = s" "gr_failed ?g = gr_failed g" "gr_err ?g = None \<longrightarrow> r = None"
        by (auto simp: service_task_def group_fail_def split: option.splits)
      with Inr False h e Cons.IH [of ?g] show ?thesis
        by (auto simp: group_from_def split: prod.splits)
    qed
  qed
qed (simp add: group_from_def)

end
