(* ===== verification/Gcp.thy ===== *)
theory Gcp
  imports Scraper_Core Url_Redact Config
begin

text \<open>
  The GCP scraper, \<^verbatim>\<open>internal/scraper/gcp.go\<close>: service discovery, the SKU pages of a service,
  \<open>transformSKU\<close>, and the machine types synthesised from the prices of CPU and RAM. Maps the code
  ranges over are association lists; where the code builds the map itself, the order of iteration is
  the argument \<open>it\<close>, one permutation for each loop.
\<close>

subsection \<open>The price list\<close>

record gcpUnitPrice =
  up_CurrencyCode :: string
  up_Units :: string
  up_Nanos :: int

record gcpTieredRate =
  tr_StartUsageAmount :: rat
  tr_UnitPrice :: gcpUnitPrice

record gcpPricingExpression =
  pe_UsageUnit :: string
  pe_TieredRates :: "gcpTieredRate list"

record gcpCategory =
  ca_ServiceDisplayName :: string
  ca_ResourceFamily :: string
  ca_ResourceGroup :: string
  ca_UsageType :: string

record gcpSKU =
  sk_SKUID :: string
  sk_Name :: string
  sk_Description :: string
  sk_Category :: gcpCategory
  sk_ServiceRegions :: "string list"
  sk_PricingInfo :: "gcpPricingExpression list"

record gcpSKUListResponse =
  sl_SKUs :: "gcpSKU list"
  sl_NextPageToken :: string

definition zero_unit_price :: gcpUnitPrice where
  "zero_unit_price = \<lparr>up_CurrencyCode = '''', up_Units = '''', up_Nanos = 0\<rparr>"

definition zero_tier :: gcpTieredRate where
  "zero_tier = \<lparr>tr_StartUsageAmount = 0, tr_UnitPrice = zero_unit_price\<rparr>"

definition zero_expression :: gcpPricingExpression where
  "zero_expression = \<lparr>pe_UsageUnit = '''', pe_TieredRates = []\<rparr>"

definition zero_category :: gcpCategory where
  "zero_category = \<lparr>ca_ServiceDisplayName = '''', ca_ResourceFamily = '''', ca_ResourceGroup = '''', ca_UsageType = ''''\<rparr>"

definition zero_sku :: gcpSKU where
  "zero_sku =
     \<lparr>sk_SKUID = '''', sk_Name = '''', sk_Description = '''', sk_Category = zero_category, sk_ServiceRegions = [],
      sk_PricingInfo = []\<rparr>"

text \<open>The struct tags.\<close>

definition unit_price_tags :: "(string \<times> gcpUnitPrice decoder) list" where
  "unit_price_tags =
     [(''currencyCode'', put_string (\<lambda>x r. r\<lparr>up_CurrencyCode := x\<rparr>)),
      (''units'', put_string (\<lambda>x r. r\<lparr>up_Units := x\<rparr>)),
      (''nanos'', put_int (\<lambda>x r. r\<lparr>up_Nanos := x\<rparr>))]"

definition tier_tags :: "(string \<times> gcpTieredRate decoder) list" where
  "tier_tags =
     [(''startUsageAmount'', put_float (\<lambda>x r. r\<lparr>tr_StartUsageAmount := x\<rparr>)),
      (''unitPrice'', put_struct tr_UnitPrice (\<lambda>x r. r\<lparr>tr_UnitPrice := x\<rparr>) (decode_struct unit_price_tags))]"

definition expression_tags :: "(string \<times> gcpPricingExpression decoder) list" where
  "expression_tags =
     [(''usageUnit'', put_string (\<lambda>x r. r\<lparr>pe_UsageUnit := x\<rparr>)),
      (''tieredRates'', put_list (\<lambda>x r. r\<lparr>pe_TieredRates := x\<rparr>) zero_tier (decode_struct tier_tags))]"

text \<open>A \<open>gcpPrice\<close> has one field, its pricing expression.\<close>

definition price_tags :: "(string \<times> gcpPricingExpression decoder) list" where
  "price_tags = [(''pricingExpression'', decode_struct expression_tags)]"

definition category_tags :: "(string \<times> gcpCategory decoder) list" where
  "category_tags =
     [(''serviceDisplayName'', put_string (\<lambda>x r. r\<lparr>ca_ServiceDisplayName := x\<rparr>)),
      (''resourceFamily'', put_string (\<lambda>x r. r\<lparr>ca_ResourceFamily := x\<rparr>)),
      (''resourceGroup'', put_string (\<lambda>x r. r\<lparr>ca_ResourceGroup := x\<rparr>)),
      (''usageType'', put_string (\<lambda>x r. r\<lparr>ca_UsageType := x\<rparr>))]"

definition sku_tags :: "(string \<times> gcpSKU decoder) list" where
  "sku_tags =
     [(''skuId'', put_string (\<lambda>x r. r\<lparr>sk_SKUID := x\<rparr>)),
      (''name'', put_string (\<lambda>x r. r\<lparr>sk_Name := x\<rparr>)),
      (''description'', put_string (\<lambda>x r. r\<lparr>sk_Description := x\<rparr>)),
      (''category'', put_struct sk_Category (\<lambda>x r. r\<lparr>sk_Category := x\<rparr>) (decode_struct category_tags)),
      (''serviceRegions'', put_list (\<lambda>x r. r\<lparr>sk_ServiceRegions := x\<rparr>) '''' string_value),
      (''pricingInfo'', put_list (\<lambda>x r. r\<lparr>sk_PricingInfo := x\<rparr>) zero_expression (decode_struct price_tags))]"

definition sku_list_tags :: "(string \<times> gcpSKUListResponse decoder) list" where
  "sku_list_tags =
     [(''skus'', put_list (\<lambda>x r. r\<lparr>sl_SKUs := x\<rparr>) zero_sku (decode_struct sku_tags)),
      (''nextPageToken'', put_string (\<lambda>x r. r\<lparr>sl_NextPageToken := x\<rparr>))]"

definition decode_sku_list :: "json \<Rightarrow> gcpSKUListResponse \<times> bool" where
  "decode_sku_list j = decode_struct sku_list_tags j (\<lparr>sl_SKUs = [], sl_NextPageToken = ''''\<rparr>, True)"

subsection \<open>Services\<close>

definition gcpBaseURL :: string where "gcpBaseURL = ''https://cloudbilling.googleapis.com/v1''"

definition gcpServices :: "(string \<times> string) list" where
  "gcpServices =
     [(''Compute Engine'', ''6F81-5844-456A''), (''Cloud SQL'', ''9662-B51E-5089''),
      (''Cloud Storage'', ''95FF-2EF5-5EA1''), (''Cloud Run Functions'', ''29E7-DA93-CA13''),
      (''Cloud Run'', ''152E-C115-5142''), (''Cloud DNS'', ''FA26-5236-B8B5''),
      (''Networking'', ''E505-1604-58F8''), (''Cloud Pub/Sub'', ''A1E8-BE35-7EBC''),
      (''Kubernetes Engine'', ''CCD8-9BF1-090E'')]"

definition gcpDiscoverableServices :: "string list" where
  "gcpDiscoverableServices =
     [''Cloud Memorystore for Redis'', ''BigQuery'', ''Cloud Filestore'', ''Cloud Bigtable'', ''Secret Manager'',
      ''Cloud Key Management Service (KMS)'', ''Artifact Registry'', ''Cloud Logging'', ''Cloud Spanner'',
      ''Cloud Dataflow'', ''Dataproc'']"

text \<open>A page of the services list: display names with identifiers, and the token of the next page.\<close>

record gcp_service_page =
  sp_Services :: "(string \<times> string) list"
  sp_NextPageToken :: string

definition service_page_tags :: "(string \<times> gcp_service_page decoder) list" where
  "service_page_tags =
     [(''services'', put_list (\<lambda>x r. r\<lparr>sp_Services := x\<rparr>) ('''', '''')
         (decode_struct [(''serviceId'', put_string (\<lambda>x p. (fst p, x))), (''displayName'', put_string (\<lambda>x p. (x, snd p)))])),
      (''nextPageToken'', put_string (\<lambda>x r. r\<lparr>sp_NextPageToken := x\<rparr>))]"

definition decode_service_page :: "string \<Rightarrow> gcp_service_page option" where
  "decode_service_page body =
     (case json_parse body of
        None \<Rightarrow> None
      | Some j \<Rightarrow> (case decode_struct service_page_tags j (\<lparr>sp_Services = [], sp_NextPageToken = ''''\<rparr>, True) of
                     (page, ok) \<Rightarrow> if ok then Some page else None))"

definition services_url :: "string \<Rightarrow> string" where
  "services_url pageToken =
     gcpBaseURL @ ''/services?pageSize=500'' @ (if pageToken \<noteq> '''' then ''&pageToken='' @ pageToken else '''')"

text \<open>The services of a page that are wanted; names match up to case.\<close>

definition add_services :: "(string \<times> string) list \<Rightarrow> (string \<times> string) list \<Rightarrow> (string \<times> string) list" where
  "add_services svcs m =
     fold (\<lambda>(name, i) m. if to_lower name \<in> set (map to_lower gcpDiscoverableServices) then AList.update name i m else m)
       svcs m"

fun resolve_pages :: "string \<Rightarrow> (string \<times> string) list \<Rightarrow> wire \<Rightarrow> string + (string \<times> string) list" where
  "resolve_pages token m [] = Inl ''context canceled''"
| "resolve_pages token m (f # w) =
     (case fst (f (services_url token)) of
        BadURL e \<Rightarrow> Inl e
      | NoReply e \<Rightarrow> Inl e
      | Reply status body err \<Rightarrow>
          if status \<noteq> 200 then Inl (''GCP services list HTTP '' @ show_nat status @ '': '' @ body)
          else
            (case decode_service_page body of
               None \<Rightarrow> Inl ''decode GCP services list''
             | Some page \<Rightarrow>
                 (let m = add_services (sp_Services page) m in
                  if sp_NextPageToken page = '''' then Inr m else resolve_pages (sp_NextPageToken page) m w)))"

definition resolveDiscoverableServices :: "wire \<Rightarrow> string + (string \<times> string) list" where
  "resolveDiscoverableServices w = resolve_pages '''' [] w"

text \<open>The services to scrape: the resolved ones, overridden by the static ones.\<close>

definition gcp_targets :: "(string \<times> string) list \<Rightarrow> (string \<times> string) list" where
  "gcp_targets resolved = fold (\<lambda>(name, i) m. AList.update name i m) gcpServices
     (fold (\<lambda>(name, i) m. AList.update name i m) resolved [])"

subsection \<open>Products of a service\<close>

definition normalizeGCPServiceName :: "string \<Rightarrow> string" where
  "normalizeGCPServiceName name = (if name = ''Networking'' then ''Compute Engine'' else name)"

definition tier_usd :: "gcpTieredRate \<Rightarrow> rat" where
  "tier_usd tier =
     (let units = up_Units (tr_UnitPrice tier);
          unitVal = (if units \<noteq> '''' \<and> units \<noteq> ''0''
                     then (case parse_int units of Some v \<Rightarrow> v | None \<Rightarrow> 0) else 0)
      in f_add (to_float64 (of_int unitVal)) (f_div (to_float64 (of_int (up_Nanos (tr_UnitPrice tier)))) 1000000000))"

definition tier_price :: "string \<Rightarrow> string \<Rightarrow> string \<Rightarrow> string \<Rightarrow> gcpTieredRate list \<Rightarrow> nat \<Rightarrow> price" where
  "tier_price prodHash purchaseOption unit description tiers i =
     (let tier = tiers ! i;
          startUsage = FormatFloat (tr_StartUsageAmount tier);
          endUsage = (if i + 1 < length tiers then FormatFloat (tr_StartUsageAmount (tiers ! (i + 1))) else '''')
      in \<lparr>pr_hash = PriceHash prodHash purchaseOption unit startUsage description '''' '''' '''',
          pr_purchaseOption = purchaseOption, pr_unit = unit, pr_USD = format_10f (tier_usd tier),
          pr_startUsage = startUsage, pr_endUsage = endUsage, pr_description = description,
          pr_termLength = '''', pr_termPurchaseOption = '''', pr_termOfferingClass = ''''\<rparr>)"

definition region_product :: "gcpSKU \<Rightarrow> gcpPricingExpression \<Rightarrow> string \<Rightarrow> product" where
  "region_product sku pricing region =
     (let serviceName = normalizeGCPServiceName (ca_ServiceDisplayName (sk_Category sku));
          prodHash = ProductHash ''gcp'' region serviceName (sk_SKUID sku);
          tiers = pe_TieredRates pricing
      in \<lparr>p_hash = prodHash, p_sku = sk_SKUID sku, p_vendor = ''gcp'', p_region = region, p_service = serviceName,
          p_family = ca_ResourceFamily (sk_Category sku),
          p_attrs = [(''description'', sk_Description sku), (''resourceGroup'', ca_ResourceGroup (sk_Category sku))],
          p_prices = map (tier_price prodHash (ca_UsageType (sk_Category sku)) (pe_UsageUnit pricing)
                            (sk_Description sku) tiers) [0..<length tiers]\<rparr>)"

definition transformSKU :: "gcpSKU \<Rightarrow> product list" where
  "transformSKU sku =
     (case sk_PricingInfo sku of
        [] \<Rightarrow> []
      | pricing # _ \<Rightarrow>
          filter (\<lambda>p. p_prices p \<noteq> []) (map (region_product sku pricing) (sk_ServiceRegions sku)))"

text \<open>
  \<open>fetchGCPPage\<close> is the loop \<open>retryWithBackoff\<close> with three attempts, written out; only throttling,
  server errors and failed connections are tried again. The decoder reads the first value of the body.
\<close>

definition gcp_page_url :: "string \<Rightarrow> string \<Rightarrow> string" where
  "gcp_page_url serviceID pageToken =
     gcpBaseURL @ ''/services/'' @ serviceID @ ''/skus?pageSize=5000''
     @ (if pageToken \<noteq> '''' then ''&pageToken='' @ QueryEscape pageToken else '''')"

definition gcp_attempt :: "string \<Rightarrow> string \<Rightarrow> wire \<Rightarrow> gcpSKUListResponse attempt" where
  "gcp_attempt serviceID pageToken w =
     (case send (gcp_page_url serviceID pageToken) w of
        (BadURL e, ended, w) \<Rightarrow> (Inr (''create request: '' @ e, False), ended, w)
      | (NoReply e, ended, w) \<Rightarrow> (Inr (''fetch after 3 retries: '' @ e, True), ended, w)
      | (Reply status body err, ended, w) \<Rightarrow>
          if status \<noteq> 200
          then (Inr (''HTTP '' @ show_nat status @ '': '' @ take 4096 body, status = 429 \<or> status \<ge> 500), ended, w)
          else
            (case json_first MVal [] (take (100 * 1024 * 1024) body) of
               Some (j, rest) \<Rightarrow>
                 (case decode_sku_list j of
                    (resp, ok) \<Rightarrow> if ok then (Inl resp, ended, w) else (Inr (''decode response'', False), ended, w))
             | None \<Rightarrow> (Inr (''decode response'', False), ended, w)))"

definition fetchGCPPage :: "string \<Rightarrow> string \<Rightarrow> wire \<Rightarrow> (string + gcpSKUListResponse \<times> string option) \<times> wire" where
  "fetchGCPPage serviceID pageToken w = retryWithBackoff (gcp_attempt serviceID pageToken) 3 w"

lemma gcp_attempt_one: "one_request (gcp_attempt serviceID pageToken)"
  unfolding one_request_def
proof
  fix w
  show "case gcp_attempt serviceID pageToken w of (r, ended, w') \<Rightarrow> w' = drop 1 w \<and> (isl r \<longrightarrow> w \<noteq> [])"
    by (cases w) (auto simp: gcp_attempt_def send_def split: reply.splits prod.splits option.splits)
qed

function gcp_pages :: "string \<Rightarrow> string \<Rightarrow> wire \<Rightarrow> product list \<Rightarrow> string + product list" where
  "gcp_pages serviceID pageToken w allProducts =
     (case fetchGCPPage serviceID pageToken w of
        (Inl e, w') \<Rightarrow> Inl e
      | (Inr (resp, ended), w') \<Rightarrow>
          (let allProducts = allProducts @ concat (map transformSKU (sl_SKUs resp)) in
           if sl_NextPageToken resp = '''' then Inr allProducts
           else gcp_pages serviceID (sl_NextPageToken resp) w' allProducts))"
  by pat_completeness auto
termination
proof (relation "measure (\<lambda>(i, t, w, a). length w)")
  fix i t t' w w' r and a a' :: "product list" and y
  assume "(y, w') = fetchGCPPage i t w" "y = Inr r"
  then have "retryWithBackoff (gcp_attempt i t) 3 w = (Inr r, w')" by (simp add: fetchGCPPage_def)
  from retry_success [OF gcp_attempt_one this]
  show "((i, t', w', a'), (i, t, w, a)) \<in> measure (\<lambda>(i, t, w, a). length w)" by simp
qed simp

declare gcp_pages.simps [simp del]

definition gcp_scrapeService :: "string \<Rightarrow> string \<Rightarrow> wire \<Rightarrow> string + product list" where
  "gcp_scrapeService serviceName serviceID w =
     map_sum (\<lambda>e. ''fetch '' @ serviceName @ '': '' @ e) id (gcp_pages serviceID '''' w [])"

subsection \<open>Machine types\<close>

text \<open>Family, machine type, CPUs and GB of RAM.\<close>

definition gcpMachineTypes :: "(string \<times> (string \<times> rat \<times> rat) list) list" where
  "gcpMachineTypes =
  [
   (''n1'', [
      (''n1-standard-1'', 1, 15 / 4), (''n1-standard-2'', 2, 15 / 2), (''n1-standard-4'', 4, 15),
      (''n1-standard-8'', 8, 30), (''n1-standard-16'', 16, 60), (''n1-standard-32'', 32, 120),
      (''n1-standard-64'', 64, 240), (''n1-standard-96'', 96, 360), (''n1-highmem-2'', 2, 13),
      (''n1-highmem-4'', 4, 26), (''n1-highmem-8'', 8, 52), (''n1-highmem-16'', 16, 104),
      (''n1-highmem-32'', 32, 208), (''n1-highmem-64'', 64, 416), (''n1-highmem-96'', 96, 624),
      (''n1-highcpu-2'', 2, 9 / 5), (''n1-highcpu-4'', 4, 18 / 5), (''n1-highcpu-8'', 8, 36 / 5),
      (''n1-highcpu-16'', 16, 72 / 5), (''n1-highcpu-32'', 32, 144 / 5), (''n1-highcpu-64'', 64, 288 / 5),
      (''n1-highcpu-96'', 96, 432 / 5)]),
   (''n2'', [
      (''n2-standard-2'', 2, 8), (''n2-standard-4'', 4, 16), (''n2-standard-8'', 8, 32),
      (''n2-standard-16'', 16, 64), (''n2-standard-32'', 32, 128), (''n2-standard-48'', 48, 192),
      (''n2-standard-64'', 64, 256), (''n2-standard-80'', 80, 320), (''n2-standard-96'', 96, 384),
      (''n2-standard-128'', 128, 512), (''n2-highmem-2'', 2, 16), (''n2-highmem-4'', 4, 32),
      (''n2-highmem-8'', 8, 64), (''n2-highmem-16'', 16, 128), (''n2-highmem-32'', 32, 256),
      (''n2-highmem-48'', 48, 384), (''n2-highmem-64'', 64, 512), (''n2-highmem-80'', 80, 640),
      (''n2-highmem-96'', 96, 768), (''n2-highmem-128'', 128, 864), (''n2-highcpu-2'', 2, 2),
      (''n2-highcpu-4'', 4, 4), (''n2-highcpu-8'', 8, 8), (''n2-highcpu-16'', 16, 16),
      (''n2-highcpu-32'', 32, 32), (''n2-highcpu-48'', 48, 48), (''n2-highcpu-64'', 64, 64),
      (''n2-highcpu-80'', 80, 80), (''n2-highcpu-96'', 96, 96)]),
   (''e2'', [
      (''e2-micro'', 1 / 4, 1), (''e2-small'', 1 / 2, 2), (''e2-medium'', 1, 4),
      (''e2-standard-2'', 2, 8), (''e2-standard-4'', 4, 16), (''e2-standard-8'', 8, 32),
      (''e2-standard-16'', 16, 64), (''e2-standard-32'', 32, 128), (''e2-highmem-2'', 2, 16),
      (''e2-highmem-4'', 4, 32), (''e2-highmem-8'', 8, 64), (''e2-highmem-16'', 16, 128),
      (''e2-highcpu-2'', 2, 2), (''e2-highcpu-4'', 4, 4), (''e2-highcpu-8'', 8, 8),
      (''e2-highcpu-16'', 16, 16), (''e2-highcpu-32'', 32, 32)]),
   (''n2d'', [
      (''n2d-standard-2'', 2, 8), (''n2d-standard-4'', 4, 16), (''n2d-standard-8'', 8, 32),
      (''n2d-standard-16'', 16, 64), (''n2d-standard-32'', 32, 128), (''n2d-standard-48'', 48, 192),
      (''n2d-standard-64'', 64, 256), (''n2d-standard-80'', 80, 320), (''n2d-standard-96'', 96, 384),
      (''n2d-standard-128'', 128, 512), (''n2d-standard-224'', 224, 896), (''n2d-highmem-2'', 2, 16),
      (''n2d-highmem-4'', 4, 32), (''n2d-highmem-8'', 8, 64), (''n2d-highmem-16'', 16, 128),
      (''n2d-highmem-32'', 32, 256), (''n2d-highmem-48'', 48, 384), (''n2d-highmem-64'', 64, 512),
      (''n2d-highmem-80'', 80, 640), (''n2d-highmem-96'', 96, 768), (''n2d-highcpu-2'', 2, 2),
      (''n2d-highcpu-4'', 4, 4), (''n2d-highcpu-8'', 8, 8), (''n2d-highcpu-16'', 16, 16),
      (''n2d-highcpu-32'', 32, 32), (''n2d-highcpu-48'', 48, 48), (''n2d-highcpu-64'', 64, 64),
      (''n2d-highcpu-80'', 80, 80), (''n2d-highcpu-96'', 96, 96), (''n2d-highcpu-128'', 128, 128),
      (''n2d-highcpu-224'', 224, 224)]),
   (''c2'', [
      (''c2-standard-4'', 4, 16), (''c2-standard-8'', 8, 32), (''c2-standard-16'', 16, 64),
      (''c2-standard-30'', 30, 120), (''c2-standard-60'', 60, 240)]),
   (''c2d'', [
      (''c2d-standard-2'', 2, 8), (''c2d-standard-4'', 4, 16), (''c2d-standard-8'', 8, 32),
      (''c2d-standard-16'', 16, 64), (''c2d-standard-32'', 32, 128), (''c2d-standard-56'', 56, 224),
      (''c2d-standard-112'', 112, 448), (''c2d-highmem-2'', 2, 16), (''c2d-highmem-4'', 4, 32),
      (''c2d-highmem-8'', 8, 64), (''c2d-highmem-16'', 16, 128), (''c2d-highmem-32'', 32, 256),
      (''c2d-highmem-56'', 56, 448), (''c2d-highmem-112'', 112, 896), (''c2d-highcpu-2'', 2, 2),
      (''c2d-highcpu-4'', 4, 4), (''c2d-highcpu-8'', 8, 8), (''c2d-highcpu-16'', 16, 16),
      (''c2d-highcpu-32'', 32, 32), (''c2d-highcpu-56'', 56, 56), (''c2d-highcpu-112'', 112, 112)]),
   (''t2d'', [
      (''t2d-standard-1'', 1, 4), (''t2d-standard-2'', 2, 8), (''t2d-standard-4'', 4, 16),
      (''t2d-standard-8'', 8, 32), (''t2d-standard-16'', 16, 64), (''t2d-standard-32'', 32, 128),
      (''t2d-standard-48'', 48, 192), (''t2d-standard-60'', 60, 240)]),
   (''t2a'', [
      (''t2a-standard-1'', 1, 4), (''t2a-standard-2'', 2, 8), (''t2a-standard-4'', 4, 16),
      (''t2a-standard-8'', 8, 32), (''t2a-standard-16'', 16, 64), (''t2a-standard-32'', 32, 128),
      (''t2a-standard-48'', 48, 192)])]"

definition gcpFamilyCPUPatterns :: "(string \<times> string) list" where
  "gcpFamilyCPUPatterns =
     [(''n1'', ''N1 Predefined Instance Core''), (''n2'', ''N2 Instance Core''), (''n2d'', ''N2D AMD Instance Core''),
      (''e2'', ''E2 Instance Core''), (''c2'', ''Compute optimized Core''), (''c2d'', ''C2D AMD Instance Core''),
      (''t2d'', ''T2D AMD Instance Core''), (''t2a'', ''T2A Arm Instance Core'')]"

definition gcpFamilyRAMPatterns :: "(string \<times> string) list" where
  "gcpFamilyRAMPatterns =
     [(''n1'', ''N1 Predefined Instance Ram''), (''n2'', ''N2 Instance Ram''), (''n2d'', ''N2D AMD Instance Ram''),
      (''e2'', ''E2 Instance Ram''), (''c2'', ''Compute optimized Ram''), (''c2d'', ''C2D AMD Instance Ram''),
      (''t2d'', ''T2D AMD Instance Ram''), (''t2a'', ''T2A Arm Instance Ram'')]"

text \<open>A key of the price maps: region and purchase option.\<close>

type_synonym price_key = "string \<times> string"
type_synonym price_map = "(price_key \<times> rat) list"

definition note_price :: "string \<Rightarrow> price \<Rightarrow> price_map \<Rightarrow> price_map" where
  "note_price region price m =
     (if pr_USD price \<noteq> ''0.0000000000'' then
        (case ParseFloat (pr_USD price) of
           None \<Rightarrow> m
         | Some v \<Rightarrow>
             (let k = (region, pr_purchaseOption price) in
              case map_of m k of
                None \<Rightarrow> AList.update k v m
              | Some existing \<Rightarrow> if v < existing then AList.update k v m else m))
      else m)"

definition index_product :: "string \<Rightarrow> product \<Rightarrow> price_map \<Rightarrow> price_map" where
  "index_product pattern p m =
     (if p_service p \<noteq> ''Compute Engine'' then m
      else (let desc = attr_get (p_attrs p) ''description'' in
            if contains desc ''SUD'' \<or> contains desc ''Commitment'' then m
            else if contains desc pattern then fold (note_price (p_region p)) (p_prices p) m else m))"

text \<open>The maps of the families do not interact: each is the fold of its own pattern.\<close>

definition indexPrices :: "(string \<times> string) list \<Rightarrow> product list \<Rightarrow> string \<Rightarrow> price_map" where
  "indexPrices patterns products family =
     (case map_of patterns family of None \<Rightarrow> [] | Some pattern \<Rightarrow> fold (index_product pattern) products [])"

definition indexCPURAMPrices :: "product list \<Rightarrow> (string \<Rightarrow> price_map) \<times> (string \<Rightarrow> price_map)" where
  "indexCPURAMPrices products =
     (indexPrices gcpFamilyCPUPatterns products, indexPrices gcpFamilyRAMPatterns products)"

text \<open>\<open>it loop m\<close>: the order in which the loop named \<open>loop\<close> ranges over \<open>m\<close>.\<close>

type_synonym shuffle = "string \<Rightarrow> price_map \<Rightarrow> price_map"

definition machine_price :: "string \<Rightarrow> string \<Rightarrow> string \<Rightarrow> rat \<Rightarrow> rat \<Rightarrow> string \<Rightarrow> rat \<Rightarrow> rat \<Rightarrow> price" where
  "machine_price prodHash machineType region cpus ramGB purchaseOption cpuPrice ramPrice =
     \<lparr>pr_hash = PriceHash prodHash purchaseOption ''h'' ''0'' machineType '''' '''' '''',
      pr_purchaseOption = purchaseOption, pr_unit = ''h'',
      pr_USD = format_10f (f_add (f_mul cpuPrice (to_float64 cpus)) (f_mul ramPrice (to_float64 ramGB))),
      pr_startUsage = '''', pr_endUsage = '''', pr_description = machineType @ '' in '' @ region,
      pr_termLength = '''', pr_termPurchaseOption = '''', pr_termOfferingClass = ''''\<rparr>"

definition machine_product :: "shuffle \<Rightarrow> price_map \<Rightarrow> price_map \<Rightarrow> string \<times> rat \<times> rat \<Rightarrow> string \<Rightarrow> product" where
  "machine_product it cpuMap ramMap spec region =
     (case spec of (machineType, cpus, ramGB) \<Rightarrow>
        let prodHash = ProductHash ''gcp'' region ''Compute Engine'' (''mt-'' @ machineType) in
        \<lparr>p_hash = prodHash, p_sku = ''mt-'' @ machineType, p_vendor = ''gcp'', p_region = region,
         p_service = ''Compute Engine'', p_family = ''Compute Instance'',
         p_attrs = [(''machineType'', machineType), (''description'', machineType @ '' predefined instance'')],
         p_prices =
           List.map_filter
             (\<lambda>(pKey, cpuPrice).
                if fst pKey \<noteq> region then None
                else map_option (machine_price prodHash machineType region cpus ramGB (snd pKey) cpuPrice)
                       (map_of ramMap pKey))
             (it (machineType @ '' '' @ region) cpuMap)\<rparr>)"

text \<open>The regions are those of the keys both maps have, each once.\<close>

definition machine_regions :: "shuffle \<Rightarrow> price_map \<Rightarrow> price_map \<Rightarrow> string \<Rightarrow> string list" where
  "machine_regions it cpuMap ramMap machineType =
     map fst (dedup_from fst []
       (filter (\<lambda>key. map_of ramMap key \<noteq> None) (map fst (it machineType cpuMap))))"

definition synthesizeMachineTypes ::
  "shuffle \<Rightarrow> (string \<times> (string \<times> rat \<times> rat) list) list \<Rightarrow> product list \<Rightarrow> product list" where
  "synthesizeMachineTypes it types products =
     (case indexCPURAMPrices products of (cpuPrices, ramPrices) \<Rightarrow>
        filter (\<lambda>p. p_prices p \<noteq> [])
          (concat (map
             (\<lambda>(family, machineTypes).
                concat (map
                  (\<lambda>spec. map (machine_product it (cpuPrices family) (ramPrices family) spec)
                             (machine_regions it (cpuPrices family) (ramPrices family) (fst spec)))
                  machineTypes))
             types)))"

subsection \<open>The scraper\<close>

text \<open>
  What a scrape meets: the wire of the discovery and of each service, when the parent context ends,
  the order in which the goroutines of the services get to their outcome, and the orders of iteration.
\<close>

record gcp_world =
  gw_discovery :: wire
  gw_wire :: "string \<Rightarrow> wire"
  gw_ended :: "string \<Rightarrow> string option"
  gw_order :: "(string \<times> string) list \<Rightarrow> (string \<times> string) list"
  gw_types :: "(string \<times> (string \<times> rat \<times> rat) list) list"
  gw_it :: shuffle

definition gcp_outcome :: "gcp_world \<Rightarrow> string \<times> string \<Rightarrow> string + product list" where
  "gcp_outcome gw t = gcp_scrapeService (fst t) (snd t) (gw_wire gw (fst t))"

definition gcp_tasks :: "gcp_world \<Rightarrow> (string \<times> string) list" where
  "gcp_tasks gw =
     gw_order gw (gcp_targets (case resolveDiscoverableServices (gw_discovery gw) of Inl e \<Rightarrow> [] | Inr m \<Rightarrow> m))"

definition compute_products :: "gcp_world \<Rightarrow> product list" where
  "compute_products gw =
     concat (map (\<lambda>t. if fst t = ''Compute Engine'' then (case gcp_outcome gw t of Inl e \<Rightarrow> [] | Inr ps \<Rightarrow> ps) else [])
                 (gcp_tasks gw))"

definition GCPScraper :: "config \<Rightarrow> gcp_world \<Rightarrow> scraper" where
  "GCPScraper cfg gw =
     \<lparr>sc_name = ''GCP'',
      sc_scrape = (\<lambda>h s.
        if cfg_GCPAPIKey cfg = '''' then (Some ''GCP_API_KEY is required for GCP scraping'', 0, s)
        else
          (let g = group_from h (\<lambda>t. ''upsert gcp '' @ fst t) (\<lambda>t. gw_ended gw (fst t)) (gcp_outcome gw)
                     (gcp_tasks gw) (group_init s)
           in case gr_err g of
                Some e \<Rightarrow> (Some e, gr_failed g, gr_state g)
              | None \<Rightarrow>
                  (let machineTypeProducts = synthesizeMachineTypes (gw_it gw) (gw_types gw) (compute_products gw) in
                   if machineTypeProducts \<noteq> [] then
                     (case h machineTypeProducts (gr_state g) of
                        (Some e, s) \<Rightarrow> (Some (''upsert gcp machine types: '' @ e), gr_failed g, s)
                      | (None, s) \<Rightarrow> (None, gr_failed g, s))
                   else (None, gr_failed g, gr_state g))))\<rparr>"

end
