(* ===== verification/Scraper_Contract.thy ===== *)
theory Scraper_Contract
  imports Run_Properties Scraper_Core
begin

text \<open>
  The interface between \<open>runOneScrape\<close> and the scrapers (\<^verbatim>\<open>internal/scraper/scraper.go\<close>), as the locale
  \<open>scraper_contract\<close>. \<open>offered\<close> is everything the price list offers to the scrape, \<open>complete\<close> says that
  every service of the vendor could be read. A scraper hands over batches of the offer only; when it
  reports neither an error nor a failed service, then everything was read, and the whole offer was handed
  over and accepted. The two lemmas are what a run makes of this: nothing is deleted when a service could
  not be read, and a run that reports a complete scrape has stored the whole price list.
\<close>

locale scraper_contract =
  fixes sc :: scraper
    and offered :: "product list"
    and complete :: bool
  assumes contract: "\<exists>bs. delivers sc h s bs \<and> set (concat bs) \<subseteq> set offered
      \<and> (case sc_scrape sc h s of (err, failed, s') \<Rightarrow>
           0 \<le> failed \<and> (err = None \<and> failed = 0 \<longrightarrow> complete \<and> set (concat bs) = set offered))"
begin

lemma incomplete_deletes_nothing:
  assumes "\<not> complete"
    and "kept vo (to_lower (sc_name sc)) H d" "script_all (polite vo (to_lower (sc_name sc))) d"
    and "begin_run (to_lower (sc_name sc)) d = Some (r, t, d1)"
    and "\<forall>p \<in> set offered. p_vendor p = vo (p_hash p)"
  shows "H \<subseteq> dom (map_of (tbl_products (snd (snd (runOneScrape sc snaps appNow retain d)))))"
proof -
  let ?h = "scrape_handler r snaps" and ?s = "\<lparr>rs_db = d1, rs_total = 0\<rparr>"
  obtain err failed s where sc: "sc_scrape sc ?h ?s = (err, failed, s)"
    by (cases "sc_scrape sc ?h ?s") auto
  obtain bs where bs: "delivers sc ?h ?s bs" "set (concat bs) \<subseteq> set offered"
    and f: "0 \<le> failed" "err = None \<and> failed = 0 \<longrightarrow> complete"
    using contract [of ?h ?s] sc by auto
  have "\<forall>b \<in> set bs. vendors_agree vo b"
    using assms(5) bs(2) by (fastforce simp: vendors_agree_def list_all_iff)
  then have v: "\<And>b. b \<in> set bs \<Longrightarrow> list_all (\<lambda>p. p_vendor p = vo (p_hash p)) b"
    by (simp add: vendors_agree_def)
  have "err \<noteq> None \<or> failed > 0" using f assms(1) by auto
  then have "kp.holds vo (to_lower (sc_name sc)) H (snd (snd (runOneScrape sc snaps appNow retain d)))"
    using v by (intro kp.run_holds [OF kp.holdsI [OF assms(2,3)] assms(4) bs(1) _ sc]) auto
  then show ?thesis by (auto simp: kp.holds_def kept_def)
qed

lemma ingested_all:
  "list_all id oks \<Longrightarrow> length oks = length bs \<Longrightarrow> ingested bs oks = p_hash ` set (concat bs)"
  by (induction bs oks rule: ingested.induct) auto

lemma feed_length: "feed h bs s = (oks, s') \<Longrightarrow> length oks = length bs"
  by (induction bs arbitrary: s oks) (auto split: prod.splits)

lemma complete_run_stores_offer:
  assumes "kept vo (to_lower (sc_name sc)) {} d" "script_all (polite vo (to_lower (sc_name sc))) d"
    and "begin_run (to_lower (sc_name sc)) d = Some (r, t, d1)"
    and "script_all (benign vo (to_lower (sc_name sc)) r t) d1"
    and "\<forall>p \<in> set offered. p_vendor p = to_lower (sc_name sc) \<and> vo (p_hash p) = to_lower (sc_name sc)"
    and "sc_scrape sc (scrape_handler r snaps) \<lparr>rs_db = d1, rs_total = 0\<rparr> = (None, 0, s)"
  shows "complete \<and> p_hash ` set offered \<subseteq>
           dom (map_of (tbl_products (snd (snd (runOneScrape sc snaps appNow retain d)))))"
proof -
  let ?h = "scrape_handler r snaps" and ?s = "\<lparr>rs_db = d1, rs_total = 0\<rparr>"
  obtain bs where bs: "delivers sc ?h ?s bs" "set (concat bs) = set offered" "complete"
    using contract [of ?h ?s] assms(6) by auto
  obtain oks s' where f: "feed ?h bs ?s = (oks, s')" by fastforce
  have "list_all id oks" using bs(1) assms(6) f by (simp add: delivers_def)
  then have i: "ingested bs oks = p_hash ` set offered"
    using ingested_all [OF _ feed_length [OF f]] bs(2) by simp
  have "\<forall>b \<in> set bs. own_products vo (to_lower (sc_name sc)) b"
    using assms(5) bs(2) by (fastforce simp: own_products_def list_all_iff)
  from run_keeps_ingested [OF assms(1-4) bs(1) this f, of appNow retain] i bs(3) show ?thesis by simp
qed

end

text \<open>What a group of services offers, and the law for the scrapers that only run one group.\<close>

definition all_products :: "(string + product list) list \<Rightarrow> product list" where
  "all_products outcomes = concat (handed outcomes)"

lemma all_products_set: "set (all_products outcomes) = (\<Union>ps \<in> {ps. Inr ps \<in> set outcomes}. set ps)"
proof (induction outcomes)
  case (Cons r rs)
  then show ?case by (cases r) (auto simp: all_products_def)
qed (simp add: all_products_def)

lemma no_failed_outcome: "length (filter isl outcomes) = 0 \<longleftrightarrow> list_all (\<lambda>r. \<not> isl r) outcomes"
  by (induction outcomes) auto

lemma failed_nonneg:
  "0 \<le> gr_failed g \<Longrightarrow> 0 \<le> gr_failed (group_from h label ended outcome ts g)"
proof (induction ts arbitrary: g)
  case (Cons t ts)
  have "0 \<le> gr_failed (service_task h (label t) (ended t) (outcome t) g)"
    using Cons.prems
    by (auto simp: service_task_def group_fail_def split: sum.splits option.splits prod.splits)
  with Cons.IH show ?case by (simp add: group_from_def)
qed (simp add: group_from_def)

subsection \<open>Scrapers that run one group\<close>

text \<open>
  A scraper that only runs a group, one goroutine for each service of \<open>ts\<close>, satisfies the contract: it offers
  what its services offer.
\<close>

locale group_scraper =
  fixes sc :: scraper
    and label :: "'t \<Rightarrow> string"
    and ended :: "'t \<Rightarrow> string option"
    and outcome :: "'t \<Rightarrow> string + product list"
    and ts :: "'t list"
  assumes runs_group: "sc_scrape sc h s =
    (let g = group_from h label ended outcome ts (group_init s) in (gr_err g, gr_failed g, gr_state g))"

sublocale group_scraper \<subseteq> scraper_contract sc "all_products (map outcome ts)" "list_all (\<lambda>t. \<not> isl (outcome t)) ts"
proof
  fix h s
  let ?b = "handed (map outcome ts)" and ?g = "group_from h label ended outcome ts (group_init s)"
  note g = group_from_feed [of h label ended outcome ts "group_init s"]
  have "0 \<le> gr_failed ?g" by (rule failed_nonneg) (simp add: group_init_def)
  moreover have "delivers sc h s ?b" using g by (simp add: delivers_def runs_group Let_def group_init_def)
  moreover have "list_all (\<lambda>t. \<not> isl (outcome t)) ts" if "gr_err ?g = None" "gr_failed ?g = 0"
    using g that no_failed_outcome [of "map outcome ts"] by (simp add: group_init_def list_all_iff)
  ultimately show "\<exists>bs. delivers sc h s bs \<and> set (concat bs) \<subseteq> set (all_products (map outcome ts))
      \<and> (case sc_scrape sc h s of (err, failed, s') \<Rightarrow>
           0 \<le> failed \<and> (err = None \<and> failed = 0 \<longrightarrow>
             list_all (\<lambda>t. \<not> isl (outcome t)) ts \<and> set (concat bs) = set (all_products (map outcome ts))))"
    by (intro exI [of _ ?b]) (simp add: runs_group Let_def all_products_def)
qed

end
