(* ===== verification/Gcp_Properties.thy ===== *)
theory Gcp_Properties
  imports Gcp Scraper_Contract "HOL-Library.Multiset"
begin

text \<open>
  What the GCP scraper guarantees: the interface of a scraper, and the prices of the machine types it
  synthesises.
\<close>

subsection \<open>The interface\<close>

definition gcp_machine_products :: "gcp_world \<Rightarrow> product list" where
  "gcp_machine_products gw = synthesizeMachineTypes (gw_it gw) (gw_types gw) (compute_products gw)"

definition gcp_offer :: "gcp_world \<Rightarrow> product list" where
  "gcp_offer gw = all_products (map (gcp_outcome gw) (gcp_tasks gw)) @ gcp_machine_products gw"

definition gcp_complete :: "gcp_world \<Rightarrow> bool" where
  "gcp_complete gw \<longleftrightarrow> list_all (\<lambda>t. \<not> isl (gcp_outcome gw t)) (gcp_tasks gw)"

lemma list_all_not_isl: "length (filter isl (map f ts)) = 0 \<longleftrightarrow> list_all (\<lambda>t. \<not> isl (f t)) ts"
  by (simp add: filter_empty_conv list_all_iff)

interpretation gcp: scraper_contract "GCPScraper cfg gw" "gcp_offer gw" "gcp_complete gw" for cfg gw
proof
  fix h s
  let ?sc = "GCPScraper cfg gw" and ?ts = "gcp_tasks gw" and ?m = "gcp_machine_products gw"
  let ?b = "handed (map (gcp_outcome gw) ?ts)"
  let ?g = "group_from h (\<lambda>t. ''upsert gcp '' @ fst t) (\<lambda>t. gw_ended gw (fst t)) (gcp_outcome gw) ?ts (group_init s)"
  note g = group_from_feed [of h "\<lambda>t. ''upsert gcp '' @ fst t" "\<lambda>t. gw_ended gw (fst t)" "gcp_outcome gw" ?ts "group_init s"]
  have n: "0 \<le> gr_failed ?g" by (rule failed_nonneg) (simp add: group_init_def)
  obtain oks s1 where f: "feed h ?b s = (oks, s1)" by fastforce
  have s1: "gr_state ?g = s1" using g f by (simp add: group_init_def)
  have ok: "list_all id oks" if "gr_err ?g = None" using g f that by (simp add: group_init_def)
  have c: "gcp_complete gw" if "gr_err ?g = None" "gr_failed ?g = 0"
    using g that list_all_not_isl [of "gcp_outcome gw" ?ts] by (simp add: group_init_def gcp_complete_def)
  have sub: "set (concat ?b) \<subseteq> set (gcp_offer gw)" by (simp add: gcp_offer_def all_products_def)
  show "\<exists>bs. delivers ?sc h s bs \<and> set (concat bs) \<subseteq> set (gcp_offer gw)
      \<and> (case sc_scrape ?sc h s of (err, failed, s') \<Rightarrow>
           0 \<le> failed \<and> (err = None \<and> failed = 0 \<longrightarrow> gcp_complete gw \<and> set (concat bs) = set (gcp_offer gw)))"
  proof (cases "cfg_GCPAPIKey cfg = ''''")
    case True
    then show ?thesis
      by (intro exI [of _ "[]"]) (simp add: delivers_def GCPScraper_def)
  next
    case key: False
    show ?thesis
    proof (cases "gr_err ?g")
      case (Some e)
      then have "sc_scrape ?sc h s = (Some e, gr_failed ?g, s1)" using key s1 by (simp add: GCPScraper_def)
      with f n sub show ?thesis by (intro exI [of _ ?b]) (simp add: delivers_def)
    next
      case None
      show ?thesis
      proof (cases "?m = []")
        case True
        then have "sc_scrape ?sc h s = (None, gr_failed ?g, s1)"
          using key s1 None by (simp add: GCPScraper_def gcp_machine_products_def)
        with f n sub ok [OF None] c [OF None] True show ?thesis
          by (intro exI [of _ ?b]) (simp add: delivers_def gcp_offer_def all_products_def)
      next
        case False
        obtain e s2 where h: "h ?m s1 = (e, s2)" by fastforce
        have f2: "feed h (?b @ [?m]) s = (oks @ [e = None], s2)" using f h by (simp add: feed_append)
        have "sc_scrape ?sc h s = (map_option (\<lambda>e. ''upsert gcp machine types: '' @ e) e, gr_failed ?g, s2)"
          using key s1 None False h unfolding GCPScraper_def gcp_machine_products_def by (cases e) (simp_all add: Let_def)
        with f2 n ok [OF None] c [OF None] show ?thesis
          by (intro exI [of _ "?b @ [?m]"]) (simp add: delivers_def gcp_offer_def all_products_def)
      qed
    qed
  qed
qed

subsection \<open>Machine types\<close>

text \<open>
  The prices of one resource (CPU or RAM) of a family the scrape saw for a region and purchase option: those
  of the Compute Engine SKUs that match the pattern and carry no discount, unless they are zero.
\<close>

definition usable_price :: "string \<Rightarrow> price \<Rightarrow> rat option" where
  "usable_price purchaseOption price =
     (if pr_USD price \<noteq> ''0.0000000000'' \<and> pr_purchaseOption price = purchaseOption
      then ParseFloat (pr_USD price) else None)"

definition unit_price_candidates :: "string \<Rightarrow> product list \<Rightarrow> price_key \<Rightarrow> rat list" where
  "unit_price_candidates pattern products key =
     concat (map (\<lambda>p.
       let desc = attr_get (p_attrs p) ''description'' in
       if p_service p = ''Compute Engine'' \<and> \<not> contains desc ''SUD'' \<and> \<not> contains desc ''Commitment''
          \<and> contains desc pattern \<and> p_region p = fst key
       then List.map_filter (usable_price (snd key)) (p_prices p)
       else []) products)"

definition cheapest :: "(string \<times> string) list \<Rightarrow> string \<Rightarrow> product list \<Rightarrow> price_key \<Rightarrow> rat option" where
  "cheapest patterns family products key =
     (case map_of patterns family of
        None \<Rightarrow> None
      | Some pattern \<Rightarrow>
          (case unit_price_candidates pattern products key of [] \<Rightarrow> None | v # vs \<Rightarrow> Some (Min (set (v # vs)))))"

definition opt_min :: "rat option \<Rightarrow> rat list \<Rightarrow> rat option" where
  "opt_min o1 vs = (case (case o1 of None \<Rightarrow> vs | Some e \<Rightarrow> e # vs) of [] \<Rightarrow> None | v # vs \<Rightarrow> Some (Min (set (v # vs))))"

lemma opt_min_Nil [simp]: "opt_min o1 [] = o1"
  by (cases o1) (simp_all add: opt_min_def)

lemma opt_min_Cons: "opt_min o1 (v # vs) = opt_min (Some (case o1 of None \<Rightarrow> v | Some e \<Rightarrow> min v e)) vs"
proof (cases o1)
  case (Some e)
  have "Min (insert e (insert v (set vs))) = Min (insert (min v e) (set vs))"
    by (cases "vs = []") (simp_all add: min.assoc min.commute min.left_commute)
  with Some show ?thesis by (simp add: opt_min_def)
qed (simp add: opt_min_def)

lemma opt_min_append: "opt_min o1 (us @ vs) = opt_min (opt_min o1 us) vs"
  by (induction us arbitrary: o1) (simp_all add: opt_min_Cons)

lemma note_price_min:
  "map_of (note_price region price m) key =
     opt_min (map_of m key)
       (if region = fst key
        then List.map_filter (usable_price (snd key)) [price]
        else [])"
  by (cases key)
    (auto simp: note_price_def usable_price_def List.map_filter_def update_conv' opt_min_Cons min_def Let_def split: option.split)

lemma note_prices_min:
  "map_of (fold (note_price region) prices m) key =
     opt_min (map_of m key)
       (if region = fst key
        then List.map_filter (usable_price (snd key)) prices
        else [])"
proof (induction prices arbitrary: m)
  case (Cons price prices)
  then show ?case
    by (cases "usable_price (snd key) price") (simp_all add: note_price_min opt_min_Cons List.map_filter_def)
qed (simp add: List.map_filter_def)

lemma index_products_min:
  "map_of (fold (index_product pattern) products m) key =
     opt_min (map_of m key) (unit_price_candidates pattern products key)"
proof (induction products arbitrary: m)
  case (Cons p products)
  have "map_of (index_product pattern p m) key = opt_min (map_of m key) (unit_price_candidates pattern [p] key)"
    by (simp add: index_product_def unit_price_candidates_def Let_def note_prices_min)
  then show ?case
    using Cons.IH [of "index_product pattern p m"] by (simp add: opt_min_append unit_price_candidates_def)
qed (simp add: unit_price_candidates_def)

lemma indexPrices_cheapest: "map_of (indexPrices patterns products family) key = cheapest patterns family products key"
proof (cases "map_of patterns family")
  case (Some pattern)
  then show ?thesis
    by (simp add: indexPrices_def cheapest_def index_products_min opt_min_def split: list.split)
qed (simp add: indexPrices_def cheapest_def)

lemma index_keys_distinct: "distinct (map fst (indexPrices patterns products family))"
proof -
  have n: "distinct (map fst m) \<Longrightarrow> distinct (map fst (note_price r pr m))" for r pr and m :: price_map
    by (auto simp: note_price_def distinct_update Let_def split: option.split)
  have ns: "distinct (map fst m) \<Longrightarrow> distinct (map fst (fold (note_price r) prs m))" for r prs and m :: price_map
    by (induction prs arbitrary: m) (simp_all add: n)
  have i: "distinct (map fst m) \<Longrightarrow> distinct (map fst (index_product pat p m))" for pat p and m :: price_map
    by (simp add: index_product_def Let_def ns)
  have "distinct (map fst m) \<Longrightarrow> distinct (map fst (fold (index_product pat) products m))" for pat and m :: price_map
    by (induction products arbitrary: m) (simp_all add: i)
  then show ?thesis by (simp add: indexPrices_def split: option.split)
qed

text \<open>A loop ranges over a map in some order.\<close>

definition ranges :: "shuffle \<Rightarrow> bool" where
  "ranges it \<longleftrightarrow> (\<forall>loop m. mset (it loop m) = mset m)"

lemma ranges_set: "ranges it \<Longrightarrow> set (it loop m) = set m"
  by (auto simp: ranges_def dest: mset_eq_setD)

lemma ranges_keys:
  assumes "ranges it" "distinct (map fst m)"
  shows "distinct (map fst (it loop m))"
proof -
  have "mset (map fst (it loop m)) = mset (map fst m)" using assms(1) by (simp add: ranges_def)
  then show ?thesis using assms(2) by (metis mset_eq_imp_distinct_iff)
qed

text \<open>The purchase options a machine type is sold under in a region, with their prices.\<close>

definition machine_options :: "price_map \<Rightarrow> price_map \<Rightarrow> rat \<Rightarrow> rat \<Rightarrow> string \<Rightarrow> (string \<times> string) set" where
  "machine_options cpuMap ramMap cpus ramGB region =
     {(po, format_10f (f_add (f_mul c (to_float64 cpus)) (f_mul m (to_float64 ramGB)))) | po c m.
        map_of cpuMap (region, po) = Some c \<and> map_of ramMap (region, po) = Some m}"

lemma machine_product_prices:
  assumes "ranges it" "distinct (map fst cpuMap)"
  shows "(\<lambda>x. (pr_purchaseOption x, pr_USD x)) ` set (p_prices (machine_product it cpuMap ramMap (mt, cpus, ramGB) region))
      = machine_options cpuMap ramMap cpus ramGB region"
    and "distinct (map pr_purchaseOption (p_prices (machine_product it cpuMap ramMap (mt, cpus, ramGB) region)))"
proof -
  let ?xs = "it (mt @ '' '' @ region) cpuMap"
  let ?h = "ProductHash ''gcp'' region ''Compute Engine'' (''mt-'' @ mt)"
  define f where "f = (\<lambda>(pKey, cpuPrice). if fst pKey \<noteq> region then None
     else map_option (machine_price ?h mt region cpus ramGB (snd pKey) cpuPrice) (map_of ramMap pKey))"
  have p: "p_prices (machine_product it cpuMap ramMap (mt, cpus, ramGB) region) = List.map_filter f ?xs"
    by (simp only: machine_product_def Let_def prod.case product.select_convs f_def)
  have s: "set ?xs = set cpuMap" by (rule ranges_set [OF assms(1)])
  have mf: "set (List.map_filter f xs) = {y. \<exists>x \<in> set xs. f x = Some y}" for xs
    by (induction xs) (auto split: option.splits)
  have fs: "f (k, c) = Some y \<longleftrightarrow> fst k = region \<and>
      (\<exists>m. map_of ramMap k = Some m \<and> y = machine_price ?h mt region cpus ramGB (snd k) c m)" for k c y
    by (auto simp: f_def)
  have k: "(k, c) \<in> set cpuMap \<longleftrightarrow> map_of cpuMap k = Some c" for k c
    using assms(2) by simp
  have e: "(\<exists>x \<in> set cpuMap. f x = Some y) \<longleftrightarrow>
      (\<exists>po c m. map_of cpuMap (region, po) = Some c \<and> map_of ramMap (region, po) = Some m
         \<and> y = machine_price ?h mt region cpus ramGB po c m)" for y
    by (simp only: split_paired_Bex_Sigma split_paired_All split_paired_Ex Bex_def fs k) auto
  show "(\<lambda>x. (pr_purchaseOption x, pr_USD x)) ` set (p_prices (machine_product it cpuMap ramMap (mt, cpus, ramGB) region))
      = machine_options cpuMap ramMap cpus ramGB region"
    unfolding p mf s e machine_options_def by (force simp: machine_price_def)
  have "distinct (map pr_purchaseOption (List.map_filter f xs))
      \<and> (\<forall>po \<in> pr_purchaseOption ` set (List.map_filter f xs). (region, po) \<in> fst ` set xs)"
    if "distinct (map fst xs)" for xs
    using that
  proof (induction xs)
    case (Cons x xs)
    obtain r po c where x: "x = ((r, po), c)" by (metis prod.exhaust)
    show ?case
    proof (cases "f x")
      case (Some y)
      then have "r = region" "pr_purchaseOption y = po" using fs x by (auto simp: machine_price_def)
      with Cons Some x show ?thesis by auto
    qed (use Cons in auto)
  qed simp
  from this [OF ranges_keys [OF assms]] show
    "distinct (map pr_purchaseOption (p_prices (machine_product it cpuMap ramMap (mt, cpus, ramGB) region)))"
    unfolding p by blast
qed

lemma machine_regions_set:
  assumes "ranges it" "distinct (map fst cpuMap)"
  shows "set (machine_regions it cpuMap ramMap mt) = {r. machine_options cpuMap ramMap cpus ramGB r \<noteq> {}}"
    and "distinct (machine_regions it cpuMap ramMap mt)"
proof -
  let ?ks = "filter (\<lambda>key. map_of ramMap key \<noteq> None) (map fst (it mt cpuMap))"
  have "set (machine_regions it cpuMap ramMap mt) = fst ` set ?ks"
    using dedup_from_keys [of fst "[]" ?ks] by (simp add: machine_regions_def)
  also have "\<dots> = {r. \<exists>po. map_of ramMap (r, po) \<noteq> None \<and> (r, po) \<in> fst ` set cpuMap}"
    using ranges_set [OF assms(1), of mt cpuMap] by force
  also have "\<dots> = {r. machine_options cpuMap ramMap cpus ramGB r \<noteq> {}}"
    unfolding machine_options_def by (auto simp: dom_map_of_conv_image_fst [symmetric])
  finally show "set (machine_regions it cpuMap ramMap mt) = {r. machine_options cpuMap ramMap cpus ramGB r \<noteq> {}}" .
  show "distinct (machine_regions it cpuMap ramMap mt)"
    using dedup_from_distinct [of fst "[]" ?ks] by (simp add: machine_regions_def)
qed

text \<open>The families and machine types flattened, in the order the loops visit them.\<close>

definition machine_specs :: "(string \<times> (string \<times> rat \<times> rat) list) list \<Rightarrow> (string \<times> string \<times> rat \<times> rat) list" where
  "machine_specs types = concat (map (\<lambda>(family, specs). map (Pair family) specs) types)"

lemma distinct_concat_keyed:
  assumes "distinct (map name xs)"
    and "\<And>x. x \<in> set xs \<Longrightarrow> distinct (map key (f x))"
    and "\<And>x y. x \<in> set xs \<Longrightarrow> y \<in> set (f x) \<Longrightarrow> fst (key y) = name x"
  shows "distinct (map key (concat (map f xs)))"
  using assms
proof (induction xs)
  case (Cons x xs)
  have "fst (key y) = name x" if "y \<in> set (f x)" for y using Cons.prems(3) that by simp
  moreover have "fst (key y) \<in> name ` set xs" if "y \<in> set (concat (map f xs))" for y
    using Cons.prems(3) that by fastforce
  ultimately have "key ` set (f x) \<inter> key ` set (concat (map f xs)) = {}"
    using Cons.prems(1) by fastforce
  moreover have "distinct (map key (concat (map f xs)))"
    by (rule Cons.IH) (use Cons.prems in auto)
  ultimately show ?case using Cons.prems(2) [of x] by simp
qed simp

text \<open>A machine type's name starts with its family, so no two families share one.\<close>

lemma machine_family_names:
  "list_all (\<lambda>(family, specs). list_all (\<lambda>mt. takeWhile (\<lambda>c. c \<noteq> CHR ''-'') mt = family) (map fst specs)) gcpMachineTypes"
  "list_all (\<lambda>(family, specs). distinct (map fst specs)) gcpMachineTypes"
  "distinct (map fst gcpMachineTypes)"
  by (simp_all add: gcpMachineTypes_def)

lemma machine_names_distinct: "distinct (map (\<lambda>(family, mt, cpus, ramGB). mt) (machine_specs gcpMachineTypes))"
proof -
  let ?key = "\<lambda>mt. (takeWhile (\<lambda>c. c \<noteq> CHR ''-'') mt, mt)"
  have "distinct (map ?key (concat (map (\<lambda>x. map fst (snd x)) gcpMachineTypes)))"
    using machine_family_names
    by (intro distinct_concat_keyed [where name = fst]) (fastforce simp: list_all_iff distinct_map inj_on_def)+
  then have "distinct (concat (map (\<lambda>x. map fst (snd x)) gcpMachineTypes))"
    unfolding distinct_map by (rule conjunct1)
  moreover have "map (\<lambda>(family, mt, cpus, ramGB). mt) (machine_specs ts) = concat (map (\<lambda>x. map fst (snd x)) ts)" for ts
    by (induction ts) (auto simp: machine_specs_def)
  ultimately show ?thesis by simp
qed

lemma synthesize_specs:
  "synthesizeMachineTypes it types products =
     filter (\<lambda>p. p_prices p \<noteq> [])
       (concat (map (\<lambda>(family, spec).
          map (machine_product it (indexPrices gcpFamilyCPUPatterns products family)
                 (indexPrices gcpFamilyRAMPatterns products family) spec)
            (machine_regions it (indexPrices gcpFamilyCPUPatterns products family)
                 (indexPrices gcpFamilyRAMPatterns products family) (fst spec)))
          (machine_specs types)))"
proof -
  have "concat (map (\<lambda>(a, bs). concat (map (f a) bs)) ts)
      = concat (map (\<lambda>(a, b). f a b) (concat (map (\<lambda>(a, bs). map (Pair a) bs) ts)))"
    for f :: "string \<Rightarrow> string \<times> rat \<times> rat \<Rightarrow> product list" and ts
    by (induction ts) (auto simp: comp_def)
  from this [of "\<lambda>family spec. map (machine_product it (indexPrices gcpFamilyCPUPatterns products family)
                 (indexPrices gcpFamilyRAMPatterns products family) spec)
            (machine_regions it (indexPrices gcpFamilyCPUPatterns products family)
                 (indexPrices gcpFamilyRAMPatterns products family) (fst spec))" types]
  show ?thesis by (simp add: synthesizeMachineTypes_def indexCPURAMPrices_def machine_specs_def)
qed

lemma image_nonempty: "(\<lambda>r. (k, r, G r)) ` {r. G r \<noteq> {}} = {(k, r, x) | r x. x \<noteq> {} \<and> x = G r}"
  by auto

lemma union_nonempty:
  assumes "\<And>f m c r. H (f, m, c, r) = {(k m, g, x) | g x. x \<noteq> {} \<and> x = G f c r g}"
  shows "(\<Union>x \<in> A. H x) = {(k m, g, x) | f m c r g x. (f, m, c, r) \<in> A \<and> x \<noteq> {} \<and> x = G f c r g}"
  using assms by fastforce

lemma machine_product_ids:
  "p_sku (machine_product it c r spec region) = ''mt-'' @ fst spec"
  "p_region (machine_product it c r spec region) = region"
  by (simp_all add: machine_product_def Let_def split: prod.split)

definition family_products :: "shuffle \<Rightarrow> product list \<Rightarrow> string \<times> string \<times> rat \<times> rat \<Rightarrow> product list" where
  "family_products it products x =
     (case x of (family, spec) \<Rightarrow>
        map (machine_product it (indexPrices gcpFamilyCPUPatterns products family)
               (indexPrices gcpFamilyRAMPatterns products family) spec)
          (machine_regions it (indexPrices gcpFamilyCPUPatterns products family)
               (indexPrices gcpFamilyRAMPatterns products family) (fst spec)))"

definition machine_view :: "product \<Rightarrow> string \<times> string \<times> (string \<times> string) set" where
  "machine_view p = (p_sku p, p_region p, (\<lambda>x. (pr_purchaseOption x, pr_USD x)) ` set (p_prices p))"

definition option_prices :: "product list \<Rightarrow> string \<Rightarrow> rat \<Rightarrow> rat \<Rightarrow> string \<Rightarrow> (string \<times> string) set" where
  "option_prices products family cpus ramGB region =
     {(po, format_10f (f_add (f_mul c (to_float64 cpus)) (f_mul m (to_float64 ramGB)))) | po c m.
        cheapest gcpFamilyCPUPatterns family products (region, po) = Some c
        \<and> cheapest gcpFamilyRAMPatterns family products (region, po) = Some m}"

lemma machine_options_prices:
  "machine_options (indexPrices gcpFamilyCPUPatterns products family) (indexPrices gcpFamilyRAMPatterns products family)
     cpus ramGB region = option_prices products family cpus ramGB region"
  by (simp add: machine_options_def indexPrices_cheapest option_prices_def)

lemma family_products_view:
  assumes "ranges it"
  shows "machine_view ` set (family_products it products (family, mt, cpus, ramGB))
    = {(''mt-'' @ mt, region, priced) | region priced. priced \<noteq> {} \<and> priced = option_prices products family cpus ramGB region}"
proof -
  let ?cpu = "indexPrices gcpFamilyCPUPatterns products family" and ?ram = "indexPrices gcpFamilyRAMPatterns products family"
  let ?mp = "machine_product it ?cpu ?ram (mt, cpus, ramGB)" and ?rs = "machine_regions it ?cpu ?ram mt"
  note reg = machine_regions_set [OF assms index_keys_distinct]
  note pr = machine_product_prices [OF assms index_keys_distinct]
  have f: "family_products it products (family, mt, cpus, ramGB) = map ?mp ?rs"
    by (simp only: family_products_def prod.case fst_conv)
  have m: "machine_view (?mp r) = (''mt-'' @ mt, r, machine_options ?cpu ?ram cpus ramGB r)" for r
    unfolding machine_view_def pr(1) machine_product_ids fst_conv ..
  have "machine_view ` set (family_products it products (family, mt, cpus, ramGB))
      = (\<lambda>region. (''mt-'' @ mt, region, machine_options ?cpu ?ram cpus ramGB region)) ` set ?rs"
    unfolding f set_map image_image m ..
  then show ?thesis
    unfolding reg(1) [where cpus = cpus and ramGB = ramGB] image_nonempty machine_options_prices .
qed

lemma family_products_priced:
  assumes "ranges it" "p \<in> set (family_products it products x)"
  shows "p_prices p \<noteq> []"
proof -
  obtain family mt cpus ramGB where x: "x = (family, mt, cpus, ramGB)" by (cases x)
  have "machine_view p \<in> {(''mt-'' @ mt, region, priced) | region priced. priced \<noteq> {}
      \<and> priced = option_prices products family cpus ramGB region}"
    using imageI [OF assms(2), of machine_view] unfolding x family_products_view [OF assms(1)] .
  then have "snd (snd (machine_view p)) \<noteq> {}" by (elim CollectE exE conjE) simp
  then show ?thesis by (auto simp: machine_view_def)
qed

lemma synthesize_families:
  assumes "ranges it"
  shows "synthesizeMachineTypes it types products = concat (map (family_products it products) (machine_specs types))"
proof -
  have "synthesizeMachineTypes it types products
      = filter (\<lambda>p. p_prices p \<noteq> []) (concat (map (family_products it products) (machine_specs types)))"
    unfolding synthesize_specs family_products_def [abs_def] by (simp add: case_prod_unfold)
  then show ?thesis using family_products_priced [OF assms] by (fastforce simp: filter_id_conv)
qed

lemma synthesize_distinct:
  assumes "ranges it" "mset (machine_specs types) = mset (machine_specs gcpMachineTypes)"
  shows "distinct (map (\<lambda>p. (p_sku p, p_region p)) (synthesizeMachineTypes it types products))"
proof -
  have "mset (map (\<lambda>(family, mt, cpus, ramGB). mt) (machine_specs types))
      = mset (map (\<lambda>(family, mt, cpus, ramGB). mt) (machine_specs gcpMachineTypes))" using assms(2) by simp
  then have "distinct (map (\<lambda>(family, mt, cpus, ramGB). mt) (machine_specs types))"
    using machine_names_distinct mset_eq_imp_distinct_iff by blast
  then have N: "distinct (map (\<lambda>x. ''mt-'' @ fst (snd x)) (machine_specs types))"
    by (simp add: distinct_map inj_on_def case_prod_unfold)
  have "distinct (map (\<lambda>p. (p_sku p, p_region p)) (family_products it products x))" for x
    using machine_regions_set(2) [OF assms(1) index_keys_distinct]
    by (cases x) (simp add: family_products_def distinct_map inj_on_def machine_product_ids)
  then show ?thesis unfolding synthesize_families [OF assms(1)]
    by (rule distinct_concat_keyed [OF N]) (auto simp: family_products_def machine_product_ids)
qed

text \<open>
  C33: the machine types. Whatever the order in which the maps are iterated, the synthesised products are
  one for each predefined machine type and each region where some purchase option has both a CPU and a RAM
  price of its family; its prices are exactly those purchase options, each priced at CPUs times the lowest
  CPU price plus gigabytes times the lowest RAM price among the undiscounted, non-zero SKUs of that region
  and option, in \<open>float64\<close> arithmetic and printed with ten decimals. (The comment above the patterns says that
  with several matching SKUs the last match wins; the code keeps the lowest price.)
\<close>

theorem machine_types_exact:
  assumes "ranges it" "mset (machine_specs types) = mset (machine_specs gcpMachineTypes)"
  shows "distinct (map (\<lambda>p. (p_sku p, p_region p)) (synthesizeMachineTypes it types products))
    \<and> (\<lambda>p. (p_sku p, p_region p, (\<lambda>x. (pr_purchaseOption x, pr_USD x)) ` set (p_prices p)))
        ` set (synthesizeMachineTypes it types products)
      = {(''mt-'' @ mt, region, priced) | family mt cpus ramGB region priced.
           (family, mt, cpus, ramGB) \<in> set (machine_specs gcpMachineTypes) \<and> priced \<noteq> {}
           \<and> priced = {(po, format_10f (f_add (f_mul c (to_float64 cpus)) (f_mul m (to_float64 ramGB)))) | po c m.
                 cheapest gcpFamilyCPUPatterns family products (region, po) = Some c
                 \<and> cheapest gcpFamilyRAMPatterns family products (region, po) = Some m}}"
proof -
  have "set (machine_specs types) = set (machine_specs gcpMachineTypes)" using assms(2) by (rule mset_eq_setD)
  then have "machine_view ` set (synthesizeMachineTypes it types products)
      = (\<Union>x \<in> set (machine_specs gcpMachineTypes). machine_view ` set (family_products it products x))"
    by (simp add: synthesize_families [OF assms(1)] image_UN)
  also have "\<dots> = {(''mt-'' @ mt, region, priced) | family mt cpus ramGB region priced.
           (family, mt, cpus, ramGB) \<in> set (machine_specs gcpMachineTypes) \<and> priced \<noteq> {}
           \<and> priced = option_prices products family cpus ramGB region}"
    by (rule union_nonempty) (rule family_products_view [OF assms(1)])
  finally show ?thesis
    unfolding machine_view_def option_prices_def by (rule conjI [OF synthesize_distinct [OF assms]])
qed

subsection \<open>Prices\<close>

lemma tier_usd_near:
  assumes "up_Units (tr_UnitPrice tier) = show_nat u" "u < 500000"
    and "up_Nanos (tr_UnitPrice tier) = int n" "n < 1000000000"
  shows "0 \<le> tier_usd tier \<and> \<bar>tier_usd tier * 10 ^ 10 - of_nat (10 ^ 10 * u + 10 * n)\<bar> < 1 / 2"
proof -
  let ?q = "rat_of_nat n / 1000000000"
  have n: "rat_of_nat n < 1000000000" using assms(4) by (metis of_nat_less_iff of_nat_numeral)
  have u: "rat_of_nat u < 500000" using assms(2) by (metis of_nat_less_iff of_nat_numeral)
  have nan: "to_float64 (of_int (int n)) = rat_of_nat n" using to_float64_int [of "int n"] assms(4) by simp
  have uni: "to_float64 (of_int (int u)) = rat_of_nat u" using to_float64_int [of "int u"] assms(2) by simp
  have "(if show_nat u \<noteq> '''' \<and> show_nat u \<noteq> ''0'' then (case parse_int (show_nat u) of Some v \<Rightarrow> v | None \<Rightarrow> 0) else 0) = int u"
  proof (cases "show_nat u = ''0''")
    case True
    have "show_nat 0 = ''0''" by code_simp
    with True have "u = 0" by (metis show_nat_inj)
    with True show ?thesis by simp
  next
    case False
    have "parse_int (show_nat u) = Some (int u)" using assms(2) by (intro parse_show_nat) (simp add: max_int64_def)
    with False show ?thesis by simp
  qed
  then have t: "tier_usd tier = to_float64 (of_nat u + to_float64 ?q)"
    using assms(1,3) nan uni by (simp add: tier_usd_def f_add_def f_div_def Let_def)
  have e1: "\<bar>to_float64 ?q - ?q\<bar> \<le> two_pow (- 54)"
    using to_float64_error [of ?q 0] n by (simp add: two_pow_def)
  have p: "two_pow (- 54) = 1 / 18014398509481984" "two_pow (- 35) = 1 / 34359738368" by (simp_all add: two_pow_def)
  have d: "0 \<le> to_float64 ?q" by (intro to_float64_nonneg) simp
  let ?s = "of_nat u + to_float64 ?q"
  have q1: "?q < 1" using n by simp
  have s: "0 \<le> ?s" "?s < 524288" using d e1 q1 u unfolding p by linarith+
  then have "\<bar>?s\<bar> < two_pow 19" by (simp add: two_pow_def)
  then have e2: "\<bar>to_float64 ?s - ?s\<bar> \<le> two_pow (- 35)" using to_float64_error [of ?s 19] by simp
  have "\<bar>tier_usd tier - (of_nat u + ?q)\<bar> \<le> 1 / 18014398509481984 + 1 / 34359738368"
    using e1 e2 unfolding t p by linarith
  then have "\<bar>tier_usd tier - (of_nat u + ?q)\<bar> < 1 / 2 / 10 ^ 10" by simp
  moreover have "\<bar>z\<bar> < 1 / 2 / 10 ^ 10 \<Longrightarrow> \<bar>z * 10 ^ 10\<bar> < 1 / 2" for z :: rat by (simp add: abs_mult)
  ultimately have "\<bar>(tier_usd tier - (of_nat u + ?q)) * 10 ^ 10\<bar> < 1 / 2" by blast
  moreover have E: "(tier_usd tier - (of_nat u + ?q)) * 10 ^ 10 = tier_usd tier * 10 ^ 10 - of_nat (10 ^ 10 * u + 10 * n)"
    by (simp add: algebra_simps)
  ultimately have "\<bar>tier_usd tier * 10 ^ 10 - of_nat (10 ^ 10 * u + 10 * n)\<bar> < 1 / 2" by (simp only: E)
  moreover have "0 \<le> tier_usd tier" unfolding t by (rule to_float64_nonneg [OF s(1)])
  ultimately show ?thesis by (rule conjI [rotated])
qed

text \<open>
  C34: prices are stored exactly. A tier priced at \<open>u\<close> units and \<open>n\<close> nanos of the currency, below half a million,
  is stored as the decimal \<open>u.n\<close>: the three roundings of the \<open>float64\<close> arithmetic never show in the ten
  decimals that are printed.
\<close>

theorem gcp_prices_exact:
  assumes "up_Units (tr_UnitPrice (tiers ! i)) = show_nat u" "u < 500000"
    and "up_Nanos (tr_UnitPrice (tiers ! i)) = int n" "n < 1000000000"
  shows "pr_USD (tier_price prodHash purchaseOption unit description tiers i)
     = show_nat u @ ''.'' @ low_digits 9 n @ ''0''"
proof -
  have "format_fixed 10 (tier_usd (tiers ! i))
      = show_nat ((10 ^ 10 * u + 10 * n) div 10 ^ 10) @ ''.'' @ low_digits 10 (10 ^ 10 * u + 10 * n)"
    using tier_usd_near [OF assms] by (intro format_fixed_near) auto
  moreover have "(10 ^ 10 * u + 10 * n) div 10 ^ 10 = u" using assms(4) by simp
  moreover have "low_digits 10 (10 ^ 10 * u + 10 * n) = low_digits 9 (10 ^ 9 * u + n) @ ''0''"
    using low_digits_shift [of 9 "10 ^ 9 * u + n"] by (simp add: algebra_simps)
  moreover have "low_digits 9 (10 ^ 9 * u + n) = low_digits 9 n"
  proof -
    have "(10 ^ 9 * u + n) div 10 ^ (9 - Suc i) mod 10 = n div 10 ^ (9 - Suc i) mod 10" if "i < 9" for i
    proof -
      have "(10 :: nat) ^ 9 * u = 10 ^ (9 - Suc i) * (10 ^ Suc i * u)"
        using that by (simp only: mult.assoc [symmetric] power_add [symmetric]) simp
      then show ?thesis by (simp only: div_mult_self4) (simp add: mod_add_left_eq [symmetric] mod_mult_left_eq [symmetric])
    qed
    then show ?thesis by (simp add: low_digits_def)
  qed
  ultimately show ?thesis by (simp add: tier_price_def format_10f_def Let_def)
qed

theorem gcp_prices_exact_witness:
  "pr_USD (tier_price ''x'' ''OnDemand'' ''h'' ''cpu'' [zero_tier\<lparr>tr_UnitPrice := \<lparr>up_CurrencyCode = ''USD'', up_Units = ''12'', up_Nanos = 31611000\<rparr>\<rparr>] 0)
     = ''12.0316110000''"
proof -
  have s: "show_nat 12 = ''12''" "low_digits 9 31611000 = ''031611000''" by code_simp+
  have "pr_USD (tier_price ''x'' ''OnDemand'' ''h'' ''cpu'' [zero_tier\<lparr>tr_UnitPrice := \<lparr>up_CurrencyCode = ''USD'', up_Units = ''12'', up_Nanos = 31611000\<rparr>\<rparr>] 0)
     = show_nat 12 @ ''.'' @ low_digits 9 31611000 @ ''0''"
    by (rule gcp_prices_exact) (simp_all add: s)
  then show ?thesis by (simp add: s)
qed

text \<open>Half a dollar a core, a quarter a gigabyte; a dearer core and a commitment are left out.\<close>

definition sku_product :: "string \<Rightarrow> string \<Rightarrow> product" where
  "sku_product description usd =
     \<lparr>p_hash = description, p_sku = description, p_vendor = ''gcp'', p_region = ''us-east1'', p_service = ''Compute Engine'',
      p_family = ''Compute'', p_attrs = [(''description'', description)],
      p_prices = [\<lparr>pr_hash = '''', pr_purchaseOption = ''OnDemand'', pr_unit = ''h'', pr_USD = usd, pr_startUsage = ''0'',
        pr_endUsage = '''', pr_description = description, pr_termLength = '''', pr_termPurchaseOption = '''',
        pr_termOfferingClass = ''''\<rparr>]\<rparr>"

definition sample_skus :: "product list" where
  "sample_skus =
     [sku_product ''N1 Predefined Instance Core running in Americas'' ''0.7500000000'',
      sku_product ''N1 Predefined Instance Ram running in Americas'' ''0.2500000000'',
      sku_product ''N1 Predefined Instance Core running in Carolina'' ''0.5000000000'',
      sku_product ''Commitment: N1 Predefined Instance Core'' ''0.1000000000'']"

lemma dyadic_floats:
  "to_float64 (1 / 2) = 1 / 2" "to_float64 (1 / 4) = 1 / 4" "to_float64 (3 / 4) = 3 / 4" "to_float64 2 = 2"
  "to_float64 (15 / 2) = 15 / 2" "to_float64 1 = 1" "to_float64 (15 / 8) = 15 / 8" "to_float64 (23 / 8) = 23 / 8"
  using to_float64_exact [of 1 "- 1"] to_float64_exact [of 1 "- 2"] to_float64_exact [of 3 "- 2"] to_float64_exact [of 2 0]
    to_float64_exact [of 15 "- 1"] to_float64_exact [of 1 0] to_float64_exact [of 15 "- 3"] to_float64_exact [of 23 "- 3"]
  by (simp_all add: two_pow_def)

lemma ParseFloat_plain:
  assumes "takeWhile (\<lambda>c. c \<notin> {CHR ''e'', CHR ''E''}) s = s" "s = i @ CHR ''.'' # f" "CHR ''.'' \<notin> set i"
    and "\<not> has_prefix s ''-''" "\<not> has_prefix s ''+''" "i @ f \<noteq> []" "all_digits (i @ f)"
    and "v = of_nat (dec_val (i @ f)) / 10 ^ length f" "v < max_float64"
  shows "ParseFloat s = Some (to_float64 v)"
proof -
  have c: "\<not> (s \<noteq> [] \<and> (hd s = CHR ''+'' \<or> hd s = CHR ''-''))" using assms(4,5) by (cases s) simp_all
  have t: "takeWhile (\<lambda>c. c \<noteq> CHR ''.'') s = i" unfolding assms(2) using assms(3) by (subst takeWhile_append2) auto
  have d: "drop (Suc (length i)) s = f" unfolding assms(2) by simp
  have "ten_pow (0 - int (length f)) = 1 / 10 ^ length f" by (simp add: ten_pow_def)
  then show ?thesis
    using assms(4,6-9) unfolding ParseFloat_def Let_def if_not_P [OF c] assms(1) t d by simp
qed

lemma sample_parsed:
  "ParseFloat ''0.5000000000'' = Some (1 / 2)" "ParseFloat ''0.2500000000'' = Some (1 / 4)"
  "ParseFloat ''0.7500000000'' = Some (3 / 4)"
proof -
  have d: "dec_val ''05000000000'' = 5000000000" "dec_val ''02500000000'' = 2500000000" "dec_val ''07500000000'' = 7500000000"
    "all_digits ''05000000000''" "all_digits ''02500000000''" "all_digits ''07500000000''" by code_simp+
  have m: "1 < max_float64" by (simp add: max_float64_def)
  have v: "1 / 2 < max_float64" "1 / 4 < max_float64" "3 / 4 < max_float64"
    by (rule less_trans [OF _ m], simp)+
  have "ParseFloat ''0.5000000000'' = Some (to_float64 (1 / 2))"
    by (rule ParseFloat_plain [where i = "''0''" and f = "''5000000000''", OF _ _ _ _ _ _ _ _ v(1)]) (simp_all add: d)
  moreover have "ParseFloat ''0.2500000000'' = Some (to_float64 (1 / 4))"
    by (rule ParseFloat_plain [where i = "''0''" and f = "''2500000000''", OF _ _ _ _ _ _ _ _ v(2)]) (simp_all add: d)
  moreover have "ParseFloat ''0.7500000000'' = Some (to_float64 (3 / 4))"
    by (rule ParseFloat_plain [where i = "''0''" and f = "''7500000000''", OF _ _ _ _ _ _ _ _ v(3)]) (simp_all add: d)
  ultimately show "ParseFloat ''0.5000000000'' = Some (1 / 2)" "ParseFloat ''0.2500000000'' = Some (1 / 4)"
    "ParseFloat ''0.7500000000'' = Some (3 / 4)" by (simp_all only: dyadic_floats)
qed

lemma sample_candidates:
  "unit_price_candidates ''N1 Predefined Instance Core'' sample_skus (''us-east1'', po)
     = (if po = ''OnDemand'' then [3 / 4, 1 / 2] else [])"
  "unit_price_candidates ''N1 Predefined Instance Ram'' sample_skus (''us-east1'', po)
     = (if po = ''OnDemand'' then [1 / 4] else [])"
  by (simp_all add: unit_price_candidates_def sample_skus_def sku_product_def usable_price_def Let_def attr_get_def
      contains_def sample_parsed)

lemma sample_cheapest:
  "cheapest gcpFamilyCPUPatterns ''n1'' sample_skus (''us-east1'', po) = (if po = ''OnDemand'' then Some (1 / 2) else None)"
  "cheapest gcpFamilyRAMPatterns ''n1'' sample_skus (''us-east1'', po) = (if po = ''OnDemand'' then Some (1 / 4) else None)"
  by (simp_all add: cheapest_def gcpFamilyCPUPatterns_def gcpFamilyRAMPatterns_def sample_candidates)

theorem machine_types_exact_witness:
  "(''mt-n1-standard-2'', ''us-east1'', {(''OnDemand'', ''2.8750000000'')})
     \<in> (\<lambda>p. (p_sku p, p_region p, (\<lambda>x. (pr_purchaseOption x, pr_USD x)) ` set (p_prices p)))
         ` set (synthesizeMachineTypes (\<lambda>_ m. m) gcpMachineTypes sample_skus)"
proof -
  have r: "ranges (\<lambda>_ m. m)" by (simp add: ranges_def)
  have m: "(''n1'', ''n1-standard-2'', 2, 15 / 2) \<in> set (machine_specs gcpMachineTypes)"
    by (simp add: machine_specs_def gcpMachineTypes_def)
  have s: "show_nat 2 = ''2''" "low_digits 10 28750000000 = ''8750000000''" by code_simp+
  have sum: "f_add (f_mul (1 / 2) (to_float64 2)) (f_mul (1 / 4) (to_float64 (15 / 2))) = 23 / 8"
    by (simp add: f_add_def f_mul_def dyadic_floats)
  have fmt: "format_10f (23 / 8) = ''2.8750000000''"
    using format_fixed_near [of "23 / 8" 10 28750000000] by (simp add: format_10f_def s)
  have opts: "{(po, F c m) | po c m. (if po = k then Some a else None) = Some c \<and> (if po = k then Some b else None) = Some m}
      = {(k, F a b)}" for k :: string and F :: "rat \<Rightarrow> rat \<Rightarrow> string" and a b by auto
  have "{(po, format_10f (f_add (f_mul c (to_float64 2)) (f_mul m (to_float64 (15 / 2))))) | po c m.
                 cheapest gcpFamilyCPUPatterns ''n1'' sample_skus (''us-east1'', po) = Some c
                 \<and> cheapest gcpFamilyRAMPatterns ''n1'' sample_skus (''us-east1'', po) = Some m}
      = {(''OnDemand'', ''2.8750000000'')}"
    unfolding sample_cheapest opts sum fmt ..
  with m show ?thesis
    unfolding conjunct2 [OF machine_types_exact [OF r refl]]
    by (intro CollectI exI [of _ "''n1''"] exI [of _ "''n1-standard-2''"] exI [of _ 2] exI [of _ "15 / 2"]
        exI [of _ "''us-east1''"] exI [of _ "{(''OnDemand'', ''2.8750000000'')}"]) simp
qed

subsection \<open>Failed services\<close>

lemma gcp_pages_vendor:
  "gcp_pages serviceID token w ps = Inr qs \<Longrightarrow> \<forall>p \<in> set ps. p_vendor p = ''gcp'' \<Longrightarrow> \<forall>p \<in> set qs. p_vendor p = ''gcp''"
proof (induction serviceID token w ps rule: gcp_pages.induct)
  case (1 serviceID token w ps)
  obtain r w' where f: "fetchGCPPage serviceID token w = (r, w')" by fastforce
  show ?case
  proof (cases r)
    case (Inl e)
    with 1(2) f show ?thesis by (subst (asm) gcp_pages.simps) simp
  next
    case (Inr y)
    obtain resp ended where y: "y = (resp, ended)" by fastforce
    let ?ps = "ps @ concat (map transformSKU (sl_SKUs resp))"
    have v: "\<forall>p \<in> set ?ps. p_vendor p = ''gcp''"
      using 1(3) by (auto simp: transformSKU_def region_product_def Let_def split: list.splits)
    show ?thesis
    proof (cases "sl_NextPageToken resp = ''''")
      case True
      with 1(2) f Inr y v show ?thesis by (subst (asm) gcp_pages.simps) simp
    next
      case False
      with 1(2) f Inr y have "gcp_pages serviceID (sl_NextPageToken resp) w' ?ps = Inr qs"
        by (subst (asm) gcp_pages.simps) simp
      from 1(1) [OF f [symmetric] Inr y [symmetric] refl False this v] show ?thesis .
    qed
  qed
qed

lemma gcp_offer_vendor: "p \<in> set (gcp_offer gw) \<Longrightarrow> p_vendor p = ''gcp''"
proof -
  have m: "p_vendor p = ''gcp''" if "p \<in> set (synthesizeMachineTypes it types products)" for p it types products
    using that by (auto simp: synthesizeMachineTypes_def machine_product_def Let_def split: prod.splits)
  have s: "p_vendor p = ''gcp''" if "Inr ps = gcp_outcome gw t" "p \<in> set ps" for ps t
  proof -
    have "gcp_pages (snd t) '''' (gw_wire gw (fst t)) [] = Inr ps"
      using that(1) by (cases "gcp_pages (snd t) '''' (gw_wire gw (fst t)) []") (auto simp: gcp_outcome_def gcp_scrapeService_def)
    from gcp_pages_vendor [OF this] that(2) show ?thesis by simp
  qed
  assume "p \<in> set (gcp_offer gw)"
  then show ?thesis
    unfolding gcp_offer_def set_append all_products_set gcp_machine_products_def using m s by auto
qed

text \<open>
  A GCP run with a service that could not be read, whatever the answers of the API, the order of the
  goroutines and the schedule of the other processes, deletes no product of GCP: the run counts the service
  as failed, or it fails as a whole, and either way stale cleanup is skipped.
\<close>

theorem gcp_unread_service_deletes_nothing:
  assumes "t \<in> set (gcp_tasks gw)" "gcp_outcome gw t = Inl e"
    and "kept vo ''gcp'' H d" "script_all (polite vo ''gcp'') d"
    and "begin_run ''gcp'' d = Some (r, t0, d1)"
    and "\<And>p. p \<in> set (gcp_offer gw) \<Longrightarrow> vo (p_hash p) = ''gcp''"
  shows "H \<subseteq> dom (map_of (tbl_products (snd (snd (runOneScrape (GCPScraper cfg gw) snaps appNow retain d)))))"
proof -
  have n: "to_lower (sc_name (GCPScraper cfg gw)) = ''gcp''" by (simp add: GCPScraper_def) code_simp
  have c: "\<not> gcp_complete gw" using assms(1,2) unfolding gcp_complete_def list_all_iff by (metis sum.disc(1))
  show ?thesis
    by (rule gcp.incomplete_deletes_nothing [OF c, of vo cfg H d r t0 d1, unfolded n, OF assms(3-5)])
      (simp add: assms(6) gcp_offer_vendor)
qed

definition silent_gcp :: gcp_world where
  "silent_gcp = \<lparr>gw_discovery = [], gw_wire = \<lambda>_. [], gw_ended = \<lambda>_. None, gw_order = \<lambda>ts. ts,
     gw_types = gcpMachineTypes, gw_it = \<lambda>_ m. m\<rparr>"

definition gcp_config :: config where
  "gcp_config = Load (\<lambda>_. None) (\<lambda>k. if k = ''GCP_API_KEY'' then ''key'' else '''')"

definition gcp_row :: "string \<Rightarrow> string \<times> row" where
  "gcp_row h = (h, \<lparr>r_product = sample_product h ''gcp'' ''old'', r_updated = 0\<rparr>)"

definition gcp_db :: db where
  "gcp_db = (fresh_db 10 [([Tick 5], Executed), ([], Executed), ([], Executed), ([Tick 1], LostReply ''net'')])\<lparr>tbl_products := [gcp_row ''g0'']\<rparr>"

theorem gcp_unread_service_deletes_nothing_witness:
  "{''g0''} \<subseteq> dom (map_of (tbl_products (snd (snd (runOneScrape (GCPScraper gcp_config silent_gcp) False 100 50 gcp_db)))))"
proof (rule gcp_unread_service_deletes_nothing)
  have o: "gcp_outcome silent_gcp t = Inl (''fetch '' @ fst t @ '': context canceled'')" for t
    by (simp add: gcp_outcome_def silent_gcp_def gcp_scrapeService_def gcp_pages.simps fetchGCPPage_def gcp_attempt_def send_def
        numeral_3_eq_3 Let_def)
  show "gcp_outcome silent_gcp (hd (gcp_tasks silent_gcp)) = Inl (''fetch '' @ fst (hd (gcp_tasks silent_gcp)) @ '': context canceled'')"
    by (rule o)
  show "hd (gcp_tasks silent_gcp) \<in> set (gcp_tasks silent_gcp)" by code_simp
  show "kept (\<lambda>_. ''gcp'') ''gcp'' {''g0''} gcp_db"
    by (rule keptI) (code_simp, code_simp, simp_all add: gcp_db_def gcp_row_def)
  show "script_all (polite (\<lambda>_. ''gcp'') ''gcp'') gcp_db" by code_simp
  show "begin_run ''gcp'' gcp_db = Some (1, 15, begun_db ''gcp'' gcp_db)" by code_simp
qed simp

end
