(* ===== verification/Azure.thy ===== *)
theory Azure
  imports Scraper_Core Url_Redact
begin

text \<open>
  The Azure scraper, \<^verbatim>\<open>internal/scraper/azure.go\<close>: the pages of the Retail Prices API, the builder that
  folds their rows into products, and the loop over the services. The maps of the builder are association
  lists; the order in which \<open>products\<close> ranges over them is the argument \<open>it\<close>.
\<close>

subsection \<open>The price list\<close>

record azureItem =
  az_CurrencyCode :: string
  az_RetailPrice :: rat
  az_UnitOfMeasure :: string
  az_ArmRegionName :: string
  az_Location :: string
  az_ServiceName :: string
  az_ServiceFamily :: string
  az_ProductName :: string
  az_SkuName :: string
  az_ArmSkuName :: string
  az_MeterName :: string
  az_Type :: string
  az_IsPrimaryMeterRegion :: bool
  az_ReservationTerm :: string
  az_TierMinimumUnits :: rat

record azureResponse =
  ar_Items :: "azureItem list"
  ar_NextPageLink :: string

definition zero_item :: azureItem where
  "zero_item =
     \<lparr>az_CurrencyCode = '''', az_RetailPrice = 0, az_UnitOfMeasure = '''', az_ArmRegionName = '''', az_Location = '''',
      az_ServiceName = '''', az_ServiceFamily = '''', az_ProductName = '''', az_SkuName = '''', az_ArmSkuName = '''',
      az_MeterName = '''', az_Type = '''', az_IsPrimaryMeterRegion = False, az_ReservationTerm = '''',
      az_TierMinimumUnits = 0\<rparr>"

definition item_tags :: "(string \<times> azureItem decoder) list" where
  "item_tags =
     [(''currencyCode'', put_string (\<lambda>x r. r\<lparr>az_CurrencyCode := x\<rparr>)),
      (''retailPrice'', put_float (\<lambda>x r. r\<lparr>az_RetailPrice := x\<rparr>)),
      (''unitOfMeasure'', put_string (\<lambda>x r. r\<lparr>az_UnitOfMeasure := x\<rparr>)),
      (''armRegionName'', put_string (\<lambda>x r. r\<lparr>az_ArmRegionName := x\<rparr>)),
      (''location'', put_string (\<lambda>x r. r\<lparr>az_Location := x\<rparr>)),
      (''serviceName'', put_string (\<lambda>x r. r\<lparr>az_ServiceName := x\<rparr>)),
      (''serviceFamily'', put_string (\<lambda>x r. r\<lparr>az_ServiceFamily := x\<rparr>)),
      (''productName'', put_string (\<lambda>x r. r\<lparr>az_ProductName := x\<rparr>)),
      (''skuName'', put_string (\<lambda>x r. r\<lparr>az_SkuName := x\<rparr>)),
      (''armSkuName'', put_string (\<lambda>x r. r\<lparr>az_ArmSkuName := x\<rparr>)),
      (''meterName'', put_string (\<lambda>x r. r\<lparr>az_MeterName := x\<rparr>)),
      (''type'', put_string (\<lambda>x r. r\<lparr>az_Type := x\<rparr>)),
      (''isPrimaryMeterRegion'', put_bool (\<lambda>x r. r\<lparr>az_IsPrimaryMeterRegion := x\<rparr>)),
      (''reservationTerm'', put_string (\<lambda>x r. r\<lparr>az_ReservationTerm := x\<rparr>)),
      (''tierMinimumUnits'', put_float (\<lambda>x r. r\<lparr>az_TierMinimumUnits := x\<rparr>))]"

definition azure_response_tags :: "(string \<times> azureResponse decoder) list" where
  "azure_response_tags =
     [(''Items'', put_list (\<lambda>x r. r\<lparr>ar_Items := x\<rparr>) zero_item (decode_struct item_tags)),
      (''NextPageLink'', put_string (\<lambda>x r. r\<lparr>ar_NextPageLink := x\<rparr>))]"

definition decode_azure :: "string \<Rightarrow> azureResponse option" where
  "decode_azure body =
     (case json_parse body of
        None \<Rightarrow> None
      | Some j \<Rightarrow> (case decode_struct azure_response_tags j (\<lparr>ar_Items = [], ar_NextPageLink = ''''\<rparr>, True) of
                     (resp, ok) \<Rightarrow> if ok then Some resp else None))"

subsection \<open>Regions, names and attributes\<close>

definition isVirtualRegion :: "string \<Rightarrow> bool" where
  "isVirtualRegion region \<longleftrightarrow>
     has_prefix region ''Zone'' \<or> region = ''Global'' \<or> has_prefix region ''US Gov''
     \<or> has_prefix region ''DE '' \<or> contains region ''China''"

definition skipPrimaryMeterFilter :: "azureItem \<Rightarrow> bool" where
  "skipPrimaryMeterFilter item \<longleftrightarrow>
     (let productName = az_ProductName item; meterName = az_MeterName item in
      productName = ''IP Addresses''
      \<or> has_prefix productName ''Azure Cosmos DB''
      \<or> contains meterName ''Disk Operations''
      \<or> (has_suffix productName ''Managed Disks'' \<and> contains meterName ''Disk Transactions'')
      \<or> has_prefix productName ''SQL Database Single'' \<or> has_prefix productName ''SQL Database Basic''
      \<or> has_prefix productName ''SQL Database Premium''
      \<or> has_prefix productName ''Virtual Machines''
      \<or> has_prefix productName ''Container Registry''
      \<or> has_prefix productName ''Logic Apps''
      \<or> has_prefix productName ''Key Vault''
      \<or> has_prefix productName ''Event Hubs''
      \<or> az_ServiceName item \<in> {''Azure Analysis Services'', ''Azure Purview'', ''Azure Site Recovery''})"

definition usesVirtualRegions :: "string \<Rightarrow> bool" where
  "usesVirtualRegions serviceName \<longleftrightarrow> serviceName \<in> {''Azure DNS'', ''VPN Gateway'', ''Load Balancer''}"

definition azureConvertRegion :: "string \<Rightarrow> string" where
  "azureConvertRegion region =
     (let lower = to_lower region in
      if contains lower ''usgov'' then ''US Gov'' else if contains lower ''china'' then ''China'' else ''Global'')"

definition azureDNSZoneRegion :: "string \<Rightarrow> string" where
  "azureDNSZoneRegion region =
     (let lower = to_lower region in
      if has_prefix lower ''usgov'' then ''US Gov Zone 1''
      else if has_prefix lower ''germany'' then ''DE Zone 1''
      else if has_prefix lower ''china'' then ''Zone 1 (China)''
      else ''Zone 1'')"

definition azureProductRegions :: "azureItem \<Rightarrow> string list" where
  "azureProductRegions item =
     (let arm = az_ArmRegionName item;
          regions = (if arm \<noteq> '''' then [arm] else []);
          regions = regions @
            (if az_ServiceName item = ''Load Balancer'' then [azureConvertRegion arm]
             else if az_ServiceName item = ''Azure DNS'' then [azureDNSZoneRegion arm]
             else if az_ServiceName item = ''VPN Gateway'' then [azureConvertRegion arm, azureDNSZoneRegion arm]
             else [])
      in if regions = [] then [''Global''] else regions)"

text \<open>The suffix the pattern \<^verbatim>\<open> v\d+$\<close> matches, if it does, starts right before the last run of digits.\<close>

definition drop_version_suffix :: "string \<Rightarrow> string" where
  "drop_version_suffix name =
     (let digits = takeWhile (\<lambda>c. digit_val c \<noteq> None) (rev name);
          rest = drop (length digits) (rev name)
      in if digits \<noteq> [] \<and> take 2 rest = ''v '' then rev (drop 2 rest) else name)"

definition normalizeAzureProductName :: "string \<Rightarrow> string" where
  "normalizeAzureProductName name =
     (if has_prefix name ''Virtual Machines'' then drop_version_suffix name else name)"

definition isAzureCloudServices :: "string \<Rightarrow> bool" where
  "isAzureCloudServices productName \<longleftrightarrow> contains productName ''Cloud Services'' \<or> contains productName ''CloudServices''"

definition azureAttributes :: "string \<Rightarrow> string \<Rightarrow> string \<Rightarrow> string \<Rightarrow> string \<Rightarrow> string \<Rightarrow> attrs" where
  "azureAttributes serviceName productName skuName meterName armSkuName serviceFamily =
     [(''productName'', productName), (''skuName'', skuName), (''meterName'', meterName),
      (''armSkuName'', armSkuName), (''serviceFamily'', serviceFamily)]
     @ (if serviceName = ''Virtual Machines'' then
          (if isAzureCloudServices productName then []
           else if has_suffix productName '' Windows'' \<or> has_suffix productName '' Win'' then [(''os'', ''Windows'')]
           else [(''os'', ''Linux'')])
        else [])"

subsection \<open>The builder\<close>

record azureProductBuilder =
  byKey :: "(string \<times> product) list"
  primary :: "(string \<times> bool list) list"

definition newAzureProductBuilder :: azureProductBuilder where
  "newAzureProductBuilder = \<lparr>byKey = [], primary = []\<rparr>"

definition builder_count :: "azureProductBuilder \<Rightarrow> nat" where
  "builder_count b = length (byKey b)"

definition authoritative :: "azureItem \<Rightarrow> bool" where
  "authoritative item \<longleftrightarrow>
     az_IsPrimaryMeterRegion item \<or> usesVirtualRegions (az_ServiceName item) \<or> skipPrimaryMeterFilter item"

definition product_key :: "azureItem \<Rightarrow> string \<Rightarrow> string" where
  "product_key item region =
     normalizeAzureProductName (az_ProductName item) @ ''|'' @ az_SkuName item @ ''|'' @ az_MeterName item @ ''|'' @ region"

definition new_product :: "azureItem \<Rightarrow> string \<Rightarrow> product" where
  "new_product item region =
     (let productName = normalizeAzureProductName (az_ProductName item);
          sku = ProductHash ''azure-sku'' productName (az_SkuName item) (az_MeterName item)
      in \<lparr>p_hash = ProductHash ''azure'' region (az_ServiceName item) (sku @ region), p_sku = sku, p_vendor = ''azure'',
          p_region = region, p_service = az_ServiceName item, p_family = az_ServiceFamily item,
          p_attrs = azureAttributes (az_ServiceName item) productName (az_SkuName item) (az_MeterName item)
                      (az_ArmSkuName item) (az_ServiceFamily item),
          p_prices = []\<rparr>)"

definition item_price :: "string \<Rightarrow> azureItem \<Rightarrow> price" where
  "item_price prodHash item =
     (let startUsageAmount = (if az_TierMinimumUnits item > 0 then format_g (az_TierMinimumUnits item) else ''0'')
      in \<lparr>pr_hash = PriceHash prodHash (az_Type item) (az_UnitOfMeasure item) startUsageAmount (az_MeterName item)
                      (az_ReservationTerm item) '''' '''',
          pr_purchaseOption = az_Type item, pr_unit = az_UnitOfMeasure item, pr_USD = format_10f (az_RetailPrice item),
          pr_startUsage = startUsageAmount, pr_endUsage = '''', pr_description = az_MeterName item,
          pr_termLength = az_ReservationTerm item, pr_termPurchaseOption = '''', pr_termOfferingClass = ''''\<rparr>)"

definition add_region :: "azureItem \<Rightarrow> string \<Rightarrow> azureProductBuilder \<Rightarrow> azureProductBuilder" where
  "add_region item region b =
     (let productKey = product_key item region;
          p = (case map_of (byKey b) productKey of Some p \<Rightarrow> p | None \<Rightarrow> new_product item region);
          flags = (case map_of (primary b) productKey of Some flags \<Rightarrow> flags | None \<Rightarrow> [])
      in \<lparr>byKey = AList.update productKey (p\<lparr>p_prices := p_prices p @ [item_price (p_hash p) item]\<rparr>) (byKey b),
          primary = AList.update productKey (flags @ [authoritative item]) (primary b)\<rparr>)"

definition add_item :: "azureItem \<Rightarrow> azureProductBuilder \<Rightarrow> azureProductBuilder" where
  "add_item item b = fold (add_region item) (azureProductRegions item) b"

definition azurePriceSlot :: "price \<Rightarrow> string" where
  "azurePriceSlot p = pr_purchaseOption p @ ''|'' @ pr_unit p @ ''|'' @ pr_startUsage p @ ''|'' @ pr_termLength p"

definition deduplicatePrices :: "price list \<Rightarrow> price list" where
  "deduplicatePrices prices =
     dedup_from
       (\<lambda>p. pr_purchaseOption p @ ''|'' @ pr_unit p @ ''|'' @ pr_startUsage p @ ''|'' @ pr_USD p @ ''|'' @ pr_termLength p)
       [] prices"

text \<open>The tier of a price; the result keeps the first of a tier in its place, replaced by every lower one.\<close>

definition price_tier :: "price \<Rightarrow> string" where
  "price_tier p = pr_purchaseOption p @ ''|'' @ pr_startUsage p @ ''|'' @ pr_termLength p"

definition usd_value :: "price \<Rightarrow> rat" where
  "usd_value p = (case ParseFloat (pr_USD p) of Some v \<Rightarrow> v | None \<Rightarrow> 0)"

definition tier_step :: "price \<Rightarrow> (string \<times> nat) list \<times> price list \<Rightarrow> (string \<times> nat) list \<times> price list" where
  "tier_step p st =
     (case st of (seen, result) \<Rightarrow>
        (case map_of seen (price_tier p) of
           Some idx \<Rightarrow> (seen, if usd_value p < usd_value (result ! idx) then result[idx := p] else result)
         | None \<Rightarrow> ((price_tier p, length result) # seen, result @ [p])))"

definition deduplicatePricesByTier :: "price list \<Rightarrow> price list" where
  "deduplicatePricesByTier prices = snd (fold tier_step prices ([], []))"

text \<open>The prices of a product that stay: authoritative ones, and others whose slot has no authoritative one.\<close>

definition covered :: "price list \<Rightarrow> bool list \<Rightarrow> string set" where
  "covered prices flags = azurePriceSlot ` set (map fst (filter snd (zip prices flags)))"

definition kept_prices :: "price list \<Rightarrow> bool list \<Rightarrow> price list" where
  "kept_prices prices flags =
     map fst (filter (\<lambda>(pr, flag). flag \<or> azurePriceSlot pr \<notin> covered prices flags) (zip prices flags))"

definition finish_product :: "azureProductBuilder \<Rightarrow> string \<times> product \<Rightarrow> product" where
  "finish_product b kp =
     (case kp of (key, p) \<Rightarrow>
        let flags = (case map_of (primary b) key of Some flags \<Rightarrow> flags | None \<Rightarrow> []) in
        p\<lparr>p_prices := kept_prices (p_prices p) flags\<rparr>)"

definition dedup_product :: "product \<Rightarrow> product" where
  "dedup_product p =
     (if isVirtualRegion (p_region p) then p\<lparr>p_prices := deduplicatePricesByTier (p_prices p)\<rparr>
      else p\<lparr>p_prices := deduplicatePrices (p_prices p)\<rparr>)"

definition builder_products ::
  "((string \<times> product) list \<Rightarrow> (string \<times> product) list) \<Rightarrow> azureProductBuilder \<Rightarrow> product list" where
  "builder_products it b =
     map dedup_product
       (dedup_from p_hash [] (filter (\<lambda>p. p_prices p \<noteq> []) (map (finish_product b) (it (byKey b)))))"

subsection \<open>The scraper\<close>

definition azureBaseURL :: string where "azureBaseURL = ''https://prices.azure.com/api/retail/prices''"

text \<open>The body is read up to a limit; an error of the connection after it is not noticed.\<close>

definition azure_body_limit :: nat where "azure_body_limit = 100 * 1024 * 1024"

definition azure_attempt :: "string \<Rightarrow> wire \<Rightarrow> azureResponse attempt" where
  "azure_attempt pageURL w =
     (case send pageURL w of
        (BadURL e, ended, w) \<Rightarrow> (Inr (''create request: '' @ e, False), ended, w)
      | (NoReply e, ended, w) \<Rightarrow> (Inr (''fetch: '' @ e, True), ended, w)
      | (Reply status body err, ended, w) \<Rightarrow>
          if status \<noteq> 200 then (Inr (''HTTP '' @ show_nat status @ '': '' @ take 4096 body, True), ended, w)
          else
            (case (if length body < azure_body_limit then err else None) of
               Some e \<Rightarrow> (Inr (''read body: '' @ e, False), ended, w)
             | None \<Rightarrow>
                 (let body = take azure_body_limit body in
                  if body \<noteq> [] \<and> hd body \<noteq> CHR ''{'' then (Inr (''non-JSON response'', True), ended, w)
                  else (case decode_azure body of
                          Some resp \<Rightarrow> (Inl resp, ended, w)
                        | None \<Rightarrow> (Inr (''decode'', True), ended, w)))))"

text \<open>A page that was fetched waits for the rate limiter, which fails when the context has ended.\<close>

definition azure_fetchPage :: "string \<Rightarrow> wire \<Rightarrow> (string + azureResponse) \<times> wire" where
  "azure_fetchPage pageURL w =
     (case retryWithBackoff (azure_attempt pageURL) 5 w of
        (Inl e, w) \<Rightarrow> (Inl e, w)
      | (Inr (resp, ended), w) \<Rightarrow> (case ended of Some e \<Rightarrow> (Inl e, w) | None \<Rightarrow> (Inr resp, w)))"

lemma azure_attempt_one: "one_request (azure_attempt pageURL)"
  unfolding one_request_def
proof
  fix w
  show "case azure_attempt pageURL w of (r, ended, w') \<Rightarrow> w' = drop 1 w \<and> (isl r \<longrightarrow> w \<noteq> [])"
    by (cases w) (auto simp: azure_attempt_def send_def Let_def split: reply.splits prod.splits option.splits)
qed

function azure_pages :: "string \<Rightarrow> string \<Rightarrow> wire \<Rightarrow> azureProductBuilder \<Rightarrow> string + azureProductBuilder" where
  "azure_pages serviceName pageURL w b =
     (if pageURL = '''' then Inr b
      else
        (case azure_fetchPage pageURL w of
           (Inl e, w') \<Rightarrow>
             Inl (''pagination error for '' @ serviceName @ '' after '' @ show_nat (builder_count b) @ '' products: '' @ e)
         | (Inr resp, w') \<Rightarrow> azure_pages serviceName (ar_NextPageLink resp) w' (fold add_item (ar_Items resp) b)))"
  by pat_completeness auto
termination
proof (relation "measure (\<lambda>(n, u, w, b). length w)")
  fix n u w b r w' resp
  assume "(r, w') = azure_fetchPage u w" "r = Inr resp"
  then obtain ended where "retryWithBackoff (azure_attempt u) 5 w = (Inr (resp, ended), w')"
    by (auto simp: azure_fetchPage_def split: prod.splits sum.splits option.splits)
  from retry_success [OF azure_attempt_one this]
  show "((n, ar_NextPageLink resp, w', fold add_item (ar_Items resp) b), (n, u, w, b)) \<in> measure (\<lambda>(n, u, w, b). length w)"
    by simp
qed simp

declare azure_pages.simps [simp del]

definition azure_first_url :: "string \<Rightarrow> string" where
  "azure_first_url serviceName =
     azureBaseURL @ ''?$filter='' @ QueryEscape (''serviceName eq '' @ [CHR 0x27] @ replace_all [CHR 0x27] [CHR 0x27, CHR 0x27] serviceName @ [CHR 0x27])"

definition azure_scrapeService ::
  "((string \<times> product) list \<Rightarrow> (string \<times> product) list) \<Rightarrow> string \<Rightarrow> wire \<Rightarrow> string + product list" where
  "azure_scrapeService it serviceName w =
     map_sum id (builder_products it) (azure_pages serviceName (azure_first_url serviceName) w newAzureProductBuilder)"

definition azureServices :: "string list" where
  "azureServices =
     [''Virtual Machines'', ''Azure App Service'', ''Functions'', ''Azure Kubernetes Service'',
      ''Container Instances'', ''Azure Databricks'', ''Storage'', ''Backup'', ''SQL Database'',
      ''SQL Managed Instance'', ''Azure Database for PostgreSQL'', ''Azure Database for MySQL'',
      ''Azure Database for MariaDB'', ''Azure Cosmos DB'', ''Azure Synapse Analytics'', ''Redis Cache'',
      ''Load Balancer'', ''VPN Gateway'', ''Virtual WAN'', ''Azure DNS'', ''Azure Firewall'',
      ''Application Gateway'', ''Azure Front Door Service'', ''Content Delivery Network'', ''Traffic Manager'',
      ''Virtual Network'', ''NAT Gateway'', ''Azure Bastion'', ''Azure DDOS Protection'', ''Network Watcher'',
      ''HDInsight'', ''Azure Data Factory v2'', ''Azure Cognitive Search'', ''Cognitive Services'',
      ''Power BI Embedded'', ''Azure Monitor'', ''Log Analytics'', ''Application Insights'', ''Automation'',
      ''Microsoft Defender for Cloud'', ''Advanced Threat Protection'', ''Key Vault'', ''API Management'',
      ''Service Bus'', ''Event Hubs'', ''Event Grid'', ''Logic Apps'', ''SignalR'', ''Notification Hubs'',
      ''Azure Active Directory for External Identities'', ''Microsoft Entra Domain Services'',
      ''Container Registry'', ''App Configuration'', ''IoT Hub'', ''ExpressRoute'', ''Azure NetApp Files'',
      ''Stream Analytics'', ''Azure Analysis Services'', ''Azure Data Explorer'', ''Azure Spring Cloud'',
      ''Azure Purview'', ''Azure Grafana Service'', ''Digital Twins'', ''Azure Site Recovery'',
      ''Azure Machine Learning'', ''Sentinel'', ''Azure Maps'', ''Azure Container Apps'',
      ''Azure API for FHIR'', ''Time Series Insights'', ''Azure Sphere'', ''Azure Lab Services'']"

text \<open>
  What a scrape meets: the wire of each service, when the parent context ends, the order in which the goroutines
  get to their outcome, and the order in which the products of a service are collected.
\<close>

record azure_world =
  aw_wire :: "string \<Rightarrow> wire"
  aw_ended :: "string \<Rightarrow> string option"
  aw_order :: "string list \<Rightarrow> string list"
  aw_it :: "string \<Rightarrow> (string \<times> product) list \<Rightarrow> (string \<times> product) list"

definition azure_outcome :: "azure_world \<Rightarrow> string \<Rightarrow> string + product list" where
  "azure_outcome aw svc = azure_scrapeService (aw_it aw svc) svc (aw_wire aw svc)"

definition AzureScraper :: "azure_world \<Rightarrow> scraper" where
  "AzureScraper aw =
     \<lparr>sc_name = ''Azure'',
      sc_scrape = (\<lambda>h s.
        let g = group_from h (\<lambda>svc. ''upsert azure '' @ svc) (aw_ended aw) (azure_outcome aw)
                  (aw_order aw azureServices) (group_init s)
        in (gr_err g, gr_failed g, gr_state g))\<rparr>"

end
