(* ===== verification/Azure_Properties.thy ===== *)
theory Azure_Properties
  imports Azure Scraper_Contract Run_Effect "HOL-Library.Multiset"
begin

text \<open>
  What the Azure scraper guarantees: which prices of the price list a product keeps, and the interface of a
  scraper. The reference of the builder is the list of its rows, one for each item and region.
\<close>

subsection \<open>The builder and its rows\<close>

definition item_rows :: "azureItem list \<Rightarrow> (azureItem \<times> string) list" where
  "item_rows items = concat (map (\<lambda>i. map (Pair i) (azureProductRegions i)) items)"

definition rows_of :: "string \<Rightarrow> (azureItem \<times> string) list \<Rightarrow> (azureItem \<times> string) list" where
  "rows_of key rows = filter (\<lambda>(i, r). product_key i r = key) rows"

definition built :: "azureItem list \<Rightarrow> azureProductBuilder" where
  "built items = fold add_item items newAzureProductBuilder"

text \<open>The product of a key: that of its first row, with a price for each row.\<close>

definition row_product :: "(azureItem \<times> string) list \<Rightarrow> product" where
  "row_product rows =
     (case rows of (i, r) # _ \<Rightarrow> (new_product i r)\<lparr>p_prices := map (item_price (p_hash (new_product i r)) \<circ> fst) rows\<rparr>)"

lemma built_rows: "built items = fold (\<lambda>(i, r). add_region i r) (item_rows items) newAzureProductBuilder"
proof -
  have "fold (add_region i) rs b = fold (\<lambda>(i, r). add_region i r) (map (Pair i) rs) b" for i rs b
    by (induction rs arbitrary: b) simp_all
  then have "fold add_item items b = fold (\<lambda>(i, r). add_region i r) (item_rows items) b" for b
    by (induction items arbitrary: b) (simp_all add: item_rows_def add_item_def)
  then show ?thesis by (simp add: built_def)
qed

lemma rows_of_snoc:
  "rows_of key (rows @ [(i, r)]) = rows_of key rows @ (if product_key i r = key then [(i, r)] else [])"
  by (simp add: rows_of_def)

lemma row_product_snoc:
  "rows \<noteq> [] \<Longrightarrow> row_product (rows @ [(i, r)])
     = (row_product rows)\<lparr>p_prices := p_prices (row_product rows) @ [item_price (p_hash (row_product rows)) i]\<rparr>"
  by (cases rows) (auto simp: row_product_def)

lemma builder_rows:
  fixes rows
  defines "b \<equiv> fold (\<lambda>(i, r). add_region i r) rows newAzureProductBuilder"
  shows "map_of (byKey b) key = (if rows_of key rows = [] then None else Some (row_product (rows_of key rows)))
    \<and> map_of (primary b) key
      = (if rows_of key rows = [] then None else Some (map (authoritative \<circ> fst) (rows_of key rows)))
    \<and> distinct (map fst (byKey b))"
  unfolding b_def
proof (induction rows arbitrary: key rule: rev_induct)
  case Nil
  show ?case by (simp add: newAzureProductBuilder_def rows_of_def)
next
  case (snoc x rows)
  obtain i r where x: "x = (i, r)" by fastforce
  let ?b = "fold (\<lambda>(i, r). add_region i r) rows newAzureProductBuilder" and ?k = "product_key i r"
  have new: "row_product [(i, r)] = (new_product i r)\<lparr>p_prices := [item_price (p_hash (new_product i r)) i]\<rparr>"
    by (simp add: row_product_def)
  have p0: "p_prices (new_product i r) = []" by (simp add: new_product_def Let_def)
  show ?case
    using snoc.IH [of key] snoc.IH [of ?k]
    by (auto simp: x add_region_def Let_def update_conv' rows_of_snoc row_product_snoc new p0 distinct_update)
qed

subsection \<open>Deduplication\<close>

text \<open>One price per tier is left, the cheapest of it.\<close>

definition tier_inv :: "price list \<Rightarrow> (string \<times> nat) list \<times> price list \<Rightarrow> bool" where
  "tier_inv ps st \<longleftrightarrow>
     (case st of (seen, result) \<Rightarrow>
        (\<forall>t i. map_of seen t = Some i \<longleftrightarrow> i < length result \<and> price_tier (result ! i) = t)
        \<and> (\<forall>x \<in> set result. x \<in> set ps \<and> (\<forall>q \<in> set ps. price_tier q = price_tier x \<longrightarrow> usd_value x \<le> usd_value q))
        \<and> price_tier ` set result = price_tier ` set ps)"

lemma tier_inv_new:
  assumes "tier_inv ps (seen, result)" "map_of seen (price_tier p) = None"
  shows "tier_inv (ps @ [p]) (tier_step p (seen, result))"
proof -
  have A: "map_of seen t = Some i \<longleftrightarrow> i < length result \<and> price_tier (result ! i) = t" for t i
    using assms(1) by (simp add: tier_inv_def)
  have n: "price_tier p \<notin> price_tier ` set result"
  proof
    assume "price_tier p \<in> price_tier ` set result"
    then obtain i where "i < length result" "price_tier (result ! i) = price_tier p" by (metis imageE in_set_conv_nth)
    with A [of "price_tier p" i] assms(2) show False by simp
  qed
  with assms(1) have m: "price_tier p \<notin> price_tier ` set ps" by (simp add: tier_inv_def)
  have "map_of ((price_tier p, length result) # seen) t = Some i
      \<longleftrightarrow> i < length (result @ [p]) \<and> price_tier ((result @ [p]) ! i) = t" for t i
    using A [of t i] n assms(2) by (auto simp: nth_append less_Suc_eq)
  moreover have "usd_value x \<le> usd_value q"
    if "x \<in> set (result @ [p])" "q \<in> set (ps @ [p])" "price_tier q = price_tier x" for x q
    using that assms(1) n m by (auto simp: tier_inv_def image_iff)
  ultimately show ?thesis using assms by (auto simp: tier_inv_def tier_step_def)
qed

lemma tier_inv_seen:
  assumes "tier_inv ps (seen, result)" "map_of seen (price_tier p) = Some idx"
  shows "tier_inv (ps @ [p]) (tier_step p (seen, result))"
proof -
  have A: "map_of seen t = Some i \<longleftrightarrow> i < length result \<and> price_tier (result ! i) = t" for t i
    using assms(1) by (simp add: tier_inv_def)
  have B: "x \<in> set result \<Longrightarrow> x \<in> set ps \<and> (\<forall>q \<in> set ps. price_tier q = price_tier x \<longrightarrow> usd_value x \<le> usd_value q)" for x
    using assms(1) by (simp add: tier_inv_def)
  have i: "idx < length result" "price_tier (result ! idx) = price_tier p" using A assms(2) by auto
  define res where "res = (if usd_value p < usd_value (result ! idx) then result[idx := p] else result)"
  have s: "tier_step p (seen, result) = (seen, res)" using assms(2) by (simp add: tier_step_def res_def)
  have tiers: "map price_tier res = map price_tier result"
    using i by (auto simp: res_def map_update intro: list_update_id [THEN trans]) (metis list_update_id nth_map)
  have len: "length res = length result" by (simp add: res_def)
  have tn: "j < length result \<Longrightarrow> price_tier (res ! j) = price_tier (result ! j)" for j
    using tiers len by (metis nth_map)
  have A': "map_of seen t = Some j \<longleftrightarrow> j < length res \<and> price_tier (res ! j) = t" for t j
    using A [of t j] tn [of j] len by auto
  have here: "res ! idx \<in> set (ps @ [p])" "usd_value (res ! idx) \<le> usd_value p"
    "\<And>q. q \<in> set ps \<Longrightarrow> price_tier q = price_tier p \<Longrightarrow> usd_value (res ! idx) \<le> usd_value q"
    using B [of "result ! idx"] i by (auto simp: res_def dest: order.trans [OF less_imp_le])
  have else_where: "res ! j \<in> set result" "price_tier (res ! j) \<noteq> price_tier p" if "j < length res" "j \<noteq> idx" for j
    using that A' [of "price_tier p" j] assms(2) by (auto simp: res_def split: if_splits)
  have best: "x \<in> set (ps @ [p]) \<and> (\<forall>q \<in> set (ps @ [p]). price_tier q = price_tier x \<longrightarrow> usd_value x \<le> usd_value q)"
    if x: "x \<in> set res" for x
  proof -
    obtain j where j: "j < length res" "x = res ! j" using x by (auto simp: in_set_conv_nth)
    show ?thesis
    proof (cases "j = idx")
      case True
      then show ?thesis using j here tn [OF i(1)] i(2) by auto
    next
      case False
      then show ?thesis using j else_where [OF j(1) False] B [of x] by auto
    qed
  qed
  have "price_tier p \<in> price_tier ` set ps" using i assms(1) by (metis (no_types, lifting) image_eqI nth_mem prod.case tier_inv_def)
  moreover have "price_tier ` set res = price_tier ` set result" using tiers by (metis set_map)
  ultimately have "price_tier ` set res = price_tier ` set (ps @ [p])" using assms(1) by (auto simp: tier_inv_def)
  with A' best show ?thesis unfolding s tier_inv_def prod.case by blast
qed

lemma tier_inv_step: "tier_inv ps st \<Longrightarrow> tier_inv (ps @ [p]) (tier_step p st)"
  using tier_inv_new tier_inv_seen by (cases st; cases "map_of (fst st) (price_tier p)") fastforce+

lemma tier_inv_fold: "tier_inv ps (fold tier_step ps ([], []))"
proof (induction ps rule: rev_induct)
  case Nil
  show ?case by (simp add: tier_inv_def)
next
  case (snoc p ps)
  then show ?case by (simp add: tier_inv_step)
qed

lemma deduplicatePricesByTier_lowest:
  "distinct (map price_tier (deduplicatePricesByTier ps))"
  "set (deduplicatePricesByTier ps) \<subseteq> set ps"
  "price_tier ` set (deduplicatePricesByTier ps) = price_tier ` set ps"
  "x \<in> set (deduplicatePricesByTier ps) \<Longrightarrow> q \<in> set ps \<Longrightarrow> price_tier q = price_tier x \<Longrightarrow> usd_value x \<le> usd_value q"
proof -
  obtain seen result where st: "fold tier_step ps ([], []) = (seen, result)" by fastforce
  have r: "deduplicatePricesByTier ps = result" by (simp add: deduplicatePricesByTier_def st)
  note inv = tier_inv_fold [of ps, unfolded st tier_inv_def prod.case]
  show "distinct (map price_tier (deduplicatePricesByTier ps))"
    unfolding r distinct_conv_nth using inv by (metis length_map nth_map option.inject)
  show "set (deduplicatePricesByTier ps) \<subseteq> set ps" using inv r by blast
  show "price_tier ` set (deduplicatePricesByTier ps) = price_tier ` set ps" using inv r by blast
  show "x \<in> set (deduplicatePricesByTier ps) \<Longrightarrow> q \<in> set ps \<Longrightarrow> price_tier q = price_tier x \<Longrightarrow> usd_value x \<le> usd_value q"
    using inv r by blast
qed

subsection \<open>The products of a service\<close>

definition row_price :: "string \<Rightarrow> azureItem \<times> string \<Rightarrow> price" where
  "row_price h row = item_price h (fst row)"

definition row_slot :: "azureItem \<times> string \<Rightarrow> string" where
  "row_slot row = azurePriceSlot (row_price [] row)"

text \<open>A row stays when it is authoritative, or when no authoritative row prices its slot.\<close>

definition kept_rows :: "(azureItem \<times> string) list \<Rightarrow> (azureItem \<times> string) list" where
  "kept_rows rows =
     filter (\<lambda>row. authoritative (fst row) \<or> (\<forall>other \<in> set rows. authoritative (fst other) \<longrightarrow> row_slot other \<noteq> row_slot row)) rows"

lemma slot_hash: "azurePriceSlot (row_price h row) = row_slot row"
  by (simp add: row_slot_def row_price_def azurePriceSlot_def item_price_def Let_def)

lemma kept_prices_rows:
  "kept_prices (map (row_price h) rows) (map (authoritative \<circ> fst) rows) = map (row_price h) (kept_rows rows)"
proof -
  have z: "zip (map f xs) (map g xs) = map (\<lambda>x. (f x, g x)) xs" for f :: "'a \<Rightarrow> 'b" and g :: "'a \<Rightarrow> 'c" and xs
    by (induction xs) simp_all
  have im: "y \<notin> f ` {x \<in> S. P x} \<longleftrightarrow> (\<forall>x \<in> S. P x \<longrightarrow> f x \<noteq> y)" for y :: 'b and f :: "'a \<Rightarrow> 'b" and S P by auto
  have c: "covered (map (row_price h) rows) (map (authoritative \<circ> fst) rows)
      = row_slot ` {row \<in> set rows. authoritative (fst row)}"
    unfolding covered_def z by (auto simp: filter_map comp_def image_image slot_hash)
  have "filter (\<lambda>row. authoritative (fst row) \<or> row_slot row \<notin> row_slot ` {row \<in> set rows. authoritative (fst row)}) rows
      = kept_rows rows"
    by (simp add: kept_rows_def im)
  then show ?thesis
    unfolding kept_prices_def c unfolding z by (simp add: filter_map comp_def slot_hash)
qed

lemma kept_rows_nonempty: "rows \<noteq> [] \<Longrightarrow> kept_rows rows \<noteq> []"
  by (cases "\<exists>row \<in> set rows. authoritative (fst row)") (auto simp: kept_rows_def filter_empty_conv)

lemma kept_rows_subset: "set (kept_rows rows) \<subseteq> set rows"
  by (auto simp: kept_rows_def)

lemma kept_rows_slots: "row_slot ` set (kept_rows rows) = row_slot ` set rows"
proof
  show "row_slot ` set rows \<subseteq> row_slot ` set (kept_rows rows)"
  proof
    fix s
    assume "s \<in> row_slot ` set rows"
    then obtain x where x: "x \<in> set rows" "s = row_slot x" by auto
    show "s \<in> row_slot ` set (kept_rows rows)"
    proof (cases "\<exists>y \<in> set rows. authoritative (fst y) \<and> row_slot y = s")
      case True
      then obtain y where "y \<in> set rows" "authoritative (fst y)" "row_slot y = s" by auto
      then show ?thesis by (auto simp: kept_rows_def intro!: image_eqI [of _ _ y])
    next
      case False
      with x show ?thesis by (auto simp: kept_rows_def intro!: image_eqI [of _ _ x])
    qed
  qed
qed (auto simp: kept_rows_def)

lemma row_product_prices: "rows \<noteq> [] \<Longrightarrow> p_prices (row_product rows) = map (row_price (p_hash (row_product rows))) rows"
  by (cases rows) (auto simp: row_product_def row_price_def)

definition keys_of :: "azureItem list \<Rightarrow> string set" where
  "keys_of items = (\<lambda>(i, r). product_key i r) ` set (item_rows items)"

lemma keys_of_rows: "key \<in> keys_of items \<longleftrightarrow> rows_of key (item_rows items) \<noteq> []"
  by (auto simp: keys_of_def rows_of_def filter_empty_conv)

text \<open>A finished product before deduplication: that of its rows, with the prices of the kept ones.\<close>

definition kept_product :: "(azureItem \<times> string) list \<Rightarrow> product" where
  "kept_product rows = (row_product rows)\<lparr>p_prices := map (row_price (p_hash (row_product rows))) (kept_rows rows)\<rparr>"

lemma finished:
  assumes "(key, p) \<in> set (byKey (built items))"
  shows "key \<in> keys_of items \<and> finish_product (built items) (key, p) = kept_product (rows_of key (item_rows items))"
proof -
  note b = builder_rows [of "item_rows items" key, folded built_rows]
  have "map_of (byKey (built items)) key = Some p"
    by (rule map_of_is_SomeI [OF conjunct2 [OF conjunct2 [OF b]] assms])
  with b have R: "rows_of key (item_rows items) \<noteq> []" "p = row_product (rows_of key (item_rows items))"
    by (auto split: if_splits)
  with b show ?thesis
    by (simp add: keys_of_rows finish_product_def kept_product_def row_product_prices kept_prices_rows)
qed

lemma finished_set:
  assumes "mset (it (byKey (built items))) = mset (byKey (built items))"
  shows "set (map (finish_product (built items)) (it (byKey (built items))))
      = (\<lambda>key. kept_product (rows_of key (item_rows items))) ` keys_of items"
proof -
  have s: "set (it (byKey (built items))) = set (byKey (built items))" using assms by (metis set_mset_mset)
  have "\<exists>p. (key, p) \<in> set (byKey (built items))" if "key \<in> keys_of items" for key
    using that builder_rows [of "item_rows items" key, folded built_rows]
    by (auto simp: keys_of_rows dest: map_of_SomeD)
  then show ?thesis unfolding set_map s using finished by (force simp: image_iff)
qed

lemma builder_products_kept:
  assumes "mset (it (byKey (built items))) = mset (byKey (built items))"
  shows "distinct (map p_hash (builder_products it (built items)))"
    and "p_hash ` set (builder_products it (built items))
      = (\<lambda>key. p_hash (row_product (rows_of key (item_rows items)))) ` keys_of items"
    and "p \<in> set (builder_products it (built items)) \<Longrightarrow>
      \<exists>key \<in> keys_of items. p = dedup_product (kept_product (rows_of key (item_rows items)))"
proof -
  let ?ps = "map (finish_product (built items)) (it (byKey (built items)))"
  have h: "p_hash (dedup_product q) = p_hash q" for q by (simp add: dedup_product_def)
  have n: "p_prices q \<noteq> []" if "q \<in> set ?ps" for q
    using that unfolding finished_set [where it = it, OF assms]
    by (auto simp: kept_product_def keys_of_rows kept_rows_nonempty)
  have f: "filter (\<lambda>p. p_prices p \<noteq> []) ?ps = ?ps" using n by (simp add: filter_id_conv)
  have b: "builder_products it (built items) = map dedup_product (dedup_from p_hash [] ?ps)"
    unfolding builder_products_def f ..
  show "distinct (map p_hash (builder_products it (built items)))"
    unfolding b map_map comp_def h by (rule dedup_from_distinct)
  have k: "p_hash (kept_product rows) = p_hash (row_product rows)" for rows by (simp add: kept_product_def)
  show "p_hash ` set (builder_products it (built items))
      = (\<lambda>key. p_hash (row_product (rows_of key (item_rows items)))) ` keys_of items"
  proof -
    have "p_hash ` set ?ps = (\<lambda>key. p_hash (row_product (rows_of key (item_rows items)))) ` keys_of items"
      unfolding finished_set [where it = it, OF assms] image_image k ..
    then show ?thesis unfolding b set_map image_image h dedup_from_keys by simp
  qed
  assume "p \<in> set (builder_products it (built items))"
  then obtain q where "q \<in> set (dedup_from p_hash [] ?ps)" "p = dedup_product q" unfolding b by auto
  then have "q \<in> set ?ps" by (rule_tac subsetD [OF dedup_from_subset])
  with finished_set [where it = it, OF assms] \<open>p = dedup_product q\<close>
  show "\<exists>key \<in> keys_of items. p = dedup_product (kept_product (rows_of key (item_rows items)))" by auto
qed

text \<open>The key of the code's \<open>deduplicatePrices\<close>: everything a price says but its description.\<close>

definition price_key_text :: "price \<Rightarrow> string" where
  "price_key_text p =
     pr_purchaseOption p @ ''|'' @ pr_unit p @ ''|'' @ pr_startUsage p @ ''|'' @ pr_USD p @ ''|'' @ pr_termLength p"

lemma dedup_product_header:
  "dedup_product (kept_product rows) = (row_product rows)\<lparr>p_prices := p_prices (dedup_product (kept_product rows))\<rparr>"
  by (simp add: dedup_product_def kept_product_def)

text \<open>What deduplication leaves of the prices of the kept rows, outside and inside the virtual regions.\<close>

lemma dedup_product_prices:
  fixes rows
  defines "p \<equiv> dedup_product (kept_product rows)" and "price \<equiv> row_price (p_hash (dedup_product (kept_product rows)))"
  shows "set (p_prices p) \<subseteq> price ` set (kept_rows rows)"
    and "\<not> isVirtualRegion (p_region p) \<Longrightarrow>
      distinct (map price_key_text (p_prices p))
      \<and> price_key_text ` set (p_prices p) = price_key_text ` price ` set (kept_rows rows)"
    and "isVirtualRegion (p_region p) \<Longrightarrow>
      distinct (map price_tier (p_prices p))
      \<and> price_tier ` set (p_prices p) = price_tier ` price ` set (kept_rows rows)
      \<and> (\<forall>x \<in> set (p_prices p). \<forall>y \<in> price ` set (kept_rows rows). price_tier y = price_tier x \<longrightarrow> usd_value x \<le> usd_value y)"
proof -
  let ?ps = "map price (kept_rows rows)"
  have h: "price = row_price (p_hash (row_product rows))" "p_region p = p_region (row_product rows)"
    unfolding price_def p_def by (simp_all add: dedup_product_def kept_product_def)
  have v: "p_prices p = deduplicatePricesByTier ?ps" if "isVirtualRegion (p_region p)"
    using that unfolding h unfolding p_def by (simp add: dedup_product_def kept_product_def)
  have o: "p_prices p = dedup_from price_key_text [] ?ps" if "\<not> isVirtualRegion (p_region p)"
    using that unfolding h unfolding p_def
    by (simp add: dedup_product_def kept_product_def deduplicatePrices_def price_key_text_def [abs_def])
  note low = deduplicatePricesByTier_lowest [where ps = ?ps, unfolded set_map]
  show "set (p_prices p) \<subseteq> price ` set (kept_rows rows)"
    using v o low(2) dedup_from_subset [of price_key_text "[]" ?ps] by (cases "isVirtualRegion (p_region p)") auto
  show "distinct (map price_key_text (p_prices p))
      \<and> price_key_text ` set (p_prices p) = price_key_text ` price ` set (kept_rows rows)" if "\<not> isVirtualRegion (p_region p)"
    unfolding o [OF that] dedup_from_keys by (simp add: dedup_from_distinct)
  show "distinct (map price_tier (p_prices p))
      \<and> price_tier ` set (p_prices p) = price_tier ` price ` set (kept_rows rows)
      \<and> (\<forall>x \<in> set (p_prices p). \<forall>y \<in> price ` set (kept_rows rows). price_tier y = price_tier x \<longrightarrow> usd_value x \<le> usd_value y)"
    if "isVirtualRegion (p_region p)"
    unfolding v [OF that] by (intro conjI ballI impI low) assumption+
qed

text \<open>Slots and tiers are compared as joined text; texts without the separator are read back from it.\<close>

definition plain_row :: "azureItem \<times> string \<Rightarrow> bool" where
  "plain_row row \<longleftrightarrow>
     CHR ''|'' \<notin> set (az_Type (fst row)) \<union> set (az_UnitOfMeasure (fst row)) \<union> set (az_ReservationTerm (fst row))"

lemma first_bar: "b \<notin> set u \<Longrightarrow> b \<notin> set v \<Longrightarrow> u @ b # r = v @ b # t \<Longrightarrow> u = v \<and> r = t"
proof (induction u arbitrary: v)
  case Nil
  then show ?case by (cases v) auto
next
  case (Cons x u)
  then show ?case by (cases v) auto
qed

lemma last_bar: "b \<notin> set r \<Longrightarrow> b \<notin> set t \<Longrightarrow> u @ b # r = v @ b # t \<Longrightarrow> u = v \<and> r = t"
proof -
  assume a: "b \<notin> set r" "b \<notin> set t" "u @ b # r = v @ b # t"
  have "rev (u @ b # r) = rev (v @ b # t)" by (simp only: a(3))
  then have "rev r @ b # rev u = rev t @ b # rev v" by simp
  from first_bar [OF _ _ this] a(1,2) show ?thesis by simp
qed

lemma no_bar_usd: "CHR ''|'' \<notin> set (format_10f x)"
proof -
  have "CHR ''|'' \<notin> set (show_nat n)" for n using show_nat_digits [of "CHR ''|''" n] by (auto simp: digit_val_def)
  moreover have "CHR ''|'' \<noteq> digit_char (m mod 10)" for m
  proof
    assume "CHR ''|'' = digit_char (m mod 10)"
    then have "digit_val (CHR ''|'') = Some (m mod 10)" using digit_val_char [of "m mod 10"] by simp
    then show False by (simp add: digit_val_def)
  qed
  ultimately show ?thesis by (auto simp: format_10f_def format_fixed_def low_digits_def Let_def)
qed

lemma row_price_texts:
  "price_key_text (row_price h row) = az_Type (fst row) @ CHR ''|'' # az_UnitOfMeasure (fst row) @ CHR ''|''
     # (pr_startUsage (row_price [] row) @ CHR ''|'' # format_10f (az_RetailPrice (fst row))) @ CHR ''|'' # az_ReservationTerm (fst row)"
  "row_slot row = az_Type (fst row) @ CHR ''|'' # az_UnitOfMeasure (fst row) @ CHR ''|''
     # pr_startUsage (row_price [] row) @ CHR ''|'' # az_ReservationTerm (fst row)"
  "price_tier (row_price h row) = az_Type (fst row) @ CHR ''|'' # pr_startUsage (row_price [] row) @ CHR ''|'' # az_ReservationTerm (fst row)"
  by (simp_all add: price_key_text_def row_slot_def azurePriceSlot_def price_tier_def row_price_def item_price_def Let_def)

lemma same_key_slot:
  assumes "plain_row r" "plain_row s" "price_key_text (row_price h r) = price_key_text (row_price h s)"
  shows "row_slot r = row_slot s"
proof -
  have p: "CHR ''|'' \<notin> set (az_Type (fst r))" "CHR ''|'' \<notin> set (az_Type (fst s))"
    "CHR ''|'' \<notin> set (az_UnitOfMeasure (fst r))" "CHR ''|'' \<notin> set (az_UnitOfMeasure (fst s))"
    "CHR ''|'' \<notin> set (az_ReservationTerm (fst r))" "CHR ''|'' \<notin> set (az_ReservationTerm (fst s))"
    using assms(1,2) by (simp_all add: plain_row_def)
  note 1 = first_bar [OF p(1,2) assms(3) [unfolded row_price_texts]]
  note 2 = first_bar [OF p(3,4) conjunct2 [OF 1]]
  note 3 = last_bar [OF p(5,6) conjunct2 [OF 2]]
  note 4 = last_bar [OF no_bar_usd no_bar_usd conjunct1 [OF 3]]
  show ?thesis using 1 2 3 4 by (simp add: row_price_texts)
qed

lemma same_slot_tier:
  assumes "plain_row r" "plain_row s" "row_slot r = row_slot s"
  shows "price_tier (row_price h r) = price_tier (row_price h s)"
proof -
  have p: "CHR ''|'' \<notin> set (az_Type (fst r))" "CHR ''|'' \<notin> set (az_Type (fst s))"
    "CHR ''|'' \<notin> set (az_UnitOfMeasure (fst r))" "CHR ''|'' \<notin> set (az_UnitOfMeasure (fst s))"
    "CHR ''|'' \<notin> set (az_ReservationTerm (fst r))" "CHR ''|'' \<notin> set (az_ReservationTerm (fst s))"
    using assms(1,2) by (simp_all add: plain_row_def)
  note 1 = first_bar [OF p(1,2) assms(3) [unfolded row_price_texts]]
  note 2 = first_bar [OF p(3,4) conjunct2 [OF 1]]
  note 3 = last_bar [OF p(5,6) conjunct2 [OF 2]]
  show ?thesis using 1 2 3 by (simp add: row_price_texts)
qed

text \<open>What is stored covers every slot of the rows outside the virtual regions, and every tier inside.\<close>

lemma stored_prices_cover:
  fixes rows
  defines "p \<equiv> dedup_product (kept_product rows)"
  assumes "list_all plain_row rows"
  shows "if isVirtualRegion (p_region p)
    then price_tier ` set (p_prices p) = (\<lambda>row. price_tier (row_price (p_hash p) row)) ` set rows
    else azurePriceSlot ` set (p_prices p) = row_slot ` set rows"
proof (cases "isVirtualRegion (p_region p)")
  case True
  have "price_tier (row_price h row) \<in> (\<lambda>row. price_tier (row_price h row)) ` set (kept_rows rows)" if r: "row \<in> set rows" for h row
  proof -
    have "row_slot row \<in> row_slot ` set (kept_rows rows)" unfolding kept_rows_slots using r by (rule imageI)
    then obtain k where k: "row_slot row = row_slot k" "k \<in> set (kept_rows rows)" by (rule imageE)
    have "k \<in> set rows" using k(2) kept_rows_subset by blast
    with assms(2) r have "plain_row row" "plain_row k" by (auto simp: list_all_iff)
    then have "price_tier (row_price h row) = price_tier (row_price h k)" using k(1) by (rule same_slot_tier)
    then show ?thesis using k(2) by (rule image_eqI)
  qed
  with kept_rows_subset [of rows] have "(\<lambda>row. price_tier (row_price h row)) ` set (kept_rows rows)
      = (\<lambda>row. price_tier (row_price h row)) ` set rows" for h by blast
  with True dedup_product_prices(3) [of rows, folded p_def] show ?thesis by (simp add: image_image)
next
  case False
  note d = dedup_product_prices(1,2) [of rows, folded p_def]
  have "row_slot k \<in> azurePriceSlot ` set (p_prices p)" if k: "k \<in> set (kept_rows rows)" for k
  proof -
    have "price_key_text (row_price (p_hash p) k) \<in> price_key_text ` set (p_prices p)" using d(2) False k by auto
    then obtain x where x: "x \<in> set (p_prices p)" "price_key_text x = price_key_text (row_price (p_hash p) k)" by auto
    with d(1) obtain m where m: "m \<in> set (kept_rows rows)" "x = row_price (p_hash p) m" by auto
    have "row_slot m = row_slot k"
      by (rule same_key_slot [where h = "p_hash p"]) (use assms(2) m k x(2) kept_rows_subset [of rows] in \<open>auto simp: list_all_iff\<close>)
    with x(1) m(2) show ?thesis by (metis imageI slot_hash)
  qed
  moreover have "azurePriceSlot x \<in> row_slot ` set (kept_rows rows)" if "x \<in> set (p_prices p)" for x
    using that d(1) slot_hash by fastforce
  ultimately have "azurePriceSlot ` set (p_prices p) = row_slot ` set (kept_rows rows)" by blast
  with False show ?thesis by (simp add: kept_rows_slots)
qed

text \<open>
  C35: which prices of the price list are stored. Whatever the order of iteration, the products of a service have
  different hashes, one for every product key of its rows. Every stored price is that of a row that is authoritative or
  whose price slot (purchase option, unit, start of the tier, term) has no authoritative row. Outside the virtual
  regions all these prices are stored, equal ones once, and no slot that has a row is without a price. In a virtual
  region, where the rows of many source regions meet, one price is stored for each tier (purchase option, start,
  term) that has a row: the lowest, whatever its unit and wherever it stands in the list. (Slots and tiers are compared
  as joined text; that none is lost is stated for texts without the separator. \<open>docs/provider-quirks.md\<close> says that
  in virtual regions the last price wins; the code keeps the lowest.)
\<close>

theorem azure_prices_exact:
  assumes "mset (it (byKey (built items))) = mset (byKey (built items))"
  shows "distinct (map p_hash (builder_products it (built items)))
    \<and> p_hash ` set (builder_products it (built items))
        = (\<lambda>key. p_hash (row_product (rows_of key (item_rows items)))) ` keys_of items
    \<and> (\<forall>p \<in> set (builder_products it (built items)). \<exists>key \<in> keys_of items.
         let rows = rows_of key (item_rows items); prices = row_price (p_hash p) ` set (kept_rows rows) in
         p = (row_product rows)\<lparr>p_prices := p_prices p\<rparr>
         \<and> set (p_prices p) \<subseteq> prices
         \<and> (if isVirtualRegion (p_region p)
            then distinct (map price_tier (p_prices p)) \<and> price_tier ` set (p_prices p) = price_tier ` prices
              \<and> (\<forall>x \<in> set (p_prices p). \<forall>y \<in> prices. price_tier y = price_tier x \<longrightarrow> usd_value x \<le> usd_value y)
            else distinct (map price_key_text (p_prices p))
              \<and> price_key_text ` set (p_prices p) = price_key_text ` prices)
         \<and> (list_all plain_row rows \<longrightarrow>
            (if isVirtualRegion (p_region p)
             then price_tier ` set (p_prices p) = (\<lambda>row. price_tier (row_price (p_hash p) row)) ` set rows
             else azurePriceSlot ` set (p_prices p) = row_slot ` set rows)))"
proof (intro conjI ballI)
  note b = builder_products_kept [where it = it, OF assms]
  show "distinct (map p_hash (builder_products it (built items)))" by (rule b(1))
  show "p_hash ` set (builder_products it (built items))
      = (\<lambda>key. p_hash (row_product (rows_of key (item_rows items)))) ` keys_of items" by (rule b(2))
  fix p
  assume "p \<in> set (builder_products it (built items))"
  from b(3) [OF this] obtain key where key: "key \<in> keys_of items"
    and p: "p = dedup_product (kept_product (rows_of key (item_rows items)))" ..
  note d = dedup_product_prices [of "rows_of key (item_rows items)", folded p]
  have v: "if isVirtualRegion (p_region p)
      then distinct (map price_tier (p_prices p))
        \<and> price_tier ` set (p_prices p) = price_tier ` row_price (p_hash p) ` set (kept_rows (rows_of key (item_rows items)))
        \<and> (\<forall>x \<in> set (p_prices p). \<forall>y \<in> row_price (p_hash p) ` set (kept_rows (rows_of key (item_rows items))).
             price_tier y = price_tier x \<longrightarrow> usd_value x \<le> usd_value y)
      else distinct (map price_key_text (p_prices p))
        \<and> price_key_text ` set (p_prices p) = price_key_text ` row_price (p_hash p) ` set (kept_rows (rows_of key (item_rows items)))"
    using d(2,3) by (simp split: if_split)
  show "\<exists>key \<in> keys_of items.
         let rows = rows_of key (item_rows items); prices = row_price (p_hash p) ` set (kept_rows rows) in
         p = (row_product rows)\<lparr>p_prices := p_prices p\<rparr>
         \<and> set (p_prices p) \<subseteq> prices
         \<and> (if isVirtualRegion (p_region p)
            then distinct (map price_tier (p_prices p)) \<and> price_tier ` set (p_prices p) = price_tier ` prices
              \<and> (\<forall>x \<in> set (p_prices p). \<forall>y \<in> prices. price_tier y = price_tier x \<longrightarrow> usd_value x \<le> usd_value y)
            else distinct (map price_key_text (p_prices p))
              \<and> price_key_text ` set (p_prices p) = price_key_text ` prices)
         \<and> (list_all plain_row rows \<longrightarrow>
            (if isVirtualRegion (p_region p)
             then price_tier ` set (p_prices p) = (\<lambda>row. price_tier (row_price (p_hash p) row)) ` set rows
             else azurePriceSlot ` set (p_prices p) = row_slot ` set rows))"
    unfolding Let_def
    by (intro bexI [OF _ key] conjI impI d(1) v dedup_product_header [of "rows_of key (item_rows items)", folded p]
        stored_prices_cover [of "rows_of key (item_rows items)", folded p])
qed

definition firewall_row :: "string \<Rightarrow> bool \<Rightarrow> string \<Rightarrow> rat \<Rightarrow> azureItem" where
  "firewall_row region prim unit price = zero_item\<lparr>az_ServiceName := ''Azure Firewall'', az_ProductName := ''Azure Firewall'',
     az_SkuName := ''Standard'', az_MeterName := ''Standard Data Processed'', az_Type := ''Consumption'',
     az_ArmRegionName := region, az_IsPrimaryMeterRegion := prim, az_UnitOfMeasure := unit, az_RetailPrice := price\<rparr>"

text \<open>The primary row wins its slot; the other unit has no primary row and stays.\<close>

definition firewall_rows :: "azureItem list" where
  "firewall_rows = [firewall_row ''eastus'' False ''1 GB'' 2, firewall_row ''eastus'' True ''1 GB'' (5 / 4),
     firewall_row ''eastus'' False ''1 TB'' 3]"

theorem azure_prices_exact_witness:
  "(\<lambda>p. (p_region p, pr_USD ` set (p_prices p))) ` set (builder_products rev (built firewall_rows))
     = {(''eastus'', {format_10f (5 / 4), format_10f 3})}"
proof -
  have o: "mset (rev (byKey (built firewall_rows))) = mset (byKey (built firewall_rows))" by simp
  let ?k = "''Azure Firewall|Standard|Standard Data Processed|eastus''"
  have rows: "item_rows firewall_rows = map (\<lambda>i. (i, ''eastus'')) firewall_rows"
    by (simp add: item_rows_def firewall_rows_def firewall_row_def azureProductRegions_def)
  have keys: "product_key i ''eastus'' = ?k" if "i \<in> set firewall_rows" for i
    using that by (auto simp: firewall_rows_def firewall_row_def product_key_def normalizeAzureProductName_def has_prefix_def)
  then have ko: "keys_of firewall_rows = {?k}" "rows_of ?k (item_rows firewall_rows) = item_rows firewall_rows"
    unfolding keys_of_def rows_of_def rows by (auto simp: firewall_rows_def)
  let ?a = "(firewall_row ''eastus'' True ''1 GB'' (5 / 4), ''eastus'')" and ?b = "(firewall_row ''eastus'' False ''1 TB'' 3, ''eastus'')"
  have kept: "kept_rows (item_rows firewall_rows) = [?a, ?b]"
    unfolding rows by (simp add: kept_rows_def firewall_rows_def firewall_row_def authoritative_def row_slot_def row_price_def
        item_price_def Let_def azurePriceSlot_def usesVirtualRegions_def skipPrimaryMeterFilter_def has_prefix_def contains_def zero_item_def)
  have region: "p_region (row_product (item_rows firewall_rows)) = ''eastus''"
    unfolding rows by (simp add: row_product_def firewall_rows_def new_product_def Let_def)
  have virt: "\<not> isVirtualRegion ''eastus''" by code_simp
  have two: "S = {a, b}" if sub: "S \<subseteq> {a, b}" and im: "f ` S = {f a, f b}" and ne: "f a \<noteq> f b" for S a b and f :: "price \<Rightarrow> string"
  proof -
    obtain x y where "x \<in> S" "f x = f a" "y \<in> S" "f y = f b" using im by (metis imageE insertI1 insertI2)
    with sub ne have "a \<in> S" "b \<in> S" by auto
    with sub show ?thesis by auto
  qed
  have diff: "price_key_text (row_price h ?a) \<noteq> price_key_text (row_price h ?b)" for h
    by (simp add: price_key_text_def row_price_def item_price_def Let_def firewall_row_def zero_item_def)
  have usd: "pr_USD (row_price h ?a) = format_10f (5 / 4)" "pr_USD (row_price h ?b) = format_10f 3" for h
    by (simp_all add: row_price_def item_price_def Let_def firewall_row_def zero_item_def)
  note e = azure_prices_exact [where it = rev, OF o, unfolded ko bex_simps, unfolded Let_def ko kept]
  have p: "p_region p = ''eastus'' \<and> pr_USD ` set (p_prices p) = {format_10f (5 / 4), format_10f 3}"
    if "p \<in> set (builder_products rev (built firewall_rows))" for p
  proof -
    from e that have r: "p = (row_product (item_rows firewall_rows))\<lparr>p_prices := p_prices p\<rparr>" by (simp add: ko kept)
    have reg: "p_region p = ''eastus''" by (subst r) (simp add: region)
    with e that virt have "set (p_prices p) \<subseteq> {row_price (p_hash p) ?a, row_price (p_hash p) ?b}"
      "price_key_text ` set (p_prices p) = {price_key_text (row_price (p_hash p) ?a), price_key_text (row_price (p_hash p) ?b)}"
      by (simp_all add: ko kept)
    from two [OF this diff] reg show ?thesis by (simp add: usd)
  qed
  moreover have "builder_products rev (built firewall_rows) \<noteq> []" using e by auto
  ultimately show ?thesis by (fastforce simp: neq_Nil_conv)
qed

subsection \<open>The interface\<close>

interpretation azure: group_scraper "AzureScraper aw" "\<lambda>svc. ''upsert azure '' @ svc" "aw_ended aw" "azure_outcome aw"
    "aw_order aw azureServices" for aw
  by unfold_locales (simp add: AzureScraper_def)

lemma azure_pages_built: "azure_pages name url w b = Inr b' \<Longrightarrow> \<exists>items. b' = fold add_item items b"
proof (induction name url w b rule: azure_pages.induct)
  case (1 name url w b)
  obtain r w' where f: "azure_fetchPage url w = (r, w')" by fastforce
  show ?case
  proof (cases "url = ''''")
    case True
    with 1(2) show ?thesis by (subst (asm) azure_pages.simps) (auto intro: exI [of _ "[]"])
  next
    case False
    with 1(2) f obtain resp where r: "r = Inr resp"
        "azure_pages name (ar_NextPageLink resp) w' (fold add_item (ar_Items resp) b) = Inr b'"
      by (subst (asm) azure_pages.simps) (auto split: sum.splits)
    from 1(1) [OF False f [symmetric] r] obtain items where "b' = fold add_item items (fold add_item (ar_Items resp) b)" ..
    then show ?thesis by (intro exI [of _ "ar_Items resp @ items"]) simp
  qed
qed

text \<open>A map is ranged over in some order, all of it.\<close>

definition orders_maps :: "azure_world \<Rightarrow> bool" where
  "orders_maps aw \<longleftrightarrow> (\<forall>svc m. mset (aw_it aw svc m) = mset m) \<and> set (aw_order aw azureServices) = set azureServices"

lemma azure_vendor:
  assumes "orders_maps aw" "azure_outcome aw svc = Inr ps" "p \<in> set ps"
  shows "p_vendor p = ''azure''"
proof -
  obtain b where b: "azure_pages svc (azure_first_url svc) (aw_wire aw svc) newAzureProductBuilder = Inr b"
      "ps = builder_products (aw_it aw svc) b"
    using assms(2) unfolding azure_outcome_def azure_scrapeService_def
    by (cases "azure_pages svc (azure_first_url svc) (aw_wire aw svc) newAzureProductBuilder") auto
  from azure_pages_built [OF b(1)] obtain items where "b = built items" by (auto simp: built_def)
  moreover have "mset (aw_it aw svc (byKey b)) = mset (byKey b)" using assms(1) by (simp add: orders_maps_def)
  ultimately obtain key where "key \<in> keys_of items" "p = dedup_product (kept_product (rows_of key (item_rows items)))"
    using builder_products_kept(3) [where it = "aw_it aw svc" and items = items] assms(3) b(2) by blast
  then show ?thesis
    by (cases "rows_of key (item_rows items)")
      (auto simp: keys_of_rows dedup_product_def kept_product_def row_product_def new_product_def Let_def split: prod.splits)
qed

text \<open>
  C36: success means the whole price list. When an Azure scrape ends without an error and without a failed service,
  every page of every service was read, and when the run ends every product of the price list is in the table,
  whatever the order of the goroutines and the benign acts of other processes.
\<close>

theorem azure_success_stores_price_list:
  assumes "orders_maps aw" "svc \<in> set azureServices"
    and "kept vo ''azure'' {} d" "script_all (polite vo ''azure'') d"
    and "begin_run ''azure'' d = Some (r, t, d1)" "script_all (benign vo ''azure'' r t) d1"
    and "sc_scrape (AzureScraper aw) (scrape_handler r snaps) \<lparr>rs_db = d1, rs_total = 0\<rparr> = (None, 0, s)"
    and "\<And>svc ps p. svc \<in> set azureServices \<Longrightarrow> azure_outcome aw svc = Inr ps \<Longrightarrow> p \<in> set ps \<Longrightarrow> vo (p_hash p) = ''azure''"
  shows "\<exists>ps. azure_outcome aw svc = Inr ps
    \<and> p_hash ` set ps \<subseteq> dom (map_of (tbl_products (snd (snd (runOneScrape (AzureScraper aw) snaps appNow retain d)))))"
proof -
  let ?ts = "aw_order aw azureServices"
  have n: "to_lower (sc_name (AzureScraper aw)) = ''azure''" by (simp add: AzureScraper_def) code_simp
  have v: "p_vendor p = ''azure'' \<and> vo (p_hash p) = ''azure''" if "p \<in> set (all_products (map (azure_outcome aw) ?ts))" for p
  proof -
    from that obtain svc' ps where "svc' \<in> set ?ts" "azure_outcome aw svc' = Inr ps" "p \<in> set ps"
      unfolding all_products_set by (auto dest: sym)
    then show ?thesis using azure_vendor [OF assms(1)] assms(8) assms(1) by (auto simp: orders_maps_def)
  qed
  note c = azure.complete_run_stores_offer [of vo aw d r t d1 snaps s appNow retain, unfolded n, OF assms(3-6) _ assms(7)]
  have svc: "svc \<in> set ?ts" using assms(1,2) by (simp add: orders_maps_def)
  with c v obtain ps where ps: "azure_outcome aw svc = Inr ps"
    by (cases "azure_outcome aw svc") (auto simp: list_all_iff)
  moreover have "set ps \<subseteq> set (all_products (map (azure_outcome aw) ?ts))"
    unfolding all_products_set using svc ps by force
  ultimately show ?thesis using c v by blast
qed

text \<open>A group whose services can all be read and whose products are all accepted ends without an error.\<close>

lemma group_from_ok:
  "list_all (\<lambda>t. \<not> isl (outcome t)) ts \<Longrightarrow> list_all id (fst (feed h (handed (map outcome ts)) (gr_state g))) \<Longrightarrow>
   gr_err (group_from h label ended outcome ts g) = gr_err g
   \<and> gr_failed (group_from h label ended outcome ts g) = gr_failed g"
proof (induction ts arbitrary: g)
  case (Cons t ts)
  then obtain ps where o: "outcome t = Inr ps" by (cases "outcome t") auto
  show ?case
  proof (cases "ps = []")
    case True
    with Cons o show ?thesis by (simp add: group_from_def service_task_def)
  next
    case False
    obtain e s where h: "h ps (gr_state g) = (e, s)" by fastforce
    with Cons.prems o False have "e = None" "list_all id (fst (feed h (handed (map outcome ts)) s))"
      by (auto simp: id_def split: prod.splits)
    with Cons.IH [of "g\<lparr>gr_state := s\<rparr>"] Cons.prems o False h show ?thesis
      by (simp add: group_from_def service_task_def id_def)
  qed
qed (simp add: group_from_def)

text \<open>A price list with one product, of one of the services.\<close>

definition firewall_json :: json where
  "firewall_json =
     JObj [(''Items'', JArr [JObj [(''armRegionName'', JStr ''eastus''), (''serviceName'', JStr ''Azure Firewall''),
       (''productName'', JStr ''Azure Firewall''), (''type'', JStr ''Consumption'')]]), (''NextPageLink'', JNull)]"

definition firewall_world :: azure_world where
  "firewall_world =
     \<lparr>aw_wire = (\<lambda>svc. [\<lambda>url. (Reply 200 (if svc = ''Azure Firewall'' then json_print firewall_json else ''{}'') None, None)]),
      aw_ended = (\<lambda>_. None), aw_order = rev, aw_it = (\<lambda>_. rev)\<rparr>"

definition firewall_item :: azureItem where
  "firewall_item = zero_item\<lparr>az_ArmRegionName := ''eastus'', az_ServiceName := ''Azure Firewall'',
     az_ProductName := ''Azure Firewall'', az_Type := ''Consumption''\<rparr>"

lemma firewall_decoded: "decode_azure (json_print firewall_json) = Some \<lparr>ar_Items = [firewall_item], ar_NextPageLink = []\<rparr>"
proof -
  have "valid_json firewall_json" "fits 10 firewall_json" by code_simp+
  have "fits maxNestingDepth firewall_json" by (simp add: firewall_json_def maxNestingDepth_def)
  with \<open>valid_json firewall_json\<close> have p: "json_parse (json_print firewall_json) = Some firewall_json"
    by (intro json_parse_print)
  have "decode_struct azure_response_tags firewall_json (\<lparr>ar_Items = [], ar_NextPageLink = []\<rparr>, True)
      = (\<lparr>ar_Items = [firewall_item], ar_NextPageLink = []\<rparr>, True)"
    by code_simp
  with p show ?thesis by (simp add: decode_azure_def)
qed

lemma firewall_outcome:
  "azure_outcome firewall_world svc = Inr (if svc = ''Azure Firewall'' then
     builder_products rev (built [firewall_item]) else [])"
proof -
  let ?body = "if svc = ''Azure Firewall'' then json_print firewall_json else ''{}''"
  let ?resp = "\<lparr>ar_Items = (if svc = ''Azure Firewall'' then [firewall_item] else []), ar_NextPageLink = []\<rparr>"
  have l: "length ?body < 200" by (cases "svc = ''Azure Firewall''") (simp_all, code_simp)
  then have b: "length ?body < azure_body_limit" "take azure_body_limit ?body = ?body" by (simp_all add: azure_body_limit_def)
  have o: "?body \<noteq> [] \<and> hd ?body = CHR 0x7B" by (simp add: firewall_json_def)
  have "decode_azure ''{}'' = Some \<lparr>ar_Items = [], ar_NextPageLink = []\<rparr>" by code_simp
  then have d: "decode_azure ?body = Some ?resp" by (simp add: firewall_decoded)
  have "azure_attempt url (aw_wire firewall_world svc) = (Inl ?resp, None, [])" for url
    unfolding azure_attempt_def send_def firewall_world_def using b o d by (simp add: Let_def split del: if_split)
  then have f: "azure_fetchPage url (aw_wire firewall_world svc) = (Inr ?resp, [])" for url
    by (simp add: azure_fetchPage_def eval_nat_numeral split del: if_split)
  have u: "azure_first_url svc \<noteq> []" by (simp add: azure_first_url_def azureBaseURL_def)
  have "azure_pages svc (azure_first_url svc) (aw_wire firewall_world svc) newAzureProductBuilder
      = Inr (fold add_item (ar_Items ?resp) newAzureProductBuilder)"
    by (subst azure_pages.simps, subst azure_pages.simps) (simp add: f u split del: if_split)
  then show ?thesis
    by (simp add: azure_outcome_def azure_scrapeService_def built_def) (simp add: firewall_world_def builder_products_def newAzureProductBuilder_def)
qed

definition azure_db :: db where
  "azure_db = (fresh_db 10 [])\<lparr>tbl_products := [(''z1'', \<lparr>r_product = sample_product ''z1'' ''azure'' ''s'', r_updated = 0\<rparr>)]\<rparr>"

theorem azure_success_stores_price_list_witness:
  "p_hash (new_product firewall_item ''eastus'')
     \<in> dom (map_of (tbl_products (snd (snd (runOneScrape (AzureScraper firewall_world) False 100 50 azure_db)))))"
proof -
  have o: "orders_maps firewall_world" by (simp add: orders_maps_def firewall_world_def)
  have u: "undisturbed ''azure'' azure_db" by code_simp
  let ?d1 = "started_db ''azure'' azure_db" and ?ts = "aw_order firewall_world azureServices"
  have q: "script ?d1 = []" by code_simp
  have next_id: "next_id azure_db = 1" "now azure_db = 10" by code_simp+
  let ?h = "scrape_handler 1 False" and ?s = "\<lparr>rs_db = ?d1, rs_total = 0\<rparr>"
  obtain s' where "feed ?h (handed (map (azure_outcome firewall_world) ?ts)) ?s
      = (map (\<lambda>b. True) (handed (map (azure_outcome firewall_world) ?ts)), s')"
    using feed_quiet [of ?s 1] q by (metis run_state.select_convs(1) zero_less_one)
  then obtain s where s: "sc_scrape (AzureScraper firewall_world) ?h ?s = (None, 0, s)"
    using group_from_ok [of "azure_outcome firewall_world" ?ts ?h "group_init ?s"]
    by (simp add: AzureScraper_def Let_def firewall_outcome group_init_def list_all_iff comp_def)
  have svc: "''Azure Firewall'' \<in> set azureServices" by code_simp
  have k: "kept (\<lambda>_. ''azure'') ''azure'' {} azure_db"
    by (rule keptI) (code_simp, code_simp, simp_all)
  have pol: "script_all (polite (\<lambda>_. ''azure'') ''azure'') azure_db"
    "script_all (benign (\<lambda>_. ''azure'') ''azure'' 1 10) ?d1" using q by (simp_all add: script_all_def azure_db_def fresh_db_def)
  obtain ps where ps: "azure_outcome firewall_world ''Azure Firewall'' = Inr ps"
    "p_hash ` set ps \<subseteq> dom (map_of (tbl_products (snd (snd (runOneScrape (AzureScraper firewall_world) False 100 50 azure_db)))))"
    using azure_success_stores_price_list [OF o svc k pol(1) begin_run_quiet [OF u, unfolded next_id] pol(2) s refl, of 100 50] by auto
  have rows: "item_rows [firewall_item] = [(firewall_item, ''eastus'')]"
    by (simp add: item_rows_def azureProductRegions_def firewall_item_def zero_item_def)
  have "p_hash ` set ps = {p_hash (new_product firewall_item ''eastus'')}"
    using ps(1) builder_products_kept(2) [where it = rev and items = "[firewall_item]"]
    by (simp add: firewall_outcome keys_of_def rows rows_of_def row_product_def)
  with ps(2) show ?thesis by auto
qed

end
