(* ===== verification/Json_Stream.thy ===== *)
theory Json_Stream
  imports Scraper_Core
begin

text \<open>
  The streaming interface of \<open>json.Decoder\<close> as \<^verbatim>\<open>decodeAWSPricing\<close> uses it: \<open>Token\<close>, \<open>More\<close> and
  \<open>Decode\<close> on one decoder. A decoder has the text not read yet, the error that ends it (\<open>None\<close> for the end
  of the file), the state of the token grammar and the stack of enclosing states. Errors are strings that do
  not reproduce the library's wording.
\<close>

subsection \<open>The decoder\<close>

datatype token_state = TopValue | ArrayStart | ArrayValue | ArrayComma
  | ObjectStart | ObjectKey | ObjectColon | ObjectValue | ObjectComma

datatype token = TokDelim char | TokString string | TokValue json

record json_dec =
  jd_input :: string
  jd_err :: "string option"
  jd_state :: token_state
  jd_stack :: "token_state list"

definition new_decoder :: "string \<Rightarrow> string option \<Rightarrow> json_dec" where
  "new_decoder input err = \<lparr>jd_input = input, jd_err = err, jd_state = TopValue, jd_stack = []\<rparr>"

definition read_error :: "json_dec \<Rightarrow> string" where
  "read_error d = (case jd_err d of None \<Rightarrow> ''EOF'' | Some e \<Rightarrow> e)"

definition value_allowed :: "token_state \<Rightarrow> bool" where
  "value_allowed s \<longleftrightarrow> s \<in> {TopValue, ArrayStart, ArrayValue, ObjectValue}"

definition value_end :: "token_state \<Rightarrow> token_state" where
  "value_end s =
     (if s \<in> {ArrayStart, ArrayValue} then ArrayComma else if s = ObjectValue then ObjectComma else s)"

definition dec_more :: "json_dec \<Rightarrow> bool" where
  "dec_more d =
     (case dropWhile json_space (jd_input d) of [] \<Rightarrow> False | c # t \<Rightarrow> c \<noteq> CHR '']'' \<and> c \<noteq> CHR ''}'')"

text \<open>
  The next whole value. Only the closing bracket of an array or object ends a value by itself; after a scalar
  one more byte is asked for, so a broken connection is noticed there, the end of the file is not.
\<close>

definition read_value :: "json_dec \<Rightarrow> string + json \<times> json_dec" where
  "read_value d =
     (case json_first MVal [] (jd_input d) of
        None \<Rightarrow> Inl (read_error d)
      | Some (v, rest) \<Rightarrow>
          if rest = [] \<and> jd_err d \<noteq> None \<and> (case v of JArr _ \<Rightarrow> False | JObj _ \<Rightarrow> False | _ \<Rightarrow> True)
          then Inl (read_error d) else Inr (v, d\<lparr>jd_input := rest\<rparr>))"

text \<open>\<open>tokenPrepareForDecode\<close>: a comma or colon before the value, where the state asks for one.\<close>

definition take_separator :: "char \<Rightarrow> token_state \<Rightarrow> json_dec \<Rightarrow> string + json_dec" where
  "take_separator sep next d =
     (case dropWhile json_space (jd_input d) of
        [] \<Rightarrow> Inl (read_error d)
      | c # t \<Rightarrow> if c = sep then Inr (d\<lparr>jd_input := t, jd_state := next\<rparr>) else Inl ''syntax'')"

definition prepare_decode :: "json_dec \<Rightarrow> string + json_dec" where
  "prepare_decode d =
     (case jd_state d of
        ArrayComma \<Rightarrow> take_separator (CHR '','') ArrayValue d
      | ObjectColon \<Rightarrow> take_separator (CHR '':'') ObjectValue d
      | _ \<Rightarrow> Inr d)"

definition dec_decode :: "json_dec \<Rightarrow> string + json \<times> json_dec" where
  "dec_decode d =
     (case prepare_decode d of
        Inl e \<Rightarrow> Inl e
      | Inr d \<Rightarrow>
          if \<not> value_allowed (jd_state d) then Inl ''not at beginning of value''
          else (case read_value d of
                  Inl e \<Rightarrow> Inl e
                | Inr (v, d') \<Rightarrow> Inr (v, d'\<lparr>jd_state := value_end (jd_state d)\<rparr>)))"

definition open_delim :: "char \<Rightarrow> token_state \<Rightarrow> string \<Rightarrow> json_dec \<Rightarrow> string + token \<times> json_dec" where
  "open_delim c inner rest d =
     (if value_allowed (jd_state d)
      then Inr (TokDelim c, d\<lparr>jd_input := rest, jd_stack := jd_state d # jd_stack d, jd_state := inner\<rparr>)
      else Inl ''syntax'')"

definition close_delim :: "char \<Rightarrow> token_state set \<Rightarrow> string \<Rightarrow> json_dec \<Rightarrow> string + token \<times> json_dec" where
  "close_delim c states rest d =
     (if jd_state d \<in> states
      then (case jd_stack d of
              [] \<Rightarrow> Inl ''syntax''
            | s # stack \<Rightarrow> Inr (TokDelim c, d\<lparr>jd_input := rest, jd_stack := stack, jd_state := value_end s\<rparr>))
      else Inl ''syntax'')"

definition key_token :: "json_dec \<Rightarrow> string + token \<times> json_dec" where
  "key_token d =
     (case read_value d of
        Inr (JStr x, d') \<Rightarrow> Inr (TokString x, d'\<lparr>jd_state := ObjectColon\<rparr>)
      | Inr _ \<Rightarrow> Inl ''syntax''
      | Inl e \<Rightarrow> Inl e)"

definition scalar_token :: "json_dec \<Rightarrow> string + token \<times> json_dec" where
  "scalar_token d =
     (if \<not> value_allowed (jd_state d) then Inl ''syntax''
      else (case dec_decode d of
              Inl e \<Rightarrow> Inl e
            | Inr (v, d') \<Rightarrow>
                (case v of
                   JStr x \<Rightarrow> Inr (TokString x, d')
                 | JNum n \<Rightarrow> if float64_ok n then Inr (TokValue v, d') else Inl ''number''
                 | _ \<Rightarrow> Inr (TokValue v, d'))))"

text \<open>A separator where the state asks for one is skipped; any other is an error.\<close>

definition skip_separator :: "char \<Rightarrow> token_state \<Rightarrow> token_state option" where
  "skip_separator c s =
     (if c = CHR '':'' \<and> s = ObjectColon then Some ObjectValue
      else if c = CHR '','' \<and> s = ArrayComma then Some ArrayValue
      else if c = CHR '','' \<and> s = ObjectComma then Some ObjectKey
      else None)"

definition plain_token :: "char \<Rightarrow> string \<Rightarrow> json_dec \<Rightarrow> string + token \<times> json_dec" where
  "plain_token c rest d =
     (if c = CHR ''['' then open_delim c ArrayStart rest d
      else if c = CHR '']'' then close_delim c {ArrayStart, ArrayComma} rest d
      else if c = CHR ''{'' then open_delim c ObjectStart rest d
      else if c = CHR ''}'' then close_delim c {ObjectStart, ObjectComma} rest d
      else if c = CHR '':'' \<or> c = CHR '','' then Inl ''syntax''
      else if c = quote \<and> jd_state d \<in> {ObjectStart, ObjectKey} then key_token d
      else scalar_token d)"

lemma rest_shorter: "dropWhile P s = c # t \<Longrightarrow> length t < length s"
  by (metis length_Cons length_dropWhile_le less_eq_Suc_le)

function dec_token :: "json_dec \<Rightarrow> string + token \<times> json_dec" where
  "dec_token d =
     (case dropWhile json_space (jd_input d) of
        [] \<Rightarrow> Inl (read_error d)
      | c # t \<Rightarrow>
          (case skip_separator c (jd_state d) of
             Some s \<Rightarrow> dec_token (d\<lparr>jd_input := t, jd_state := s\<rparr>)
           | None \<Rightarrow> plain_token c t d))"
  by pat_completeness auto

termination
  by (relation "measure (\<lambda>d. length (jd_input d))") (auto dest: rest_shorter)

declare dec_token.simps [simp del]

subsection \<open>Progress\<close>

lemma json_first_shorter: "json_first m st s = Some (v, t) \<Longrightarrow> length t < length s"
proof (induction m st s rule: json_first.induct)
  case (1 m st s)
  from 1(2) obtain k u where k: "lex_one (dropWhile json_space s) = Some (k, u)"
    by (subst (asm) json_first.simps) (auto split: option.splits)
  have l: "length u < length s" using lex_one_shorter [OF k] length_dropWhile_le [of json_space s] by linarith
  from 1(2) k obtain m' st' where s: "jstep m st k = Some (m', st')"
    by (subst (asm) json_first.simps) (auto split: option.splits)
  show ?case
  proof (cases "finished m' st'")
    case None
    with 1(2) k s have "json_first m' st' u = Some (v, t)" by (subst (asm) json_first.simps) simp
    from 1(1) [OF k refl s refl None this] l show ?thesis by simp
  next
    case (Some w)
    with 1(2) k s have "t = u" by (subst (asm) json_first.simps) simp
    with l show ?thesis by simp
  qed
qed

lemma read_value_shorter: "read_value d = Inr (v, d') \<Longrightarrow> length (jd_input d') < length (jd_input d)"
  by (auto simp: read_value_def dest!: json_first_shorter split: option.splits prod.splits if_splits)

lemma dec_decode_shorter: "dec_decode d = Inr (v, d') \<Longrightarrow> length (jd_input d') < length (jd_input d)"
  by (auto simp: dec_decode_def prepare_decode_def take_separator_def
      dest!: read_value_shorter rest_shorter split: sum.splits prod.splits if_splits token_state.splits list.splits)

lemma plain_token_shorter:
  assumes "plain_token c t d = Inr (k, d')" "length t < length (jd_input d)"
  shows "length (jd_input d') < length (jd_input d)"
proof -
  have 1: "key_token d = Inr (k, d') \<Longrightarrow> length (jd_input d') < length (jd_input d)"
    by (auto simp: key_token_def dest!: read_value_shorter split: sum.splits prod.splits json.splits)
  have 2: "scalar_token d = Inr (k, d') \<Longrightarrow> length (jd_input d') < length (jd_input d)"
    by (auto simp: scalar_token_def dest!: dec_decode_shorter split: if_splits sum.splits prod.splits json.splits)
  have 3: "open_delim c1 s t d = Inr (k, d') \<Longrightarrow> length (jd_input d') < length (jd_input d)" for c1 s
    using assms(2) by (auto simp: open_delim_def split: if_splits)
  have 4: "close_delim c1 S t d = Inr (k, d') \<Longrightarrow> length (jd_input d') < length (jd_input d)" for c1 S
    using assms(2) by (auto simp: close_delim_def split: if_splits list.splits)
  from assms(1) show ?thesis unfolding plain_token_def by (auto dest: 1 2 3 4 split: if_splits)
qed

lemma dec_token_shorter: "dec_token d = Inr (k, d') \<Longrightarrow> length (jd_input d') < length (jd_input d)"
proof (induction d rule: dec_token.induct)
  case (1 d)
  obtain c t where c: "dropWhile json_space (jd_input d) = c # t"
    using 1(2) by (subst (asm) dec_token.simps) (auto split: list.splits)
  have l: "length t < length (jd_input d)" by (rule rest_shorter [OF c])
  show ?case
  proof (cases "skip_separator c (jd_state d)")
    case None
    with 1(2) c have "plain_token c t d = Inr (k, d')" by (subst (asm) dec_token.simps) simp
    from plain_token_shorter [OF this l] show ?thesis .
  next
    case (Some s)
    with 1(2) c have "dec_token (d\<lparr>jd_input := t, jd_state := s\<rparr>) = Inr (k, d')"
      by (subst (asm) dec_token.simps) simp
    from 1(1) [OF c Some this] l show ?thesis by simp
  qed
qed

end
