(* ===== verification/Aws.thy ===== *)
theory Aws
  imports Json_Stream Config
begin

text \<open>
  The AWS scraper, \<^verbatim>\<open>internal/scraper/aws.go\<close> and \<^verbatim>\<open>aws_regions.go\<close>: the streaming reader of the offer
  files, their transformation into products, the services that are collected in memory and the regions of EC2 that
  are streamed. A type assertion that fails panics and ends the process: that is an outcome of its own. Maps are
  association lists; the orders in which they are ranged over are an argument.
\<close>

subsection \<open>Services and regions\<close>

definition awsBaseURL :: string where "awsBaseURL = ''https://pricing.us-east-1.amazonaws.com''"

definition awsServices :: "string list" where
  "awsServices =
     [''AmazonEC2'', ''AWSLambda'', ''AmazonECS'', ''AmazonEKS'', ''AmazonLightsail'', ''CodeBuild'',
      ''AWSAppRunner'', ''ElasticMapReduce'', ''AmazonRDS'', ''AmazonDynamoDB'', ''AmazonElastiCache'',
      ''AmazonRedshift'', ''AmazonDocDB'', ''AmazonNeptune'', ''AmazonES'', ''AmazonDAX'', ''AmazonMemoryDB'',
      ''AmazonMCS'', ''AmazonS3'', ''AmazonEFS'', ''AmazonFSx'', ''AmazonECR'', ''AmazonGlacier'',
      ''AmazonS3GlacierDeepArchive'', ''AWSELB'', ''AmazonVPC'', ''AmazonRoute53'', ''AmazonCloudFront'',
      ''AmazonApiGateway'', ''AWSGlobalAccelerator'', ''AWSDirectConnect'', ''AWSNetworkFirewall'',
      ''AWSDataTransfer'', ''AWSAppSync'', ''AmazonSNS'', ''AWSQueueService'', ''AmazonMQ'', ''AmazonKinesis'',
      ''AmazonKinesisFirehose'', ''AmazonKinesisAnalytics'', ''AmazonMSK'', ''AmazonCloudWatch'',
      ''AWSConfig'', ''AWSCloudTrail'', ''AWSEvents'', ''AWSSystemsManager'', ''AWSBackup'', ''AWSXRay'',
      ''awskms'', ''CloudHSM'', ''awswaf'', ''AWSCertificateManager'', ''AmazonCognito'', ''AWSAmplify'',
      ''AWSGlue'', ''AmazonAthena'', ''AWSSecretsManager'', ''AWSTransfer'', ''AmazonStates'',
      ''AWSDatabaseMigrationSvc'', ''AWSDirectoryService'', ''AmazonGrafana'', ''AmazonMWAA'',
      ''AWSCloudFormation'']"

definition chinaServices :: "string list" where
  "chinaServices =
     [''AmazonEC2'', ''AWSLambda'', ''AmazonRDS'', ''AmazonS3'', ''AmazonDynamoDB'', ''AmazonElastiCache'',
      ''AmazonCloudFront'', ''AmazonES'']"

definition awsLocationToRegion :: "(string \<times> string) list" where
  "awsLocationToRegion =
     [(''US East (N. Virginia)'', ''us-east-1''), (''US East (Ohio)'', ''us-east-2''),
      (''US West (N. California)'', ''us-west-1''), (''US West (Oregon)'', ''us-west-2''),
      (''Africa (Cape Town)'', ''af-south-1''), (''Asia Pacific (Hong Kong)'', ''ap-east-1''),
      (''Asia Pacific (Hyderabad)'', ''ap-south-2''), (''Asia Pacific (Jakarta)'', ''ap-southeast-3''),
      (''Asia Pacific (Melbourne)'', ''ap-southeast-4''), (''Asia Pacific (Mumbai)'', ''ap-south-1''),
      (''Asia Pacific (Osaka)'', ''ap-northeast-3''), (''Asia Pacific (Seoul)'', ''ap-northeast-2''),
      (''Asia Pacific (Singapore)'', ''ap-southeast-1''), (''Asia Pacific (Sydney)'', ''ap-southeast-2''),
      (''Asia Pacific (Tokyo)'', ''ap-northeast-1''), (''Canada (Central)'', ''ca-central-1''),
      (''Canada West (Calgary)'', ''ca-west-1''), (''EU (Frankfurt)'', ''eu-central-1''),
      (''EU (Ireland)'', ''eu-west-1''), (''EU (London)'', ''eu-west-2''), (''EU (Milan)'', ''eu-south-1''),
      (''EU (Paris)'', ''eu-west-3''), (''EU (Spain)'', ''eu-south-2''), (''Europe (Spain)'', ''eu-south-2''),
      (''EU (Stockholm)'', ''eu-north-1''), (''EU (Zurich)'', ''eu-central-2''),
      (''Europe (Zurich)'', ''eu-central-2''), (''Israel (Tel Aviv)'', ''il-central-1''),
      (''Middle East (Bahrain)'', ''me-south-1''), (''Middle East (UAE)'', ''me-central-1''),
      (''South America (Sao Paulo)'', ''sa-east-1''), (''AWS GovCloud (US-East)'', ''us-gov-east-1''),
      (''AWS GovCloud (US-West)'', ''us-gov-west-1''), (''Asia Pacific (Malaysia)'', ''ap-southeast-5''),
      (''Asia Pacific (Thailand)'', ''ap-southeast-7''), (''Asia Pacific (Taipei)'', ''ap-east-2''),
      (''Asia Pacific (New Zealand)'', ''ap-southeast-6''), (''Mexico (Central)'', ''mx-central-1''),
      (''China (Beijing)'', ''cn-north-1''), (''China (Ningxia)'', ''cn-northwest-1'')]"

definition AWSLocationToRegion :: "string \<Rightarrow> string" where
  "AWSLocationToRegion location = (case map_of awsLocationToRegion location of Some r \<Rightarrow> r | None \<Rightarrow> '''')"

definition awsProductRegion :: "attrs \<Rightarrow> string" where
  "awsProductRegion attrs =
     (let code = attr_get attrs ''regionCode''; location = attr_get attrs ''location'' in
      if code \<noteq> '''' \<and> attr_get attrs ''locationType'' = ''AWS Region'' then code
      else if AWSLocationToRegion location \<noteq> '''' then AWSLocationToRegion location
      else if location = ''Any'' \<or> location = ''Global'' then ''''
      else location)"

subsection \<open>Normalisation\<close>

definition productFamilyMapping :: "(string \<times> string) list" where
  "productFamilyMapping = [(''DNS Domain Names'', ''DNS Zone''), (''DNS Query'', ''DNS Query'')]"

definition normalizeProductFamily :: "string \<Rightarrow> string" where
  "normalizeProductFamily family = (case map_of productFamilyMapping family of Some m \<Rightarrow> m | None \<Rightarrow> family)"

definition is_upper :: "char \<Rightarrow> bool" where
  "is_upper c \<longleftrightarrow> (let n = of_char c :: nat in 65 \<le> n \<and> n \<le> 90)"

definition strip_role :: "string \<Rightarrow> string" where
  "strip_role it =
     (case index_byte it (CHR ''-'') of
        None \<Rightarrow> it
      | Some idx \<Rightarrow>
          (let suffix = drop (idx + 1) it in
           if idx > 0 \<and> suffix \<noteq> [] \<and> is_upper (hd suffix) then take idx it else it))"

definition normalize_sagemaker :: "attrs \<Rightarrow> attrs" where
  "normalize_sagemaker attrs =
     (let it = attr_get attrs ''instanceType'' in
      if it \<noteq> '''' \<and> strip_role it \<noteq> it then attr_set attrs ''instanceType'' (strip_role it) else attrs)"

definition normalize_eks :: "attrs \<Rightarrow> attrs" where
  "normalize_eks attrs =
     (let ut = attr_get attrs ''usagetype'' in
      if ut \<noteq> '''' \<and> attr_get attrs ''mode'' = '''' then
        (if contains ut ''EKS-Auto'' then attr_set attrs ''mode'' ''Auto''
         else if contains ut ''AmazonEKS-Hours'' \<or> contains ut ''EKS-Cluster'' \<or> contains ut ''Cluster-Hours''
         then attr_set attrs ''mode'' ''Classic''
         else attrs)
      else attrs)"

definition normalize_athena :: "attrs \<Rightarrow> attrs" where
  "normalize_athena attrs =
     (if attr_get attrs ''productFamily'' = ''''
         \<and> (has_prefix (attr_get attrs ''operation'') ''Query''
            \<or> contains (attr_get attrs ''usagetype'') ''DataScannedBytes'')
      then attr_set attrs ''productFamily'' ''Query'' else attrs)"

definition normalizeAWSAttributes :: "string \<Rightarrow> attrs \<Rightarrow> attrs" where
  "normalizeAWSAttributes serviceCode attrs =
     (if serviceCode = ''AmazonSageMaker'' then normalize_sagemaker attrs
      else if serviceCode = ''AmazonEKS'' then normalize_eks attrs
      else if serviceCode = ''AmazonAthena'' then normalize_athena attrs
      else attrs)"

definition defaultCNYUSDRate :: rat where "defaultCNYUSDRate = to_float64 (62069 / 10000)"

definition cny_rate :: "config \<Rightarrow> rat" where
  "cny_rate cfg = (if cfg_CNYUSDRate cfg > 0 then cfg_CNYUSDRate cfg else defaultCNYUSDRate)"

definition cnyToUSD :: "rat \<Rightarrow> string \<Rightarrow> string" where
  "cnyToUSD rate cny =
     (case ParseFloat cny of
        None \<Rightarrow> ''''
      | Some cnyVal \<Rightarrow> if cnyVal = 0 then ''0.0000000000'' else format_10f (f_div cnyVal rate))"

subsection \<open>Offer files\<close>

record awsProduct =
  ap_SKU :: string
  ap_ProductFamily :: string
  ap_Attributes :: attrs

record awsPriceDimension =
  pd_Unit :: string
  pd_PricePerUnit :: attrs
  pd_BeginRange :: string
  pd_EndRange :: string
  pd_Description :: string

record awsTermOffer =
  to_PriceDimensions :: "(string \<times> awsPriceDimension) list"
  to_TermAttributes :: attrs

type_synonym aws_terms = "(string \<times> (string \<times> awsTermOffer) list) list"

record awsRawPricing =
  rp_products :: "(string \<times> awsProduct) list"
  rp_onDemandTerms :: aws_terms
  rp_reservedTerms :: aws_terms

definition zero_product :: awsProduct where
  "zero_product = \<lparr>ap_SKU = '''', ap_ProductFamily = '''', ap_Attributes = []\<rparr>"

definition zero_dimension :: awsPriceDimension where
  "zero_dimension = \<lparr>pd_Unit = '''', pd_PricePerUnit = [], pd_BeginRange = '''', pd_EndRange = '''', pd_Description = ''''\<rparr>"

definition zero_offer :: awsTermOffer where
  "zero_offer = \<lparr>to_PriceDimensions = [], to_TermAttributes = []\<rparr>"

definition zero_raw :: awsRawPricing where
  "zero_raw = \<lparr>rp_products = [], rp_onDemandTerms = [], rp_reservedTerms = []\<rparr>"

definition aws_product_tags :: "(string \<times> awsProduct decoder) list" where
  "aws_product_tags =
     [(''sku'', put_string (\<lambda>x r. r\<lparr>ap_SKU := x\<rparr>)),
      (''productFamily'', put_string (\<lambda>x r. r\<lparr>ap_ProductFamily := x\<rparr>)),
      (''attributes'', put_map ap_Attributes (\<lambda>x r. r\<lparr>ap_Attributes := x\<rparr>) '''' string_value)]"

definition dimension_tags :: "(string \<times> awsPriceDimension decoder) list" where
  "dimension_tags =
     [(''unit'', put_string (\<lambda>x r. r\<lparr>pd_Unit := x\<rparr>)),
      (''pricePerUnit'', put_map pd_PricePerUnit (\<lambda>x r. r\<lparr>pd_PricePerUnit := x\<rparr>) '''' string_value),
      (''beginRange'', put_string (\<lambda>x r. r\<lparr>pd_BeginRange := x\<rparr>)),
      (''endRange'', put_string (\<lambda>x r. r\<lparr>pd_EndRange := x\<rparr>)),
      (''description'', put_string (\<lambda>x r. r\<lparr>pd_Description := x\<rparr>))]"

definition offer_tags :: "(string \<times> awsTermOffer decoder) list" where
  "offer_tags =
     [(''priceDimensions'', put_map to_PriceDimensions (\<lambda>x r. r\<lparr>to_PriceDimensions := x\<rparr>) zero_dimension
         (decode_struct dimension_tags)),
      (''termAttributes'', put_map to_TermAttributes (\<lambda>x r. r\<lparr>to_TermAttributes := x\<rparr>) '''' string_value)]"

definition terms_decoder :: "aws_terms decoder" where
  "terms_decoder =
     put_map (\<lambda>m. m) (\<lambda>x _. x) [] (put_map (\<lambda>m. m) (\<lambda>x _. x) zero_offer (decode_struct offer_tags))"

subsection \<open>The streaming reader\<close>

datatype 'a decoded = Decoded 'a | DecodeFailed string | Panicked

definition decode_failed :: "string \<Rightarrow> string \<Rightarrow> string \<Rightarrow> 'a decoded" where
  "decode_failed serviceCode what e = DecodeFailed (''decode '' @ serviceCode @ what @ '': '' @ e)"

text \<open>
  The two loops of the reader have one shape: while there is \<open>More\<close>, a token that must be a string (the
  assertion panics otherwise), a value, and what is stored of it.
\<close>

function object_loop ::
  "(string \<Rightarrow> ('a \<times> json_dec) decoded) \<Rightarrow> (string \<Rightarrow> string \<Rightarrow> ('a \<times> json_dec) decoded) \<Rightarrow> (string \<Rightarrow> json \<Rightarrow> 'a \<Rightarrow> 'a \<times> bool)
     \<Rightarrow> json_dec \<Rightarrow> 'a \<Rightarrow> ('a \<times> json_dec) decoded" where
  "object_loop key_error value_error put d x =
     (if \<not> dec_more d then Decoded (x, d)
      else
        (case dec_token d of
           Inl e \<Rightarrow> key_error e
         | Inr (TokString key, d1) \<Rightarrow>
             (case dec_decode d1 of
                Inl e \<Rightarrow> value_error key e
              | Inr (j, d2) \<Rightarrow>
                  (case put key j x of
                     (x, ok) \<Rightarrow>
                       if ok then object_loop key_error value_error put d2 x else value_error key ''type''))
         | Inr _ \<Rightarrow> Panicked))"
  by pat_completeness auto
termination
  by (relation "measure (\<lambda>(k, v, p, d, x). length (jd_input d))") (auto dest!: dec_token_shorter dec_decode_shorter dest: sym)

declare object_loop.simps [simp del]

definition put_product :: "string \<Rightarrow> json \<Rightarrow> (string \<times> awsProduct) list \<Rightarrow> (string \<times> awsProduct) list \<times> bool" where
  "put_product sku j m =
     (case decode_struct aws_product_tags j (zero_product, True) of
        (p, ok) \<Rightarrow> (AList.update sku (p\<lparr>ap_SKU := sku\<rparr>) m, ok))"

definition put_terms :: "string \<Rightarrow> json \<Rightarrow> awsRawPricing \<Rightarrow> awsRawPricing \<times> bool" where
  "put_terms termType j raw =
     (if termType = ''OnDemand'' then
        (case terms_decoder j (rp_onDemandTerms raw, True) of (m, ok) \<Rightarrow> (raw\<lparr>rp_onDemandTerms := m\<rparr>, ok))
      else if termType = ''Reserved'' then
        (case terms_decoder j (rp_reservedTerms raw, True) of (m, ok) \<Rightarrow> (raw\<lparr>rp_reservedTerms := m\<rparr>, ok))
      else (raw, True))"

definition aws_products :: "string \<Rightarrow> json_dec \<Rightarrow> (string \<times> awsProduct) list \<Rightarrow> ((string \<times> awsProduct) list \<times> json_dec) decoded" where
  "aws_products serviceCode =
     object_loop (decode_failed serviceCode '' product key'') (\<lambda>sku. decode_failed serviceCode ('' product '' @ sku)) put_product"

definition aws_terms_loop :: "string \<Rightarrow> json_dec \<Rightarrow> awsRawPricing \<Rightarrow> (awsRawPricing \<times> json_dec) decoded" where
  "aws_terms_loop serviceCode =
     object_loop (decode_failed serviceCode '' term type'')
       (\<lambda>t. decode_failed serviceCode (if t \<in> {''OnDemand'', ''Reserved''} then '' '' @ t @ '' terms'' else '' skip term '' @ t))
       put_terms"

text \<open>A section of the file: its opening token, the loop, its closing token.\<close>

definition in_section ::
  "string \<Rightarrow> string \<Rightarrow> json_dec \<Rightarrow> (json_dec \<Rightarrow> ('a \<times> json_dec) decoded) \<Rightarrow> ('a \<times> json_dec) decoded" where
  "in_section serviceCode name d loop =
     (case dec_token d of
        Inl e \<Rightarrow> decode_failed serviceCode ('' '' @ name @ '' open'') e
      | Inr (_, d) \<Rightarrow>
          (case loop d of
             Decoded (x, d) \<Rightarrow>
               (case dec_token d of
                  Inl e \<Rightarrow> decode_failed serviceCode ('' '' @ name @ '' close'') e
                | Inr (_, d) \<Rightarrow> Decoded (x, d))
           | r \<Rightarrow> r))"

definition aws_member :: "string \<Rightarrow> string \<Rightarrow> json_dec \<Rightarrow> awsRawPricing \<Rightarrow> (awsRawPricing \<times> json_dec) decoded" where
  "aws_member serviceCode key d raw =
     (if key = ''products'' then
        (case in_section serviceCode key d (\<lambda>d. aws_products serviceCode d (rp_products raw)) of
           Decoded (m, d) \<Rightarrow> Decoded (raw\<lparr>rp_products := m\<rparr>, d)
         | DecodeFailed e \<Rightarrow> DecodeFailed e
         | Panicked \<Rightarrow> Panicked)
      else if key = ''terms'' then in_section serviceCode key d (\<lambda>d. aws_terms_loop serviceCode d raw)
      else
        (case dec_decode d of
           Inl e \<Rightarrow> decode_failed serviceCode ('' skip '' @ key) e
         | Inr (_, d) \<Rightarrow> Decoded (raw, d)))"

lemma object_loop_input:
  assumes "\<And>e y. ke e \<noteq> Decoded y" "\<And>k e y. ve k e \<noteq> Decoded y"
    and "object_loop ke ve put d x = Decoded (x', d')"
  shows "length (jd_input d') \<le> length (jd_input d)"
  using assms(3)
proof (induction "length (jd_input d)" arbitrary: d x rule: less_induct)
  case less
  show ?case
  proof (cases "dec_more d")
    case False
    with less.prems show ?thesis by (subst (asm) object_loop.simps) simp
  next
    case True
    with less.prems obtain key d1 where t: "dec_token d = Inr (TokString key, d1)"
      using assms(1) by (subst (asm) object_loop.simps) (auto split: sum.splits prod.splits token.splits)
    with less.prems True obtain j d2 where v: "dec_decode d1 = Inr (j, d2)"
      using assms(2) by (subst (asm) object_loop.simps) (auto split: sum.splits prod.splits)
    obtain y ok where p: "put key j x = (y, ok)" by fastforce
    with less.prems True t v have r: "object_loop ke ve put d2 y = Decoded (x', d')"
      using assms(2) by (subst (asm) object_loop.simps) (simp split: if_splits)
    have "length (jd_input d2) < length (jd_input d)" using dec_token_shorter [OF t] dec_decode_shorter [OF v] by simp
    from less.hyps [OF this r] this show ?thesis by simp
  qed
qed

lemma in_section_input:
  assumes "in_section c name d loop = Decoded (x, d')"
    and "\<And>d x d'. loop d = Decoded (x, d') \<Longrightarrow> length (jd_input d') \<le> length (jd_input d)"
  shows "length (jd_input d') \<le> length (jd_input d)"
proof -
  obtain k1 d1 where 1: "dec_token d = Inr (k1, d1)"
    using assms(1) by (auto simp: in_section_def decode_failed_def split: sum.splits)
  then obtain y d2 where 2: "loop d1 = Decoded (y, d2)"
    using assms(1) by (auto simp: in_section_def split: decoded.splits)
  then obtain k3 where 3: "dec_token d2 = Inr (k3, d')"
    using assms(1) 1 by (auto simp: in_section_def decode_failed_def split: sum.splits)
  show ?thesis using dec_token_shorter [OF 1] dec_token_shorter [OF 3] assms(2) [OF 2] by simp
qed

lemma aws_member_input:
  assumes "aws_member c key d raw = Decoded (raw', d')"
  shows "length (jd_input d') \<le> length (jd_input d)"
proof (cases "key = ''products''")
  case True
  then obtain m where "in_section c key d (\<lambda>d. aws_products c d (rp_products raw)) = Decoded (m, d')"
    using assms by (auto simp: aws_member_def split: decoded.splits)
  then show ?thesis
      unfolding aws_products_def by (rule in_section_input) (rule object_loop_input, simp_all add: decode_failed_def)
next
  case p: False
  show ?thesis
  proof (cases "key = ''terms''")
    case True
    with p assms have "in_section c key d (\<lambda>d. aws_terms_loop c d raw) = Decoded (raw', d')" by (simp add: aws_member_def)
    then show ?thesis
      unfolding aws_terms_loop_def by (rule in_section_input) (rule object_loop_input, simp_all add: decode_failed_def)
  next
    case False
    with p assms show ?thesis
      by (auto simp: aws_member_def decode_failed_def dest!: dec_decode_shorter split: sum.splits)
  qed
qed

text \<open>The members of the file; tokens that are no strings are passed over.\<close>

function aws_members :: "string \<Rightarrow> json_dec \<Rightarrow> awsRawPricing \<Rightarrow> awsRawPricing decoded" where
  "aws_members serviceCode d raw =
     (if \<not> dec_more d then Decoded raw
      else
        (case dec_token d of
           Inl e \<Rightarrow> decode_failed serviceCode '' key'' e
         | Inr (TokString key, d1) \<Rightarrow>
             (case aws_member serviceCode key d1 raw of
                Decoded (raw, d2) \<Rightarrow> aws_members serviceCode d2 raw
              | DecodeFailed e \<Rightarrow> DecodeFailed e
              | Panicked \<Rightarrow> Panicked)
         | Inr (_, d1) \<Rightarrow> aws_members serviceCode d1 raw))"
  by pat_completeness auto
termination
  by (relation "measure (\<lambda>(c, d, m). length (jd_input d))") (auto dest!: dec_token_shorter aws_member_input)

declare aws_members.simps [simp del]

definition decodeAWSPricing :: "string \<times> string option \<Rightarrow> string \<Rightarrow> awsRawPricing decoded" where
  "decodeAWSPricing reader serviceCode =
     (case dec_token (new_decoder (fst reader) (snd reader)) of
        Inl e \<Rightarrow> decode_failed serviceCode '''' e
      | Inr (_, d) \<Rightarrow> aws_members serviceCode d zero_raw)"

subsection \<open>Products\<close>

text \<open>The orders in which the maps of a file are ranged over.\<close>

record aws_orders =
  ao_products :: "(string \<times> awsProduct) list \<Rightarrow> (string \<times> awsProduct) list"
  ao_offers :: "(string \<times> awsTermOffer) list \<Rightarrow> (string \<times> awsTermOffer) list"
  ao_dims :: "(string \<times> awsPriceDimension) list \<Rightarrow> (string \<times> awsPriceDimension) list"

definition dim_usd :: "rat \<Rightarrow> awsPriceDimension \<Rightarrow> string option" where
  "dim_usd rate pd =
     (let usd = attr_get (pd_PricePerUnit pd) ''USD'';
          cny = attr_get (pd_PricePerUnit pd) ''CNY'';
          usd = (if usd = '''' \<and> cny \<noteq> '''' then cnyToUSD rate cny else usd)
      in if usd = '''' then None else Some usd)"

definition end_range :: "awsPriceDimension \<Rightarrow> string" where
  "end_range pd = (if pd_EndRange pd = ''Inf'' then '''' else pd_EndRange pd)"

definition on_demand_price :: "rat \<Rightarrow> string \<Rightarrow> awsPriceDimension \<Rightarrow> price option" where
  "on_demand_price rate productHash pd =
     map_option
       (\<lambda>usd. \<lparr>pr_hash = PriceHash productHash ''on_demand'' (pd_Unit pd) (pd_BeginRange pd) (pd_Description pd) '''' '''' '''',
         pr_purchaseOption = ''on_demand'', pr_unit = pd_Unit pd, pr_USD = usd, pr_startUsage = pd_BeginRange pd,
         pr_endUsage = end_range pd, pr_description = pd_Description pd, pr_termLength = '''',
         pr_termPurchaseOption = '''', pr_termOfferingClass = ''''\<rparr>)
       (dim_usd rate pd)"

definition reserved_price :: "rat \<Rightarrow> string \<Rightarrow> attrs \<Rightarrow> awsPriceDimension \<Rightarrow> price option" where
  "reserved_price rate productHash term_attrs pd =
     (let termLength = attr_get term_attrs ''LeaseContractLength'';
          termPurchaseOption = attr_get term_attrs ''PurchaseOption'';
          termOfferingClass = attr_get term_attrs ''OfferingClass''
      in case dim_usd rate pd of
           None \<Rightarrow> None
         | Some usd \<Rightarrow>
             if pd_Unit pd = ''Quantity'' then None
             else Some
               \<lparr>pr_hash = PriceHash productHash ''reserved'' (pd_Unit pd) (pd_BeginRange pd) (pd_Description pd)
                            termLength termPurchaseOption termOfferingClass,
                pr_purchaseOption = ''reserved'', pr_unit = pd_Unit pd, pr_USD = usd, pr_startUsage = pd_BeginRange pd,
                pr_endUsage = end_range pd, pr_description = pd_Description pd, pr_termLength = termLength,
                pr_termPurchaseOption = termPurchaseOption, pr_termOfferingClass = termOfferingClass\<rparr>)"

definition term_prices ::
  "aws_orders \<Rightarrow> (awsTermOffer \<Rightarrow> awsPriceDimension \<Rightarrow> price option) \<Rightarrow> (string \<times> awsTermOffer) list \<Rightarrow> price list" where
  "term_prices ao price offers =
     concat (map (\<lambda>(k, offer). List.map_filter (price offer \<circ> snd) (ao_dims ao (to_PriceDimensions offer)))
       (ao_offers ao offers))"

definition offers_of :: "aws_terms \<Rightarrow> string \<Rightarrow> (string \<times> awsTermOffer) list" where
  "offers_of terms sku = (case map_of terms sku of Some offers \<Rightarrow> offers | None \<Rightarrow> [])"

definition aws_product :: "aws_orders \<Rightarrow> rat \<Rightarrow> awsRawPricing \<Rightarrow> string \<Rightarrow> string \<times> awsProduct \<Rightarrow> product" where
  "aws_product ao rate raw serviceCode kp =
     (case kp of (sku, awsProd) \<Rightarrow>
        let region = awsProductRegion (ap_Attributes awsProd);
            attrs = normalizeAWSAttributes serviceCode (ap_Attributes awsProd);
            productHash = ProductHash ''aws'' region serviceCode sku;
            family = normalizeProductFamily (ap_ProductFamily awsProd)
        in \<lparr>p_hash = productHash, p_sku = sku, p_vendor = ''aws'', p_region = region, p_service = serviceCode,
            p_family = (if family = '''' then attr_get attrs ''productFamily'' else family), p_attrs = attrs,
            p_prices =
              term_prices ao (\<lambda>offer. on_demand_price rate productHash) (offers_of (rp_onDemandTerms raw) sku)
              @ term_prices ao (\<lambda>offer. reserved_price rate productHash (to_TermAttributes offer))
                  (offers_of (rp_reservedTerms raw) sku)\<rparr>)"

definition buildProductList :: "aws_orders \<Rightarrow> rat \<Rightarrow> awsRawPricing \<Rightarrow> string \<Rightarrow> product list" where
  "buildProductList ao rate raw serviceCode =
     filter (\<lambda>p. p_prices p \<noteq> []) (map (aws_product ao rate raw serviceCode) (ao_products ao (rp_products raw)))"

definition parseAWSPricing :: "aws_orders \<Rightarrow> rat \<Rightarrow> string \<times> string option \<Rightarrow> string \<Rightarrow> product list decoded" where
  "parseAWSPricing ao rate reader serviceCode =
     (case decodeAWSPricing reader serviceCode of
        Decoded raw \<Rightarrow> Decoded (buildProductList ao rate raw serviceCode)
      | DecodeFailed e \<Rightarrow> DecodeFailed e
      | Panicked \<Rightarrow> Panicked)"

subsection \<open>Requests\<close>

text \<open>
  An answer comes with its content encoding. Decompression is a parameter: it refuses the header, or yields
  the bytes and the error that ends them.
\<close>

type_synonym gunzip = "string \<times> string option \<Rightarrow> string + string \<times> string option"

definition fetchGzip :: "gunzip \<Rightarrow> reply \<times> string \<Rightarrow> string + string \<times> string option" where
  "fetchGzip gunzip answer =
     (case answer of
        (BadURL e, _) \<Rightarrow> Inl e
      | (NoReply e, _) \<Rightarrow> Inl e
      | (Reply status body err, encoding) \<Rightarrow>
          if status \<noteq> 200 then Inl (''HTTP '' @ show_nat status)
          else if encoding = ''gzip'' then map_sum (\<lambda>e. ''gzip init: '' @ e) id (gunzip (body, err))
          else Inr (body, err))"

definition aws_service_url :: "string \<times> string \<Rightarrow> string" where
  "aws_service_url task =
     (case task of (service, part) \<Rightarrow>
        awsBaseURL @ ''/offers/v1.0/'' @ part @ ''/'' @ service @ ''/current/index.json'')"

text \<open>
  What a scrape meets. No goroutine of this scraper returns an error, so a context that ends
  shows in the answers only.
\<close>

record aws_world =
  ww_gunzip :: gunzip
  ww_service :: "string \<times> string \<Rightarrow> string \<Rightarrow> reply \<times> string"
  ww_index :: "string \<Rightarrow> reply"
  ww_region :: "string \<Rightarrow> string \<Rightarrow> reply \<times> string"
  ww_orders :: aws_orders
  ww_tasks :: "(string \<times> string) list \<Rightarrow> (string \<times> string) list"
  ww_regions :: "(string \<times> string) list \<Rightarrow> (string \<times> string) list"

definition aws_scrapeService :: "config \<Rightarrow> aws_world \<Rightarrow> string \<times> string \<Rightarrow> product list decoded" where
  "aws_scrapeService cfg ww task =
     (case fetchGzip (ww_gunzip ww) (ww_service ww task (aws_service_url task)) of
        Inl e \<Rightarrow> DecodeFailed (''fetch '' @ fst task @ '': '' @ e)
      | Inr reader \<Rightarrow> parseAWSPricing (ww_orders ww) (cny_rate cfg) reader (fst task))"

definition aws_tasks :: "(string \<times> string) list" where
  "aws_tasks =
     map (\<lambda>svc. (svc, ''aws'')) (filter (\<lambda>svc. svc \<noteq> ''AmazonEC2'') awsServices) @ map (\<lambda>svc. (svc, ''cn'')) chinaServices"

subsection \<open>The regions of EC2\<close>

definition region_index_url :: string where
  "region_index_url = awsBaseURL @ ''/offers/v1.0/aws/AmazonEC2/current/region_index.json''"

definition region_index_tags :: "(string \<times> (string \<times> string) list decoder) list" where
  "region_index_tags =
     [(''regions'', put_map (\<lambda>m. m) (\<lambda>x _. x) '''' (decode_struct [(''currentVersionUrl'', put_string (\<lambda>x _. x))]))]"

definition standard_region :: "string \<Rightarrow> bool" where
  "standard_region region \<longleftrightarrow> length (filter (\<lambda>ch. ch = CHR ''-'') region) \<le> 2"

definition fetchEC2RegionIndex :: "aws_world \<Rightarrow> string + (string \<times> string) list" where
  "fetchEC2RegionIndex ww =
     (case ww_index ww region_index_url of
        BadURL e \<Rightarrow> Inl (''create EC2 region index request: '' @ e)
      | NoReply e \<Rightarrow> Inl (''fetch EC2 region index: '' @ e)
      | Reply status body err \<Rightarrow>
          if status div 100 \<noteq> 2 then Inl (''EC2 region index HTTP '' @ show_nat status)
          else
            (case read_value (new_decoder body err) of
               Inl e \<Rightarrow> Inl (''decode EC2 region index: '' @ e)
             | Inr (j, _) \<Rightarrow>
                 (case decode_struct region_index_tags j ([], True) of
                    (regions, ok) \<Rightarrow>
                      if ok then
                        Inr (map (\<lambda>(region, url). (region, awsBaseURL @ url))
                          (filter (\<lambda>(region, url). standard_region region) (ww_regions ww regions)))
                      else Inl ''decode EC2 region index: type'')))"

definition aws_region_outcome :: "config \<Rightarrow> aws_world \<Rightarrow> string \<times> string \<Rightarrow> product list decoded" where
  "aws_region_outcome cfg ww r =
     (case fetchGzip (ww_gunzip ww) (ww_region ww (fst r) (snd r)) of
        Inl e \<Rightarrow> DecodeFailed e
      | Inr reader \<Rightarrow> parseAWSPricing (ww_orders ww) (cny_rate cfg) reader ''AmazonEC2'')"

text \<open>Failed regions, products accepted, and the state; regions in the order of their upserts.\<close>

record ec2_run =
  er_failed :: int
  er_total :: int
  er_state :: run_state

definition ec2_region :: "handler \<Rightarrow> product list decoded \<Rightarrow> ec2_run \<Rightarrow> ec2_run" where
  "ec2_region h outcome g =
     (case outcome of
        Decoded products \<Rightarrow>
          if products \<noteq> [] then
            (case h products (er_state g) of
               (Some e, s) \<Rightarrow> g\<lparr>er_failed := er_failed g + 1, er_state := s\<rparr>
             | (None, s) \<Rightarrow> g\<lparr>er_total := er_total g + int (length products), er_state := s\<rparr>)
          else g
      | _ \<Rightarrow> g\<lparr>er_failed := er_failed g + 1\<rparr>)"

definition streamEC2ByRegion :: "config \<Rightarrow> aws_world \<Rightarrow> handler \<Rightarrow> int \<Rightarrow> run_state \<Rightarrow> string option \<times> int \<times> run_state" where
  "streamEC2ByRegion cfg ww h failedServices s =
     (case fetchEC2RegionIndex ww of
        Inl e \<Rightarrow> (Some e, failedServices, s)
      | Inr regions \<Rightarrow>
          (let g = fold (\<lambda>r. ec2_region h (aws_region_outcome cfg ww r)) regions \<lparr>er_failed = 0, er_total = 0, er_state = s\<rparr> in
           if er_failed g > 0 \<and> er_total g = 0
           then (Some (''all '' @ show_int (er_failed g) @ '' EC2 regions failed to scrape''), failedServices, er_state g)
           else (None, failedServices + (if er_failed g > 0 then er_failed g else 0), er_state g)))"

text \<open>The services other than EC2, in the order in which their goroutines append their products.\<close>

definition decoded_products :: "product list decoded \<Rightarrow> product list" where
  "decoded_products r = (case r of Decoded ps \<Rightarrow> ps | _ \<Rightarrow> [])"

definition is_decoded :: "'a decoded \<Rightarrow> bool" where
  "is_decoded r = (case r of Decoded _ \<Rightarrow> True | _ \<Rightarrow> False)"

definition scrapeServices :: "config \<Rightarrow> aws_world \<Rightarrow> product list \<times> int" where
  "scrapeServices cfg ww =
     (let outcomes = map (aws_scrapeService cfg ww) (ww_tasks ww aws_tasks) in
      (concat (map decoded_products outcomes), int (length (filter (\<lambda>r. \<not> is_decoded r) outcomes))))"

text \<open>
  The scraper, for a scrape in which no file makes the reader panic (\<open>aws_survives\<close>): a panic ends the
  process.
\<close>

definition aws_survives :: "config \<Rightarrow> aws_world \<Rightarrow> bool" where
  "aws_survives cfg ww \<longleftrightarrow>
     (\<forall>t \<in> set (ww_tasks ww aws_tasks). aws_scrapeService cfg ww t \<noteq> Panicked)
     \<and> (case fetchEC2RegionIndex ww of
          Inl _ \<Rightarrow> True
        | Inr regions \<Rightarrow> \<forall>r \<in> set regions. aws_region_outcome cfg ww r \<noteq> Panicked)"

definition AWSScraper :: "config \<Rightarrow> aws_world \<Rightarrow> scraper" where
  "AWSScraper cfg ww =
     \<lparr>sc_name = ''AWS'',
      sc_scrape = (\<lambda>h s.
        case scrapeServices cfg ww of (products, failed) \<Rightarrow>
          if products \<noteq> [] then
            (case h products s of
               (Some e, s) \<Rightarrow> (Some (''upsert non-EC2 products: '' @ e), failed, s)
             | (None, s) \<Rightarrow> streamEC2ByRegion cfg ww h failed s)
          else streamEC2ByRegion cfg ww h failed s)\<rparr>"

end
