(* ===== verification/Aws_Properties.thy ===== *)
theory Aws_Properties
  imports Aws Scraper_Contract Run_Effect "HOL-Library.Multiset"
begin

text \<open>
  What the AWS scraper guarantees: its streaming reader agrees with parsing the file as a whole, and the
  interface of a scraper.
\<close>

subsection \<open>Texts and tokens\<close>

text \<open>A text that starts with a token, and the text after it.\<close>

lemma lex_next:
  assumes "lex_all s = Some (k # us)"
  obtains c t rest where "dropWhile json_space s = c # t" "lex_one (c # t) = Some (k, rest)" "lex_all rest = Some us"
proof -
  from assms have n: "dropWhile json_space s \<noteq> []" by (subst (asm) lex_all.simps) (auto simp: Let_def split: if_splits)
  then obtain c t where c: "dropWhile json_space s = c # t" by (cases "dropWhile json_space s") auto
  with assms obtain rest where "lex_one (c # t) = Some (k, rest)" "lex_all rest = Some us"
    by (subst (asm) lex_all.simps) (auto simp: Let_def split: option.splits)
  with c show ?thesis by (rule that)
qed

text \<open>The first byte tells the kind of the token.\<close>

lemma lex_one_head:
  assumes "lex_one (c # t) = Some (k, rest)"
  shows "(punct c = Some k \<and> rest = t) \<or> (punct c = None \<and> c = quote \<and> (\<exists>x. k = TString x)) \<or> (punct c = None \<and> c \<noteq> quote \<and> (\<exists>j. k = TLit j))"
  using assms by (auto simp: lex_one_def Let_def split: option.splits if_splits)

lemma punct_inv:
  "punct c = Some TLb \<longleftrightarrow> c = CHR ''[''" "punct c = Some TRb \<longleftrightarrow> c = CHR '']''" "punct c = Some TLc \<longleftrightarrow> c = CHR ''{''"
  "punct c = Some TRc \<longleftrightarrow> c = CHR ''}''" "punct c = Some TComma \<longleftrightarrow> c = CHR '',''" "punct c = Some TColon \<longleftrightarrow> c = CHR '':''"
  by (auto simp: punct_def)

text \<open>The machine that reads a value, on tokens; it stops at the first value.\<close>

fun first_value :: "mode \<Rightarrow> frame list \<Rightarrow> tok list \<Rightarrow> (json \<times> tok list) option" where
  "first_value m st [] = None"
| "first_value m st (k # ks) =
     (case jstep m st k of
        None \<Rightarrow> None
      | Some (m, st) \<Rightarrow> (case finished m st of Some v \<Rightarrow> Some (v, ks) | None \<Rightarrow> first_value m st ks))"

lemma json_first_tokens:
  "lex_all s = Some ts \<Longrightarrow> first_value m st ts = Some (v, us) \<Longrightarrow> \<exists>rest. json_first m st s = Some (v, rest) \<and> lex_all rest = Some us"
proof (induction ts arbitrary: m st s)
  case (Cons k ks)
  obtain c t rest where l: "dropWhile json_space s = c # t" "lex_one (c # t) = Some (k, rest)" "lex_all rest = Some ks"
    using lex_next [OF Cons.prems(1)] by blast
  obtain m' st' where j: "jstep m st k = Some (m', st')" using Cons.prems(2) by (auto split: option.splits)
  show ?case
  proof (cases "finished m' st'")
    case None
    with Cons.prems(2) j have "first_value m' st' ks = Some (v, us)" by simp
    from Cons.IH [OF l(3) this] l j None show ?thesis by (subst json_first.simps) auto
  next
    case (Some w)
    with Cons.prems(2) j l show ?thesis by (subst json_first.simps) auto
  qed
qed simp

lemma first_value_run:
  "jrun m st ts = Some v \<Longrightarrow> finished m st = None \<Longrightarrow> first_value m st (ts @ us) = Some (v, us)"
proof (induction ts arbitrary: m st)
  case Nil
  then show ?case by (auto simp: finished_def split: mode.splits list.splits)
next
  case (Cons k ks)
  then obtain m' st' where j: "jstep m st k = Some (m', st')" "jrun m' st' ks = Some v" by (auto split: option.splits)
  show ?case
  proof (cases "finished m' st'")
    case None
    with Cons.IH [OF j(2)] j(1) show ?thesis by simp
  next
    case (Some w)
    then have "m' = MDone w" "st' = []" by (auto simp: finished_def split: mode.splits list.splits)
    with j Some show ?thesis by (cases ks) (auto simp: jstep_def close_value_def)
  qed
qed

lemma fits_mono: "fits n j \<Longrightarrow> n \<le> m \<Longrightarrow> fits m j"
proof (induction n j arbitrary: m rule: fits.induct)
  case (2 n kvs)
  then show ?case by (fastforce simp: list_all_iff)
qed (auto simp: list_all_iff)

lemma value_text:
  assumes "lex_all s = Some (toks v @ us)" "fits maxNestingDepth v"
  shows "\<exists>rest. json_first MVal [] s = Some (v, rest) \<and> lex_all rest = Some us"
proof -
  have "jrun MVal [] (toks v) = Some v" using jrun_toks [of maxNestingDepth v "[]" "[]"] assms(2) by simp
  from first_value_run [OF this, of us] have "first_value MVal [] (toks v @ us) = Some (v, us)" by (simp add: finished_def)
  from json_first_tokens [OF assms(1) this] show ?thesis .
qed

lemma read_value_text:
  assumes "lex_all (jd_input d) = Some (toks v @ us)" "fits maxNestingDepth v" "us \<noteq> []"
  shows "\<exists>rest. read_value d = Inr (v, d\<lparr>jd_input := rest\<rparr>) \<and> lex_all rest = Some us"
proof -
  obtain rest where "json_first MVal [] (jd_input d) = Some (v, rest)" "lex_all rest = Some us"
    using value_text [OF assms(1,2)] by blast
  moreover from this assms(3) have "rest \<noteq> []" by auto
  ultimately show ?thesis by (intro exI [of _ rest]) (simp add: read_value_def)
qed

text \<open>The calls of the reader, on the tokens ahead.\<close>

lemma head_char:
  assumes "lex_all s = Some (k # us)" "punct c = Some k"
  obtains t where "dropWhile json_space s = c # t" "lex_all t = Some us"
proof -
  obtain c' t rest where l: "dropWhile json_space s = c' # t" "lex_one (c' # t) = Some (k, rest)" "lex_all rest = Some us"
    using lex_next [OF assms(1)] by blast
  from assms(2) have "k \<notin> range TString \<union> range TLit" by (auto simp: punct_def split: if_splits)
  with lex_one_head [OF l(2)] have "punct c' = Some k" "rest = t" by auto
  moreover from this assms(2) have "c' = c" by (auto simp: punct_def split: if_splits)
  ultimately show ?thesis using l that by simp
qed

lemma head_string:
  assumes "lex_all s = Some (TString x # us)"
  obtains t where "dropWhile json_space s = quote # t"
proof -
  obtain c t rest where l: "dropWhile json_space s = c # t" "lex_one (c # t) = Some (TString x, rest)"
    using lex_next [OF assms(1)] by blast
  with lex_one_head [OF l(2)] have "c = quote" by (auto simp: punct_def split: if_splits)
  with l that show ?thesis by simp
qed

lemma quote_plain: "punct quote = None" "quote \<noteq> CHR ''['' \<and> quote \<noteq> CHR '']'' \<and> quote \<noteq> CHR ''{'' \<and> quote \<noteq> CHR ''}'' \<and> quote \<noteq> CHR '':'' \<and> quote \<noteq> CHR '',''"
  by code_simp+

lemma more_close: "lex_all (jd_input d) = Some (TRc # us) \<Longrightarrow> \<not> dec_more d"
  by (erule head_char [where c = "CHR ''}''"]) (simp_all add: punct_def dec_more_def)

lemma more_key: "lex_all (jd_input d) = Some (TString x # us) \<Longrightarrow> dec_more d"
  by (erule head_string) (use quote_plain(2) in \<open>simp add: dec_more_def\<close>)

lemma more_comma: "lex_all (jd_input d) = Some (TComma # us) \<Longrightarrow> dec_more d"
  by (erule head_char [where c = "CHR '',''"]) (simp_all add: punct_def dec_more_def)

lemma token_open:
  assumes "lex_all (jd_input d) = Some (TLc # us)" "jd_state d = TopValue"
  shows "\<exists>t. lex_all t = Some us \<and> dec_token d
     = Inr (TokDelim (CHR ''{''), d\<lparr>jd_input := t, jd_stack := jd_state d # jd_stack d, jd_state := ObjectStart\<rparr>)"
proof -
  obtain t where "dropWhile json_space (jd_input d) = CHR ''{'' # t" "lex_all t = Some us"
    by (rule head_char [OF assms(1), of "CHR ''{''"]) (simp_all add: punct_def)
  with assms(2) show ?thesis
    by (intro exI [of _ t]) (simp add: dec_token.simps skip_separator_def plain_token_def open_delim_def value_allowed_def)
qed

text \<open>The opening of a member that is an object: its colon is skipped.\<close>

lemma token_open_member:
  assumes "lex_all (jd_input d) = Some (TColon # TLc # us)" "jd_state d = ObjectColon"
  shows "\<exists>t. lex_all t = Some us \<and> dec_token d
     = Inr (TokDelim (CHR ''{''), d\<lparr>jd_input := t, jd_stack := ObjectValue # jd_stack d, jd_state := ObjectStart\<rparr>)"
proof -
  obtain t1 where 1: "dropWhile json_space (jd_input d) = CHR '':'' # t1" "lex_all t1 = Some (TLc # us)"
    by (rule head_char [OF assms(1), of "CHR '':''"]) (simp_all add: punct_def)
  obtain t where "dropWhile json_space t1 = CHR ''{'' # t" "lex_all t = Some us"
    by (rule head_char [OF 1(2), of "CHR ''{''"]) (simp_all add: punct_def)
  with 1 assms(2) show ?thesis
    by (intro exI [of _ t]) (simp add: dec_token.simps skip_separator_def plain_token_def open_delim_def value_allowed_def)
qed

lemma token_close:
  assumes "lex_all (jd_input d) = Some (TRc # us)" "jd_state d \<in> {ObjectStart, ObjectComma}" "jd_stack d = s # stack"
  shows "\<exists>t. lex_all t = Some us \<and> dec_token d
     = Inr (TokDelim (CHR ''}''), d\<lparr>jd_input := t, jd_stack := stack, jd_state := value_end s\<rparr>)"
proof -
  obtain t where "dropWhile json_space (jd_input d) = CHR ''}'' # t" "lex_all t = Some us"
    by (rule head_char [OF assms(1), of "CHR ''}''"]) (simp_all add: punct_def)
  with assms(2,3) show ?thesis
    by (intro exI [of _ t]) (simp add: dec_token.simps skip_separator_def plain_token_def close_delim_def)
qed

lemma token_first_key:
  assumes "lex_all (jd_input d) = Some (TString x # us)" "jd_state d \<in> {ObjectStart, ObjectKey}" "us \<noteq> []"
  shows "\<exists>t. lex_all t = Some us \<and> dec_token d = Inr (TokString x, d\<lparr>jd_input := t, jd_state := ObjectColon\<rparr>)"
proof -
  obtain t where t: "dropWhile json_space (jd_input d) = quote # t" by (rule head_string [OF assms(1)])
  obtain rest where "read_value d = Inr (JStr x, d\<lparr>jd_input := rest\<rparr>)" "lex_all rest = Some us"
    using read_value_text [of d "JStr x" us] assms(1,3) by auto
  with t assms(2) quote_plain show ?thesis
    by (intro exI [of _ rest]) (auto simp: dec_token.simps skip_separator_def plain_token_def key_token_def)
qed

lemma token_key:
  assumes "lex_all (jd_input d) = Some (TComma # TString x # us)" "jd_state d = ObjectComma" "us \<noteq> []"
  shows "\<exists>t. lex_all t = Some us \<and> dec_token d = Inr (TokString x, d\<lparr>jd_input := t, jd_state := ObjectColon\<rparr>)"
proof -
  obtain t1 where 1: "dropWhile json_space (jd_input d) = CHR '','' # t1" "lex_all t1 = Some (TString x # us)"
    by (rule head_char [OF assms(1), of "CHR '',''"]) (simp_all add: punct_def)
  then have "dec_token d = dec_token (d\<lparr>jd_input := t1, jd_state := ObjectKey\<rparr>)"
    using assms(2) by (subst dec_token.simps) (simp add: skip_separator_def)
  with token_first_key [of "d\<lparr>jd_input := t1, jd_state := ObjectKey\<rparr>" x us] 1(2) assms(3) show ?thesis by simp
qed

lemma decode_member:
  assumes "lex_all (jd_input d) = Some (TColon # toks v @ us)" "jd_state d = ObjectColon" "us \<noteq> []" "fits maxNestingDepth v"
  shows "\<exists>t. lex_all t = Some us \<and> dec_decode d = Inr (v, d\<lparr>jd_input := t, jd_state := ObjectComma\<rparr>)"
proof -
  obtain t1 where 1: "dropWhile json_space (jd_input d) = CHR '':'' # t1" "lex_all t1 = Some (toks v @ us)"
    by (rule head_char [OF assms(1), of "CHR '':''"]) (simp_all add: punct_def)
  from read_value_text [of "d\<lparr>jd_input := t1, jd_state := ObjectValue\<rparr>" v us] 1(2) assms(3,4)
  obtain t where "lex_all t = Some us"
    "read_value (d\<lparr>jd_input := t1, jd_state := ObjectValue\<rparr>) = Inr (v, d\<lparr>jd_input := t, jd_state := ObjectValue\<rparr>)" by auto
  with 1(1) assms(2) show ?thesis
    by (intro exI [of _ t]) (simp add: dec_decode_def prepare_decode_def take_separator_def value_allowed_def value_end_def)
qed

subsection \<open>The streaming reader and the file\<close>

text \<open>
  The reference: the file is parsed as a whole, and its members are read from the tree. \<open>f\<close> words the
  error of a value of the wrong type.
\<close>

fun read_members :: "(string \<Rightarrow> string \<Rightarrow> string) \<Rightarrow> (string \<Rightarrow> json \<Rightarrow> 'a \<Rightarrow> 'a \<times> bool) \<Rightarrow> (string \<times> json) list \<Rightarrow> 'a \<Rightarrow> 'a decoded" where
  "read_members f put [] x = Decoded x"
| "read_members f put ((k, j) # kvs) x =
     (case put k j x of (x, ok) \<Rightarrow> if ok then read_members f put kvs x else DecodeFailed (f k ''type''))"

definition product_error :: "string \<Rightarrow> string \<Rightarrow> string \<Rightarrow> string" where
  "product_error serviceCode sku e = ''decode '' @ serviceCode @ '' product '' @ sku @ '': '' @ e"

definition terms_error :: "string \<Rightarrow> string \<Rightarrow> string \<Rightarrow> string" where
  "terms_error serviceCode t e =
     ''decode '' @ serviceCode @ (if t \<in> {''OnDemand'', ''Reserved''} then '' '' @ t @ '' terms'' else '' skip term '' @ t) @ '': '' @ e"

definition object_members :: "json \<Rightarrow> (string \<times> json) list" where
  "object_members v = (case v of JObj kvs \<Rightarrow> kvs | _ \<Rightarrow> [])"

definition read_member :: "string \<Rightarrow> string \<Rightarrow> json \<Rightarrow> awsRawPricing \<Rightarrow> awsRawPricing decoded" where
  "read_member serviceCode key v raw =
     (if key = ''products'' then
        map_decoded (\<lambda>m. raw\<lparr>rp_products := m\<rparr>)
          (read_members (product_error serviceCode) put_product (object_members v) (rp_products raw))
      else if key = ''terms'' then read_members (terms_error serviceCode) put_terms (object_members v) raw
      else Decoded raw)"

fun read_file :: "string \<Rightarrow> (string \<times> json) list \<Rightarrow> awsRawPricing \<Rightarrow> awsRawPricing decoded" where
  "read_file serviceCode [] raw = Decoded raw"
| "read_file serviceCode ((k, v) # kvs) raw =
     (case read_member serviceCode k v raw of
        Decoded raw \<Rightarrow> read_file serviceCode kvs raw
      | DecodeFailed e \<Rightarrow> DecodeFailed e
      | Panicked \<Rightarrow> Panicked)"

text \<open>A file of the documented shape: \<open>products\<close> and \<open>terms\<close> are objects.\<close>

definition offer_file :: "(string \<times> json) list \<Rightarrow> bool" where
  "offer_file kvs \<longleftrightarrow> list_all (\<lambda>(k, v). k \<in> {''products'', ''terms''} \<longrightarrow> (case v of JObj ps \<Rightarrow> True | _ \<Rightarrow> False)) kvs"

definition member_toks :: "string \<times> json \<Rightarrow> tok list" where
  "member_toks kv = TString (fst kv) # TColon # toks (snd kv)"

definition more_toks :: "(string \<times> json) list \<Rightarrow> tok list" where
  "more_toks kvs = concat (map (\<lambda>kv. TComma # member_toks kv) kvs)"

lemma toks_object:
  "toks (JObj []) = [TLc, TRc]"
  "toks (JObj (kv # kvs)) = TLc # member_toks kv @ more_toks kvs @ [TRc]"
proof -
  have "sep_concat c (x # xs) = x @ concat (map ((#) c) xs)" for c :: tok and x xs
    by (induction xs arbitrary: x) simp_all
  moreover have "(\<lambda>(k, v). TString k # TColon # toks v) = member_toks" by (auto simp: member_toks_def)
  ultimately show "toks (JObj (kv # kvs)) = TLc # member_toks kv @ more_toks kvs @ [TRc]"
    by (simp add: more_toks_def comp_def del: sep_concat.simps)
qed simp

lemma object_loop_more:
  assumes "lex_all (jd_input d) = Some (more_toks kvs @ TRc # us)" "jd_state d = ObjectComma"
    and "list_all (\<lambda>(k, v). fits maxNestingDepth v) kvs"
  shows "\<exists>t. lex_all t = Some (TRc # us) \<and> object_loop ke (\<lambda>k e. DecodeFailed (f k e)) put d x
     = map_decoded (\<lambda>y. (y, d\<lparr>jd_input := t\<rparr>)) (read_members f put kvs x)"
  using assms
proof (induction kvs arbitrary: d x)
  case Nil
  then show ?case
    by (intro exI [of _ "jd_input d"]) (simp add: more_toks_def more_close object_loop.simps)
next
  case (Cons kv kvs)
  obtain k v where kv: "kv = (k, v)" by fastforce
  let ?us = "more_toks kvs @ TRc # us"
  have l: "lex_all (jd_input d) = Some (TComma # TString k # TColon # toks v @ ?us)"
    using Cons.prems(1) by (simp add: more_toks_def member_toks_def kv)
  obtain t1 where 1: "lex_all t1 = Some (TColon # toks v @ ?us)"
      "dec_token d = Inr (TokString k, d\<lparr>jd_input := t1, jd_state := ObjectColon\<rparr>)"
    using token_key [OF l Cons.prems(2)] by auto
  obtain t2 where 2: "lex_all t2 = Some ?us"
      "dec_decode (d\<lparr>jd_input := t1, jd_state := ObjectColon\<rparr>) = Inr (v, d\<lparr>jd_input := t2\<rparr>)"
    using decode_member [of "d\<lparr>jd_input := t1, jd_state := ObjectColon\<rparr>" v ?us] 1(1) Cons.prems(2,3) kv by auto
  have m: "dec_more d" by (rule more_comma [OF l])
  obtain y ok where p: "put k v x = (y, ok)" by fastforce
  have step: "object_loop ke (\<lambda>k e. DecodeFailed (f k e)) put d x
      = (if ok then object_loop ke (\<lambda>k e. DecodeFailed (f k e)) put (d\<lparr>jd_input := t2\<rparr>) y else DecodeFailed (f k ''type''))"
    by (subst object_loop.simps) (simp add: m 1(2) 2(2) p)
  from Cons.IH [of "d\<lparr>jd_input := t2\<rparr>" y] Cons.prems 2(1) kv obtain t where
    "lex_all t = Some (TRc # us)"
    "object_loop ke (\<lambda>k e. DecodeFailed (f k e)) put (d\<lparr>jd_input := t2\<rparr>) y
      = map_decoded (\<lambda>y. (y, d\<lparr>jd_input := t\<rparr>)) (read_members f put kvs y)" by auto
  with step p kv show ?case by (intro exI [of _ t]) simp
qed

lemma object_loop_start:
  assumes "lex_all (jd_input d) = Some us'" "TLc # us' = toks (JObj kvs) @ us" "jd_state d = ObjectStart"
    and "list_all (\<lambda>(k, v). fits maxNestingDepth v) kvs"
  shows "\<exists>t s. lex_all t = Some (TRc # us) \<and> s \<in> {ObjectStart, ObjectComma}
     \<and> object_loop ke (\<lambda>k e. DecodeFailed (f k e)) put d x
       = map_decoded (\<lambda>y. (y, d\<lparr>jd_input := t, jd_state := s\<rparr>)) (read_members f put kvs x)"
proof (cases kvs)
  case Nil
  with assms show ?thesis
    by (intro exI [of _ "jd_input d"] exI [of _ ObjectStart]) (simp add: more_close object_loop.simps)
next
  case (Cons kv kvs')
  obtain k v where kv: "kv = (k, v)" by fastforce
  let ?us = "more_toks kvs' @ TRc # us"
  have l: "lex_all (jd_input d) = Some (TString k # TColon # toks v @ ?us)"
    using assms(1,2) Cons by (simp add: toks_object member_toks_def kv del: toks.simps)
  obtain t1 where 1: "lex_all t1 = Some (TColon # toks v @ ?us)"
      "dec_token d = Inr (TokString k, d\<lparr>jd_input := t1, jd_state := ObjectColon\<rparr>)"
    using token_first_key [OF l] assms(3) by auto
  obtain t2 where 2: "lex_all t2 = Some ?us"
      "dec_decode (d\<lparr>jd_input := t1, jd_state := ObjectColon\<rparr>) = Inr (v, d\<lparr>jd_input := t2, jd_state := ObjectComma\<rparr>)"
    using decode_member [of "d\<lparr>jd_input := t1, jd_state := ObjectColon\<rparr>" v ?us] 1(1) assms(4) Cons kv by auto
  obtain y ok where p: "put k v x = (y, ok)" by fastforce
  have step: "object_loop ke (\<lambda>k e. DecodeFailed (f k e)) put d x
      = (if ok then object_loop ke (\<lambda>k e. DecodeFailed (f k e)) put (d\<lparr>jd_input := t2, jd_state := ObjectComma\<rparr>) y
         else DecodeFailed (f k ''type''))"
    by (subst object_loop.simps) (simp add: more_key [OF l] 1(2) 2(2) p)
  have swap: "d\<lparr>jd_state := s, jd_input := u\<rparr> = d\<lparr>jd_input := u, jd_state := s\<rparr>" for s u by simp
  from object_loop_more [of "d\<lparr>jd_input := t2, jd_state := ObjectComma\<rparr>" kvs' us ke f put y] 2(1) assms(4) Cons obtain t where
    "lex_all t = Some (TRc # us)"
    "object_loop ke (\<lambda>k e. DecodeFailed (f k e)) put (d\<lparr>jd_input := t2, jd_state := ObjectComma\<rparr>) y
      = map_decoded (\<lambda>y. (y, d\<lparr>jd_input := t, jd_state := ObjectComma\<rparr>)) (read_members f put kvs' y)" by (auto simp: swap)
  with step p kv Cons show ?thesis by (intro exI [of _ t] exI [of _ ObjectComma]) simp
qed

lemma section_text:
  assumes "lex_all (jd_input d) = Some (TColon # toks (JObj kvs) @ us)" "jd_state d = ObjectColon"
    and "list_all (\<lambda>(k, v). fits maxNestingDepth v) kvs"
  shows "\<exists>t. lex_all t = Some us \<and> in_section c name d (\<lambda>d. object_loop ke (\<lambda>k e. DecodeFailed (f k e)) put d x)
     = map_decoded (\<lambda>y. (y, d\<lparr>jd_input := t, jd_state := ObjectComma\<rparr>)) (read_members f put kvs x)"
proof -
  obtain us' where us': "TLc # us' = toks (JObj kvs) @ us" by (cases kvs) (simp_all add: toks_object)
  obtain t1 where 1: "lex_all t1 = Some us'" "dec_token d
     = Inr (TokDelim (CHR ''{''), d\<lparr>jd_input := t1, jd_stack := ObjectValue # jd_stack d, jd_state := ObjectStart\<rparr>)"
    using token_open_member [of d us'] assms(1,2) by (auto simp: us' [symmetric] simp del: toks.simps)
  let ?d1 = "d\<lparr>jd_input := t1, jd_stack := ObjectValue # jd_stack d, jd_state := ObjectStart\<rparr>"
  obtain t2 s where 2: "lex_all t2 = Some (TRc # us)" "s \<in> {ObjectStart, ObjectComma}"
    "object_loop ke (\<lambda>k e. DecodeFailed (f k e)) put ?d1 x
      = map_decoded (\<lambda>y. (y, ?d1\<lparr>jd_input := t2, jd_state := s\<rparr>)) (read_members f put kvs x)"
    using object_loop_start [of ?d1 us' kvs us ke f put x] 1(1) us' assms(3) by auto
  obtain t where 3: "lex_all t = Some us" "dec_token (?d1\<lparr>jd_input := t2, jd_state := s\<rparr>)
     = Inr (TokDelim (CHR ''}''), d\<lparr>jd_input := t, jd_state := ObjectComma\<rparr>)"
    using token_close [of "?d1\<lparr>jd_input := t2, jd_state := s\<rparr>" us ObjectValue "jd_stack d"] 2(1,2)
    by (auto simp: value_end_def)
  show ?thesis
    by (intro exI [of _ t] conjI 3(1), cases "read_members f put kvs x")
      (use 1(2) 2(3) 3(2) in \<open>simp_all add: in_section_def\<close>)
qed

lemma fits_members: "fits n (JObj kvs) \<Longrightarrow> n \<le> maxNestingDepth \<Longrightarrow> list_all (\<lambda>(k, v). fits maxNestingDepth v) kvs"
  by (auto simp: list_all_iff intro: fits_mono)

lemma aws_member_text:
  assumes "lex_all (jd_input d) = Some (TColon # toks v @ us)" "jd_state d = ObjectColon" "us \<noteq> [] \<or> k \<in> {''products'', ''terms''}"
    and "fits maxNestingDepth v" "offer_file [(k, v)]"
  shows "\<exists>t. lex_all t = Some us \<and> aws_member c k d raw
     = map_decoded (\<lambda>raw. (raw, d\<lparr>jd_input := t, jd_state := ObjectComma\<rparr>)) (read_member c k v raw)"
proof (cases "k \<in> {''products'', ''terms''}")
  case False
  with assms(3) have "us \<noteq> []" by simp
  from decode_member [OF assms(1,2) this assms(4)] obtain t where
    "lex_all t = Some us" "dec_decode d = Inr (v, d\<lparr>jd_input := t, jd_state := ObjectComma\<rparr>)" by blast
  with False show ?thesis by (intro exI [of _ t]) (simp add: aws_member_def read_member_def)
next
  case True
  with assms(5) obtain kvs where v: "v = JObj kvs" by (auto simp: offer_file_def split: json.splits)
  have fit: "list_all (\<lambda>(k, v). fits maxNestingDepth v) kvs" using assms(4) v fits_members by blast
  note s = section_text [OF assms(1) [unfolded v] assms(2) fit]
  have errors: "(\<lambda>sku. decode_failed c ('' product '' @ sku)) = (\<lambda>k e. DecodeFailed (product_error c k e))"
    "(\<lambda>t. decode_failed c (if t \<in> {''OnDemand'', ''Reserved''} then '' '' @ t @ '' terms'' else '' skip term '' @ t))
      = (\<lambda>k e. DecodeFailed (terms_error c k e))"
    by (simp_all add: decode_failed_def product_error_def terms_error_def fun_eq_iff)
  show ?thesis
  proof (cases "k = ''products''")
    case True
    obtain t where "lex_all t = Some us" "in_section c k d (\<lambda>d. aws_products c d (rp_products raw))
        = map_decoded (\<lambda>y. (y, d\<lparr>jd_input := t, jd_state := ObjectComma\<rparr>)) (read_members (product_error c) put_product kvs (rp_products raw))"
      using s [where c = c and name = k and ke = "decode_failed c '' product key''" and f = "product_error c" and put = put_product
          and x = "rp_products raw"] unfolding aws_products_def errors by (elim exE conjE)
    with True v show ?thesis
      by (intro exI [of _ t], cases "read_members (product_error c) put_product kvs (rp_products raw)")
        (simp_all add: aws_member_def read_member_def object_members_def)
  next
    case False
    obtain t where "lex_all t = Some us" "in_section c k d (\<lambda>d. aws_terms_loop c d raw)
        = map_decoded (\<lambda>y. (y, d\<lparr>jd_input := t, jd_state := ObjectComma\<rparr>)) (read_members (terms_error c) put_terms kvs raw)"
      using s [where c = c and name = k and ke = "decode_failed c '' term type''" and f = "terms_error c" and put = put_terms
          and x = raw] unfolding aws_terms_loop_def errors by (elim exE conjE)
    with False True v show ?thesis
      by (intro exI [of _ t]) (simp add: aws_member_def read_member_def object_members_def)
  qed
qed

lemma lex_suffix: "lex_all s = Some (ts @ us) \<Longrightarrow> \<exists>t. lex_all t = Some us"
proof (induction ts arbitrary: s)
  case (Cons k ts)
  from Cons.prems obtain rest where "lex_all rest = Some (ts @ us)" by (auto elim: lex_next)
  then show ?case by (rule Cons.IH)
qed auto

definition then_read :: "'a decoded \<Rightarrow> ('a \<Rightarrow> 'b decoded) \<Rightarrow> 'b decoded" where
  "then_read r f = (case r of Decoded x \<Rightarrow> f x | DecodeFailed e \<Rightarrow> DecodeFailed e | Panicked \<Rightarrow> Panicked)"

lemma then_read_simps [simp]:
  "then_read (Decoded x) f = f x" "then_read (DecodeFailed e) f = DecodeFailed e" "then_read Panicked f = Panicked"
  by (simp_all add: then_read_def)

lemma aws_members_one:
  assumes "dec_more d" "dec_token d = Inr (TokString k, d\<lparr>jd_input := t1, jd_state := ObjectColon\<rparr>)"
    and "aws_member c k (d\<lparr>jd_input := t1, jd_state := ObjectColon\<rparr>) raw = map_decoded (\<lambda>raw. (raw, d')) (read_member c k v raw)"
  shows "aws_members c d raw = then_read (read_member c k v raw) (aws_members c d')"
  by (subst aws_members.simps, cases "read_member c k v raw") (simp_all add: assms)

lemma read_file_Cons: "read_file c ((k, v) # kvs) raw = then_read (read_member c k v raw) (read_file c kvs)"
  by (simp add: then_read_def)

text \<open>The members of a file in front of \<open>ts\<close>, after its first member and from its start.\<close>

lemma aws_members_more:
  assumes "lex_all (jd_input d) = Some (more_toks kvs @ ts)" "jd_state d = ObjectComma" "ts \<noteq> []"
    and "list_all (\<lambda>(k, v). fits maxNestingDepth v) kvs" "offer_file kvs"
  shows "\<exists>t. lex_all t = Some ts \<and> aws_members c d raw = then_read (read_file c kvs raw) (aws_members c (d\<lparr>jd_input := t\<rparr>))"
  using assms
proof (induction kvs arbitrary: d raw)
  case Nil
  then show ?case by (intro exI [of _ "jd_input d"]) (simp add: more_toks_def)
next
  case (Cons kv kvs)
  obtain k v where kv: "kv = (k, v)" by fastforce
  let ?us = "more_toks kvs @ ts"
  have l: "lex_all (jd_input d) = Some (TComma # TString k # TColon # toks v @ ?us)"
    using Cons.prems(1) by (simp add: more_toks_def member_toks_def kv)
  have off: "offer_file [(k, v)]" "offer_file kvs" using Cons.prems(5) kv by (simp_all add: offer_file_def)
  obtain t1 where 1: "lex_all t1 = Some (TColon # toks v @ ?us)"
      "dec_token d = Inr (TokString k, d\<lparr>jd_input := t1, jd_state := ObjectColon\<rparr>)"
    using token_key [OF l Cons.prems(2)] by auto
  let ?d1 = "d\<lparr>jd_input := t1, jd_state := ObjectColon\<rparr>"
  obtain t2 where 2: "lex_all t2 = Some ?us" "aws_member c k ?d1 raw
      = map_decoded (\<lambda>raw. (raw, d\<lparr>jd_input := t2, jd_state := ObjectComma\<rparr>)) (read_member c k v raw)"
    using aws_member_text [of ?d1 v ?us k c raw] 1(1) Cons.prems(3,4) kv off by auto
  note one = aws_members_one [OF more_comma [OF l] 1(2) 2(2)]
  show ?case
  proof (cases "read_member c k v raw")
    case (Decoded raw')
    with Cons.IH [of "d\<lparr>jd_input := t2, jd_state := ObjectComma\<rparr>" raw'] 2(1) Cons.prems(2-4) off obtain t where
      "lex_all t = Some ts" "aws_members c (d\<lparr>jd_input := t2, jd_state := ObjectComma\<rparr>) raw'
        = then_read (read_file c kvs raw') (aws_members c (d\<lparr>jd_state := ObjectComma, jd_input := t\<rparr>))" by auto
    moreover have "d\<lparr>jd_state := ObjectComma, jd_input := t\<rparr> = d\<lparr>jd_input := t\<rparr>" for t using Cons.prems(2) by simp
    ultimately show ?thesis using one Decoded kv by (intro exI [of _ t]) (simp add: read_file_Cons del: read_file.simps)
  qed (use one kv Cons.prems(3) 2 lex_suffix [OF 2(1)] in \<open>auto simp: read_file_Cons simp del: read_file.simps\<close>)
qed

lemma aws_decode_front:
  assumes "lex_all s = Some (TLc # member_toks kv @ more_toks kvs @ ts)" "ts \<noteq> []"
    and "list_all (\<lambda>(k, v). fits maxNestingDepth v) (kv # kvs)" "offer_file (kv # kvs)"
  shows "\<exists>t. lex_all t = Some ts \<and> decodeAWSPricing (s, err) c = then_read (read_file c (kv # kvs) zero_raw)
     (aws_members c \<lparr>jd_input = t, jd_err = err, jd_state = ObjectComma, jd_stack = [TopValue]\<rparr>)"
proof -
  obtain k v where kv: "kv = (k, v)" by fastforce
  let ?d = "new_decoder s err" and ?us = "more_toks kvs @ ts"
  obtain t0 where t0: "lex_all t0 = Some (TString k # TColon # toks v @ ?us)" "dec_token ?d
     = Inr (TokDelim (CHR ''{''), ?d\<lparr>jd_input := t0, jd_stack := [TopValue], jd_state := ObjectStart\<rparr>)"
    using token_open [of ?d "TString k # TColon # toks v @ ?us"] assms(1) by (auto simp: new_decoder_def member_toks_def kv)
  let ?d0 = "?d\<lparr>jd_input := t0, jd_stack := [TopValue], jd_state := ObjectStart\<rparr>"
  have l: "lex_all (jd_input ?d0) = Some (TString k # TColon # toks v @ ?us)" using t0(1) by simp
  obtain t1 where 1: "lex_all t1 = Some (TColon # toks v @ ?us)"
      "dec_token ?d0 = Inr (TokString k, ?d0\<lparr>jd_input := t1, jd_state := ObjectColon\<rparr>)"
    using token_first_key [OF l] by auto
  let ?d1 = "?d0\<lparr>jd_input := t1, jd_state := ObjectColon\<rparr>"
  have off: "offer_file [(k, v)]" "offer_file kvs" using assms(4) kv by (simp_all add: offer_file_def)
  obtain t2 where 2: "lex_all t2 = Some ?us" "aws_member c k ?d1 zero_raw
      = map_decoded (\<lambda>raw. (raw, ?d1\<lparr>jd_input := t2, jd_state := ObjectComma\<rparr>)) (read_member c k v zero_raw)"
    using aws_member_text [of ?d1 v ?us k c zero_raw] 1(1) assms(2,3) kv off by auto
  have d2: "?d1\<lparr>jd_input := t, jd_state := ObjectComma\<rparr> = \<lparr>jd_input = t, jd_err = err, jd_state = ObjectComma, jd_stack = [TopValue]\<rparr>" for t
    by (simp add: new_decoder_def)
  note one = aws_members_one [OF more_key [OF l] 1(2) 2(2), unfolded d2]
  have "decodeAWSPricing (s, err) c = aws_members c ?d0 zero_raw" by (simp add: decodeAWSPricing_def t0(2))
  note one = this [unfolded one]
  show ?thesis
  proof (cases "read_member c k v zero_raw")
    case (Decoded raw')
    from aws_members_more [of "\<lparr>jd_input = t2, jd_err = err, jd_state = ObjectComma, jd_stack = [TopValue]\<rparr>" kvs ts c raw'] 2(1) assms(2,3) off
    obtain t where "lex_all t = Some ts" "aws_members c \<lparr>jd_input = t2, jd_err = err, jd_state = ObjectComma, jd_stack = [TopValue]\<rparr> raw'
        = then_read (read_file c kvs raw') (aws_members c \<lparr>jd_input = t, jd_err = err, jd_state = ObjectComma, jd_stack = [TopValue]\<rparr>)"
      by auto
    with one Decoded kv show ?thesis by (intro exI [of _ t]) (simp add: read_file_Cons del: read_file.simps)
  qed (use one kv lex_suffix [OF 2(1)] in \<open>auto simp: read_file_Cons simp del: read_file.simps\<close>)
qed

lemma read_members_total: "read_members f put kvs x \<noteq> Panicked"
  by (induction kvs arbitrary: x) (auto split: prod.splits if_splits)

lemma read_file_total: "read_file c kvs raw \<noteq> Panicked"
proof (induction kvs arbitrary: raw)
  case (Cons kv kvs)
  have m: "map_decoded g r = Panicked \<longleftrightarrow> r = Panicked" for g :: "'x \<Rightarrow> 'y" and r by (cases r) auto
  have "read_member c k v raw \<noteq> Panicked" for k v by (simp add: read_member_def m read_members_total)
  with Cons show ?case by (cases kv) (auto split: decoded.split)
qed simp

text \<open>
  C37: the streaming reader reads what the file says. On every text, with any white space and any spelling of its
  strings, of a JSON object whose \<open>products\<close> and \<open>terms\<close> are objects, nested no deeper than the decoder allows, the
  stream of tokens gives the same products and terms, or the same error, as parsing the whole file and reading the
  tree, and no type assertion panics.
\<close>

theorem aws_stream_equals_parse:
  assumes "lex_all s = Some (toks (JObj kvs))" "fits maxNestingDepth (JObj kvs)" "offer_file kvs"
  shows "decodeAWSPricing (s, err) serviceCode = read_file serviceCode kvs zero_raw
    \<and> decodeAWSPricing (s, err) serviceCode \<noteq> Panicked"
proof -
  have fit: "list_all (\<lambda>(k, v). fits maxNestingDepth v) kvs" using assms(2) fits_members by blast
  have "decodeAWSPricing (s, err) serviceCode = read_file serviceCode kvs zero_raw"
  proof (cases kvs)
    case Nil
    let ?d = "new_decoder s err"
    obtain t where t: "lex_all t = Some [TRc]" "dec_token ?d
       = Inr (TokDelim (CHR ''{''), ?d\<lparr>jd_input := t, jd_stack := [TopValue], jd_state := ObjectStart\<rparr>)"
      using token_open [of ?d "[TRc]"] assms(1) Nil by (auto simp: new_decoder_def)
    then have "\<not> dec_more (?d\<lparr>jd_input := t, jd_stack := [TopValue], jd_state := ObjectStart\<rparr>)" by (intro more_close [of _ "[]"]) simp
    with t(2) Nil show ?thesis by (simp add: decodeAWSPricing_def aws_members.simps)
  next
    case (Cons kv kvs')
    from aws_decode_front [of s kv kvs' "[TRc]" err serviceCode] assms fit Cons obtain t where
      t: "lex_all t = Some [TRc]" "decodeAWSPricing (s, err) serviceCode = then_read (read_file serviceCode kvs zero_raw)
       (aws_members serviceCode \<lparr>jd_input = t, jd_err = err, jd_state = ObjectComma, jd_stack = [TopValue]\<rparr>)"
      by (auto simp: toks_object simp del: toks.simps read_file.simps)
    have "aws_members serviceCode \<lparr>jd_input = t, jd_err = err, jd_state = ObjectComma, jd_stack = [TopValue]\<rparr> raw = Decoded raw" for raw
      using more_close [of "\<lparr>jd_input = t, jd_err = err, jd_state = ObjectComma, jd_stack = [TopValue]\<rparr>" "[]"] t(1)
      by (simp add: aws_members.simps)
    with t(2) show ?thesis by (cases "read_file serviceCode kvs zero_raw") simp_all
  qed
  then show ?thesis by (simp add: read_file_total)
qed

text \<open>Maps are ranged over in some order, all of them.\<close>

definition aws_ranges :: "aws_orders \<Rightarrow> bool" where
  "aws_ranges ao \<longleftrightarrow> (\<forall>m. mset (ao_products ao m) = mset m) \<and> (\<forall>m. mset (ao_offers ao m) = mset m) \<and> (\<forall>m. mset (ao_dims ao m) = mset m)"

text \<open>
  C38: a file cut behind its products counts as read. When the connection breaks right after the \<open>products\<close> of an
  offer file, before its \<open>terms\<close>, the reader reports no error, whatever the error of the connection: \<open>More\<close> is false
  there as at the end of the file. The service then has no price, hence no product, and is not counted as failed.
\<close>

theorem aws_cut_file_is_success:
  assumes "lex_all s = Some (TLc # member_toks kv @ more_toks (kvs @ [(''products'', JObj ps)]))"
    and "list_all (\<lambda>(k, v). fits maxNestingDepth v) ((''products'', JObj ps) # kv # kvs)"
    and "list_all (\<lambda>(k, v). k \<noteq> ''products'' \<and> k \<noteq> ''terms'') (kv # kvs)"
    and "list_all (\<lambda>(sku, p). snd (put_product sku p [])) ps"
    and "aws_ranges ao"
  shows "parseAWSPricing ao rate (s, Some broken) serviceCode = Decoded []"
proof -
  let ?dec = "\<lambda>t. \<lparr>jd_input = t, jd_err = Some broken, jd_state = ObjectComma, jd_stack = [TopValue]\<rparr>"
  let ?ts = "TComma # member_toks (''products'', JObj ps)"
  have off: "offer_file (kv # kvs)" using assms(3) by (auto simp: offer_file_def list_all_iff)
  have "read_file serviceCode xs zero_raw = Decoded zero_raw" if "list_all (\<lambda>(k, v). k \<noteq> ''products'' \<and> k \<noteq> ''terms'') xs" for xs
    using that by (induction xs) (auto simp: read_member_def)
  with assms(3) have r: "read_file serviceCode (kv # kvs) zero_raw = Decoded zero_raw" by blast
  have l: "lex_all s = Some (TLc # member_toks kv @ more_toks kvs @ ?ts)" using assms(1) by (simp add: more_toks_def)
  have fit: "list_all (\<lambda>(k, v). fits maxNestingDepth v) (kv # kvs)" "fits maxNestingDepth (JObj ps)" using assms(2) by simp_all
  from aws_decode_front [OF l _ fit(1) off, of "Some broken" serviceCode] r obtain t0 where t0: "lex_all t0 = Some ?ts"
    "decodeAWSPricing (s, Some broken) serviceCode = aws_members serviceCode (?dec t0) zero_raw"
    by (auto simp del: read_file.simps)
  have l0: "lex_all (jd_input (?dec t0)) = Some (TComma # TString ''products'' # TColon # toks (JObj ps) @ [])"
    using t0(1) by (simp add: member_toks_def)
  obtain t1 where 1: "lex_all t1 = Some (TColon # toks (JObj ps) @ [])"
      "dec_token (?dec t0) = Inr (TokString ''products'', (?dec t0)\<lparr>jd_input := t1, jd_state := ObjectColon\<rparr>)"
    using token_key [OF l0] by auto
  obtain t2 where 2: "lex_all t2 = Some []" "aws_member serviceCode ''products'' ((?dec t0)\<lparr>jd_input := t1, jd_state := ObjectColon\<rparr>) zero_raw
      = map_decoded (\<lambda>raw. (raw, ?dec t2)) (read_member serviceCode ''products'' (JObj ps) zero_raw)"
    using aws_member_text [of "(?dec t0)\<lparr>jd_input := t1, jd_state := ObjectColon\<rparr>" "JObj ps" "[]" "''products''" serviceCode zero_raw] 1(1) fit(2)
    by (auto simp: offer_file_def)
  have "snd (put_product sku p m) = snd (put_product sku p [])" for sku p m by (simp add: put_product_def split: prod.split)
  then have "\<exists>m'. read_members f put_product ps m = Decoded m'" for f m
    using assms(4) by (induction ps arbitrary: m) (auto split: prod.splits, metis snd_conv)
  then obtain m where "read_members (product_error serviceCode) put_product ps [] = Decoded m" by blast
  then have m: "read_member serviceCode ''products'' (JObj ps) zero_raw = Decoded (zero_raw\<lparr>rp_products := m\<rparr>)"
    by (simp add: read_member_def object_members_def zero_raw_def)
  have "dropWhile json_space t2 = []" using 2(1)
    by (subst (asm) lex_all.simps) (simp add: Let_def split: if_splits option.splits prod.splits)
  then have "\<not> dec_more (?dec t2)" by (simp add: dec_more_def del: dropWhile_eq_Nil_conv)
  with t0(2) aws_members_one [OF more_comma [OF l0] 1(2) 2(2)] m
  have "decodeAWSPricing (s, Some broken) serviceCode = Decoded (zero_raw\<lparr>rp_products := m\<rparr>)" by (simp add: aws_members.simps)
  moreover have "ao_offers ao [] = []" using assms(5) by (metis aws_ranges_def mset_zero_iff)
  ultimately show ?thesis
    by (auto simp: parseAWSPricing_def buildProductList_def zero_raw_def aws_product_def Let_def offers_of_def term_prices_def filter_empty_conv
        split: prod.splits)
qed

text \<open>An offer file as the service writes it, with one product, and the same file cut behind it.\<close>

definition offer_members :: "(string \<times> json) list" where
  "offer_members =
     [(''formatVersion'', JStr ''v1.0''),
      (''products'', JObj [(''SKU1'', JObj [(''productFamily'', JStr ''Storage''), (''attributes'', JObj [(''location'', JStr ''EU (Paris)'')])])]),
      (''terms'', JObj [(''OnDemand'', JObj [(''SKU1'', JObj [(''SKU1.A'', JObj [(''priceDimensions'',
         JObj [(''SKU1.A.1'', JObj [(''unit'', JStr ''GB''), (''pricePerUnit'', JObj [(''USD'', JStr ''0.02'')])])])])])])])]"

theorem aws_stream_equals_parse_witness:
  "decodeAWSPricing (json_print (JObj offer_members), None) ''AmazonS3'' = Decoded
     \<lparr>rp_products = [(''SKU1'', \<lparr>ap_SKU = ''SKU1'', ap_ProductFamily = ''Storage'', ap_Attributes = [(''location'', ''EU (Paris)'')]\<rparr>)],
      rp_onDemandTerms = [(''SKU1'', [(''SKU1.A'', \<lparr>to_PriceDimensions =
         [(''SKU1.A.1'', \<lparr>pd_Unit = ''GB'', pd_PricePerUnit = [(''USD'', ''0.02'')], pd_BeginRange = '''', pd_EndRange = '''',
             pd_Description = ''''\<rparr>)], to_TermAttributes = []\<rparr>)])],
      rp_reservedTerms = []\<rparr>"
proof -
  have v: "valid_json (JObj offer_members)" "offer_file offer_members" by code_simp+
  have "fits 10 (JObj offer_members)" by (simp add: offer_members_def)
  then have f: "fits maxNestingDepth (JObj offer_members)" by (rule fits_mono) (simp add: maxNestingDepth_def)
  have l: "lex_all (json_print (JObj offer_members)) = Some (toks (JObj offer_members))"
    using lex_print [OF v(1), of "[]"] by (simp add: stops_def)
  have "read_file ''AmazonS3'' offer_members zero_raw = Decoded
     \<lparr>rp_products = [(''SKU1'', \<lparr>ap_SKU = ''SKU1'', ap_ProductFamily = ''Storage'', ap_Attributes = [(''location'', ''EU (Paris)'')]\<rparr>)],
      rp_onDemandTerms = [(''SKU1'', [(''SKU1.A'', \<lparr>to_PriceDimensions =
         [(''SKU1.A.1'', \<lparr>pd_Unit = ''GB'', pd_PricePerUnit = [(''USD'', ''0.02'')], pd_BeginRange = '''', pd_EndRange = '''',
             pd_Description = ''''\<rparr>)], to_TermAttributes = []\<rparr>)])],
      rp_reservedTerms = []\<rparr>" by code_simp
  with aws_stream_equals_parse [OF l f v(2), of None "''AmazonS3''"] show ?thesis by simp
qed

definition same_orders :: aws_orders where
  "same_orders = \<lparr>ao_products = (\<lambda>m. m), ao_offers = rev, ao_dims = (\<lambda>m. m)\<rparr>"

definition cut_file :: string where
  "cut_file = butlast (json_print (JObj (take 2 offer_members)))"

theorem aws_cut_file_is_success_witness:
  "parseAWSPricing same_orders defaultCNYUSDRate (cut_file, Some ''unexpected EOF'') ''AmazonS3'' = Decoded []"
proof (rule aws_cut_file_is_success)
  show "lex_all cut_file = Some (TLc # member_toks (''formatVersion'', JStr ''v1.0'')
      @ more_toks ([] @ [(''products'', JObj [(''SKU1'', JObj [(''productFamily'', JStr ''Storage''), (''attributes'', JObj [(''location'', JStr ''EU (Paris)'')])])])]))"
    by code_simp
  show "list_all (\<lambda>(k, v). fits maxNestingDepth v) [(''products'', JObj [(''SKU1'', JObj [(''productFamily'', JStr ''Storage''), (''attributes'', JObj [(''location'', JStr ''EU (Paris)'')])])]),
      (''formatVersion'', JStr ''v1.0'')]" by (simp add: maxNestingDepth_def)
  show "list_all (\<lambda>(sku, p). snd (put_product sku p [])) [(''SKU1'', JObj [(''productFamily'', JStr ''Storage''), (''attributes'', JObj [(''location'', JStr ''EU (Paris)'')])])]"
    by code_simp
  show "aws_ranges same_orders" by (simp add: aws_ranges_def same_orders_def)
qed simp

subsection \<open>The interface\<close>

lemma ec2_feed:
  defines "bs \<equiv> \<lambda>oc rs. filter (\<lambda>ps. ps \<noteq> []) (map (\<lambda>r. decoded_products (oc r)) rs)"
  shows "er_state (fold (\<lambda>r. ec2_region h (oc r)) rs g) = snd (feed h (bs oc rs) (er_state g))
    \<and> er_failed g \<le> er_failed (fold (\<lambda>r. ec2_region h (oc r)) rs g)
    \<and> (er_failed (fold (\<lambda>r. ec2_region h (oc r)) rs g) = er_failed g \<longrightarrow>
        list_all id (fst (feed h (bs oc rs) (er_state g))) \<and> list_all (\<lambda>r. is_decoded (oc r)) rs)"
  unfolding bs_def
proof (induction rs arbitrary: g)
  case (Cons r rs)
  let ?g = "ec2_region h (oc r) g"
  note IH = Cons.IH [of ?g]
  show ?case
  proof (cases "oc r")
    case (Decoded ps)
    show ?thesis
    proof (cases "ps = []")
      case True
      with Decoded have "?g = g" by (simp add: ec2_region_def)
      with IH Decoded True show ?thesis by (simp add: decoded_products_def is_decoded_def)
    next
      case False
      obtain e s where h: "h ps (er_state g) = (e, s)" by fastforce
      with Decoded False have g: "er_state ?g = s" "er_failed ?g = er_failed g + (if e = None then 0 else 1)"
        by (cases e; simp add: ec2_region_def)+
      from IH g Decoded False h show ?thesis
        by (cases e) (auto simp: decoded_products_def is_decoded_def split: prod.splits)
    qed
  next
    case DecodeFailed
    then have "?g = g\<lparr>er_failed := er_failed g + 1\<rparr>" by (simp add: ec2_region_def)
    with IH DecodeFailed show ?thesis by (simp add: decoded_products_def is_decoded_def)
  next
    case Panicked
    then have "?g = g\<lparr>er_failed := er_failed g + 1\<rparr>" by (simp add: ec2_region_def)
    with IH Panicked show ?thesis by (simp add: decoded_products_def is_decoded_def)
  qed
qed simp

definition aws_regions :: "aws_world \<Rightarrow> (string \<times> string) list" where
  "aws_regions ww = (case fetchEC2RegionIndex ww of Inl _ \<Rightarrow> [] | Inr regions \<Rightarrow> regions)"

definition aws_offer :: "config \<Rightarrow> aws_world \<Rightarrow> product list" where
  "aws_offer cfg ww =
     concat (map (\<lambda>t. decoded_products (aws_scrapeService cfg ww t)) (ww_tasks ww aws_tasks))
     @ concat (map (\<lambda>r. decoded_products (aws_region_outcome cfg ww r)) (aws_regions ww))"

definition aws_complete :: "config \<Rightarrow> aws_world \<Rightarrow> bool" where
  "aws_complete cfg ww \<longleftrightarrow>
     list_all (\<lambda>t. is_decoded (aws_scrapeService cfg ww t)) (ww_tasks ww aws_tasks)
     \<and> \<not> isl (fetchEC2RegionIndex ww) \<and> list_all (\<lambda>r. is_decoded (aws_region_outcome cfg ww r)) (aws_regions ww)"

lemma stream_feed:
  defines "bs \<equiv> \<lambda>cfg ww. filter (\<lambda>ps. ps \<noteq> []) (map (\<lambda>r. decoded_products (aws_region_outcome cfg ww r)) (aws_regions ww))"
  assumes "streamEC2ByRegion cfg ww h failed s = (err, n, s')" "0 \<le> failed"
  shows "s' = snd (feed h (bs cfg ww) s) \<and> 0 \<le> n
    \<and> (err = None \<and> n = 0 \<longrightarrow> failed = 0 \<and> list_all id (fst (feed h (bs cfg ww) s)) \<and> \<not> isl (fetchEC2RegionIndex ww)
        \<and> list_all (\<lambda>r. is_decoded (aws_region_outcome cfg ww r)) (aws_regions ww))"
proof (cases "fetchEC2RegionIndex ww")
  case (Inl e)
  with assms(2,3) show ?thesis by (auto simp: bs_def streamEC2ByRegion_def aws_regions_def)
next
  case (Inr regions)
  let ?g = "fold (\<lambda>r. ec2_region h (aws_region_outcome cfg ww r)) regions \<lparr>er_failed = 0, er_total = 0, er_state = s\<rparr>"
  have r: "aws_regions ww = regions" using Inr by (simp add: aws_regions_def)
  note g = ec2_feed [of h "aws_region_outcome cfg ww" regions "\<lparr>er_failed = 0, er_total = 0, er_state = s\<rparr>", simplified]
  have "s' = er_state ?g" "err = None \<longrightarrow> n = failed + er_failed ?g" "0 \<le> n"
    using assms(2,3) Inr g by (auto simp: streamEC2ByRegion_def Let_def split: if_splits)
  with g assms(3) Inr show ?thesis by (auto simp: bs_def r)
qed

interpretation aws: scraper_contract "AWSScraper cfg ww" "aws_offer cfg ww" "aws_complete cfg ww" for cfg ww
proof
  fix h s
  let ?sc = "AWSScraper cfg ww" and ?ts = "ww_tasks ww aws_tasks"
  let ?rb = "filter (\<lambda>ps. ps \<noteq> []) (map (\<lambda>r. decoded_products (aws_region_outcome cfg ww r)) (aws_regions ww))"
  let ?ps = "concat (map (\<lambda>t. decoded_products (aws_scrapeService cfg ww t)) ?ts)"
  obtain products failed where ps: "scrapeServices cfg ww = (products, failed)" by fastforce
  then have p: "products = ?ps" and n: "0 \<le> failed"
    and f: "failed = 0 \<longleftrightarrow> list_all (\<lambda>t. is_decoded (aws_scrapeService cfg ww t)) ?ts"
    by (auto simp: scrapeServices_def comp_def filter_empty_conv list_all_iff)
  have rb: "set (concat ?rb) = set (concat (map (\<lambda>r. decoded_products (aws_region_outcome cfg ww r)) (aws_regions ww)))"
    by auto
  define front where "front = (if products = [] then [] else [products])"
  have offer: "set (concat (front @ ?rb)) = set (aws_offer cfg ww)"
    unfolding concat_append set_append rb aws_offer_def by (simp add: front_def p)
  obtain oks s1 where h1: "feed h front s = (oks, s1)" by fastforce
  show "\<exists>bs. delivers ?sc h s bs \<and> set (concat bs) \<subseteq> set (aws_offer cfg ww)
      \<and> (case sc_scrape ?sc h s of (err, failed, s') \<Rightarrow>
           0 \<le> failed \<and> (err = None \<and> failed = 0 \<longrightarrow> aws_complete cfg ww \<and> set (concat bs) = set (aws_offer cfg ww)))"
  proof (cases "list_all id oks")
    case False
    then obtain e where "products \<noteq> []" "h products s = (Some e, s1)"
      using h1 by (cases "products = []"; cases "fst (h products s)") (auto simp: front_def split: prod.splits)
    with h1 n ps show ?thesis
      by (intro exI [of _ front]) (auto simp: delivers_def AWSScraper_def front_def aws_offer_def p [symmetric])
  next
    case True
    have sc: "sc_scrape ?sc h s = streamEC2ByRegion cfg ww h failed s1"
      using h1 True ps by (cases "products = []"; cases "fst (h products s)") (auto simp: AWSScraper_def front_def split: prod.splits)
    obtain err m s' where st: "streamEC2ByRegion cfg ww h failed s1 = (err, m, s')" by (metis prod.exhaust)
    note sf = stream_feed [OF st n]
    have "delivers ?sc h s (front @ ?rb)"
      using sf True h1 unfolding delivers_def sc st prod.case feed_append by (auto split: prod.splits)
    with sf f offer show ?thesis
      unfolding sc st by (intro exI [of _ "front @ ?rb"]) (auto simp: aws_complete_def)
  qed
qed

lemma aws_built_vendor: "p \<in> set (buildProductList ao rate raw c) \<Longrightarrow> p_vendor p = ''aws''"
  by (auto simp: buildProductList_def aws_product_def Let_def split: prod.splits)

lemma aws_parsed_vendor: "p \<in> set (decoded_products (parseAWSPricing ao rate reader c)) \<Longrightarrow> p_vendor p = ''aws''"
  by (auto simp: parseAWSPricing_def decoded_products_def aws_built_vendor split: decoded.splits)

lemma aws_offer_vendor: "p \<in> set (aws_offer cfg ww) \<Longrightarrow> p_vendor p = ''aws''"
proof -
  have "p_vendor p = ''aws''" if "p \<in> set (decoded_products (aws_scrapeService cfg ww t))" for t
    using that aws_parsed_vendor
    by (cases "fetchGzip (ww_gunzip ww) (ww_service ww t (aws_service_url t))") (auto simp: aws_scrapeService_def decoded_products_def)
  moreover have "p_vendor p = ''aws''" if "p \<in> set (decoded_products (aws_region_outcome cfg ww r))" for r
    using that aws_parsed_vendor
    by (cases "fetchGzip (ww_gunzip ww) (ww_region ww (fst r) (snd r))") (auto simp: aws_region_outcome_def decoded_products_def)
  ultimately show "p \<in> set (aws_offer cfg ww) \<Longrightarrow> p_vendor p = ''aws''" by (auto simp: aws_offer_def)
qed

text \<open>
  C39: an AWS run that could not read everything deletes nothing. When the offer file of a service or of a region of
  EC2 could not be fetched or parsed, or the index of the regions could not, every product of AWS that was in the
  table before the run is there after it, whatever the order of the goroutines and the schedule of the others.
\<close>

theorem aws_unread_region_deletes_nothing:
  assumes "aws_survives cfg ww"
    and "(\<exists>t \<in> set (ww_tasks ww aws_tasks). \<not> is_decoded (aws_scrapeService cfg ww t))
       \<or> isl (fetchEC2RegionIndex ww) \<or> (\<exists>r \<in> set (aws_regions ww). \<not> is_decoded (aws_region_outcome cfg ww r))"
    and "kept vo ''aws'' H d" "script_all (polite vo ''aws'') d" "begin_run ''aws'' d = Some (r, t0, d1)"
    and "\<And>p. p \<in> set (aws_offer cfg ww) \<Longrightarrow> vo (p_hash p) = ''aws''"
  shows "H \<subseteq> dom (map_of (tbl_products (snd (snd (runOneScrape (AWSScraper cfg ww) snaps appNow retain d)))))"
proof -
  have n: "to_lower (sc_name (AWSScraper cfg ww)) = ''aws''" by (simp add: AWSScraper_def) code_simp
  have c: "\<not> aws_complete cfg ww" using assms(2) by (auto simp: aws_complete_def list_all_iff)
  show ?thesis
    by (rule aws.incomplete_deletes_nothing [OF c, of vo H d r t0 d1, unfolded n, OF assms(3-5)])
      (simp add: assms(6) aws_offer_vendor)
qed

definition silent_aws :: aws_world where
  "silent_aws = \<lparr>ww_gunzip = (\<lambda>r. Inr r), ww_service = (\<lambda>_ _. (NoReply ''timeout'', '''')),
     ww_index = (\<lambda>_. Reply 200 ''{}'' None), ww_region = (\<lambda>_ _. (NoReply ''timeout'', '''')),
     ww_orders = same_orders, ww_tasks = rev, ww_regions = (\<lambda>m. m)\<rparr>"

definition aws_config :: config where
  "aws_config = Load (\<lambda>_. None) (\<lambda>_. '''')"

theorem aws_unread_region_deletes_nothing_witness:
  "{''a0'', ''a1''} \<subseteq> dom (map_of (tbl_products (snd (snd (runOneScrape (AWSScraper aws_config silent_aws) False 100 50 busy_db)))))"
proof (rule aws_unread_region_deletes_nothing)
  have o: "aws_scrapeService cfg silent_aws t = DecodeFailed (''fetch '' @ fst t @ '': timeout'')" for cfg t
    by (simp add: aws_scrapeService_def silent_aws_def fetchGzip_def)
  have i: "fetchEC2RegionIndex silent_aws = Inr []" by code_simp
  show "aws_survives aws_config silent_aws" by (simp add: aws_survives_def o i)
  have "(''AmazonEC2'', ''cn'') \<in> set (ww_tasks silent_aws aws_tasks)" by code_simp
  then show "(\<exists>t \<in> set (ww_tasks silent_aws aws_tasks). \<not> is_decoded (aws_scrapeService aws_config silent_aws t))
       \<or> isl (fetchEC2RegionIndex silent_aws)
       \<or> (\<exists>r \<in> set (aws_regions silent_aws). \<not> is_decoded (aws_region_outcome aws_config silent_aws r))"
    by (intro disjI1 bexI) (simp_all add: o is_decoded_def)
  have v: "\<forall>h \<in> {''a0'', ''a1''}. sample_vendor h = ''aws''" by code_simp
  show "kept sample_vendor ''aws'' {''a0'', ''a1''} busy_db"
    by (rule keptI [OF busy_db_ok _ v]) (simp add: busy_db_def aws_row_def)
  show "script_all (polite sample_vendor ''aws'') busy_db" by code_simp
  show "begin_run ''aws'' busy_db = Some (2, 15, begun_db ''aws'' busy_db)" by code_simp
  fix p
  assume "p \<in> set (aws_offer aws_config silent_aws)"
  then show "sample_vendor (p_hash p) = ''aws''"
    by (simp add: aws_offer_def o decoded_products_def aws_regions_def i)
qed

end
