(* ===== verification/Migration.thy ===== *)
theory Migration
  imports Pricing_Types
begin

text \<open>
  Opening the database, \<^verbatim>\<open>internal/db/db.go\<close>: the sizes of the connection pool, and \<open>RunMigrations\<close> as a
  step relation over all processes that start at the same time. An advisory lock belongs to the session
  that took it, and each statement of \<open>RunMigrations\<close> runs on whatever connection the pool hands out
  (\<open>conns\<close>): the lock, the schema and the unlock may run on three different sessions.
\<close>

subsection \<open>The pool\<close>

record pool_config =
  pc_MaxConns :: int
  pc_MinConns :: int

record pool_options =
  po_MaxConns :: int
  po_MinConns :: int

definition maxInt32 :: int where "maxInt32 = 2147483647"

text \<open>Narrowing to \<open>int32\<close> wraps around.\<close>

definition to_int32 :: "int \<Rightarrow> int" where
  "to_int32 n = (n + 2147483648) mod 4294967296 - 2147483648"

definition pool_sizes :: "pool_options list \<Rightarrow> pool_config \<Rightarrow> pool_config" where
  "pool_sizes opts config =
     (case opts of
        [] \<Rightarrow> config
      | ob # _ \<Rightarrow>
          (let config = (if po_MaxConns ob > 0 \<and> po_MaxConns ob \<le> maxInt32
                         then config\<lparr>pc_MaxConns := to_int32 (po_MaxConns ob)\<rparr> else config)
           in if po_MinConns ob > 0 \<and> po_MinConns ob \<le> maxInt32
              then config\<lparr>pc_MinConns := to_int32 (po_MinConns ob)\<rparr> else config))"

text \<open>What \<open>pgxpool\<close> answers: to the URL, to the configuration of the pool, and to the ping.\<close>

record pool_world =
  pw_parse :: "string \<Rightarrow> string + pool_config"
  pw_connect :: "pool_config \<Rightarrow> string option"
  pw_ping :: "string option"

definition db_New :: "pool_world \<Rightarrow> string \<Rightarrow> pool_options list \<Rightarrow> string + pool_config" where
  "db_New pw databaseURL opts =
     (case pw_parse pw databaseURL of
        Inl e \<Rightarrow> Inl (''failed to parse database URL: '' @ e)
      | Inr config \<Rightarrow>
          (let config = pool_sizes opts config in
           case pw_connect pw config of
             Some e \<Rightarrow> Inl (''failed to connect to database: '' @ e)
           | None \<Rightarrow>
               (case pw_ping pw of
                  Some e \<Rightarrow> Inl (''failed to ping database: '' @ e)
                | None \<Rightarrow> Inr config)))"

lemma to_int32_id: "0 < n \<Longrightarrow> n \<le> maxInt32 \<Longrightarrow> to_int32 n = n"
  by (simp add: to_int32_def maxInt32_def)

text \<open>No configured size, however absurd, makes the sizes of the pool leave the range of its defaults.\<close>

lemma pool_sizes_in_range:
  assumes "1 \<le> pc_MaxConns config" "pc_MaxConns config \<le> maxInt32"
    and "0 \<le> pc_MinConns config" "pc_MinConns config \<le> maxInt32"
  shows "pc_MaxConns (pool_sizes opts config) \<in> {1..maxInt32} \<and> pc_MinConns (pool_sizes opts config) \<in> {0..maxInt32}"
  using assms by (cases opts) (simp_all add: pool_sizes_def Let_def to_int32_id)

subsection \<open>The advisory lock\<close>

text \<open>A session is a process and one of its connections; it may hold the lock more than once.\<close>

type_synonym session = "nat \<times> nat"
type_synonym schema_lock = "(session \<times> nat) option"

text \<open>\<open>pg_advisory_lock\<close> waits while another session holds the lock: \<open>None\<close>.\<close>

definition advisory_lock :: "session \<Rightarrow> schema_lock \<Rightarrow> schema_lock option" where
  "advisory_lock c l =
     (case l of
        None \<Rightarrow> Some (Some (c, 1))
      | Some (h, n) \<Rightarrow> if h = c then Some (Some (h, n + 1)) else None)"

text \<open>\<open>pg_advisory_unlock\<close> of a lock the session does not hold changes nothing; only a warning says so.\<close>

definition advisory_unlock :: "session \<Rightarrow> schema_lock \<Rightarrow> schema_lock" where
  "advisory_unlock c l =
     (case l of
        None \<Rightarrow> None
      | Some (h, n) \<Rightarrow> if h \<noteq> c then l else if n \<le> 1 then None else Some (h, n - 1))"

subsection \<open>Processes that migrate\<close>

datatype mig_pc = Starting | Locked | Unlocking "string option" | Returned "string option"

datatype mig_fault = LockFails | ApplyFails | UnlockFails

record migrators =
  mg_lock :: schema_lock
  mg_pc :: "nat \<Rightarrow> mig_pc"
  mg_schema :: bool

definition migrators_start :: migrators where
  "migrators_start = \<lparr>mg_lock = None, mg_pc = (\<lambda>p. Starting), mg_schema = False\<rparr>"

definition goes :: "migrators \<Rightarrow> nat \<Rightarrow> mig_pc \<Rightarrow> migrators" where
  "goes s p c = s\<lparr>mg_pc := (mg_pc s)(p := c)\<rparr>"

inductive migrate_step :: "mig_fault set \<Rightarrow> (nat \<Rightarrow> nat set) \<Rightarrow> migrators \<Rightarrow> migrators \<Rightarrow> bool" for faults conns where
  Lock: "mg_pc s p = Starting \<Longrightarrow> c \<in> conns p \<Longrightarrow> advisory_lock (p, c) (mg_lock s) = Some l \<Longrightarrow>
    migrate_step faults conns s (goes (s\<lparr>mg_lock := l\<rparr>) p Locked)"
| Lock_fails: "mg_pc s p = Starting \<Longrightarrow> conns p \<noteq> {} \<Longrightarrow> LockFails \<in> faults \<Longrightarrow>
    migrate_step faults conns s (goes s p (Returned (Some (''failed to acquire schema lock: '' @ e))))"
| Apply: "mg_pc s p = Locked \<Longrightarrow> conns p \<noteq> {} \<Longrightarrow>
    migrate_step faults conns s (goes (s\<lparr>mg_schema := True\<rparr>) p (Unlocking None))"
| Apply_fails: "mg_pc s p = Locked \<Longrightarrow> conns p \<noteq> {} \<Longrightarrow> ApplyFails \<in> faults \<Longrightarrow>
    migrate_step faults conns s (goes s p (Unlocking (Some (''failed to apply schema: '' @ e))))"
| Unlock: "mg_pc s p = Unlocking r \<Longrightarrow> c \<in> conns p \<Longrightarrow>
    migrate_step faults conns s (goes (s\<lparr>mg_lock := advisory_unlock (p, c) (mg_lock s)\<rparr>) p (Returned r))"
| Unlock_fails: "mg_pc s p = Unlocking r \<Longrightarrow> conns p \<noteq> {} \<Longrightarrow> UnlockFails \<in> faults \<Longrightarrow>
    migrate_step faults conns s (goes s p (Returned r))"

inductive_cases migrate_stepE: "migrate_step faults conns s t"

definition migrating :: "migrators \<Rightarrow> nat set" where
  "migrating s = {p. mg_pc s p = Locked \<or> (\<exists>r. mg_pc s p = Unlocking r)}"

text \<open>A process that is past its lock has a session that holds it; a process that succeeded left the schema behind.\<close>

definition mig_inv :: "migrators \<Rightarrow> bool" where
  "mig_inv s \<longleftrightarrow>
     (\<forall>p \<in> migrating s. \<exists>c n. mg_lock s = Some ((p, c), n))
     \<and> (\<forall>p. mg_pc s p = Unlocking None \<or> mg_pc s p = Returned None \<longrightarrow> mg_schema s)
     \<and> (\<forall>h n. mg_lock s = Some (h, n) \<longrightarrow> 1 \<le> n)"

lemma goes_simps [simp]:
  "mg_lock (goes s p c) = mg_lock s" "mg_schema (goes s p c) = mg_schema s"
  "mg_pc (goes s p c) q = (if q = p then c else mg_pc s q)"
  by (simp_all add: goes_def)

lemma mig_inv_start: "mig_inv migrators_start"
  by (simp add: mig_inv_def migrating_def migrators_start_def)

lemma mig_inv_step: "migrate_step faults conns s t \<Longrightarrow> mig_inv s \<Longrightarrow> mig_inv t"
  by (erule migrate_stepE)
    (auto simp: mig_inv_def migrating_def advisory_lock_def advisory_unlock_def split: option.splits if_splits)

lemma mig_inv_reachable: "(migrate_step faults conns)\<^sup>*\<^sup>* s t \<Longrightarrow> mig_inv s \<Longrightarrow> mig_inv t"
  by (induction rule: rtranclp_induct) (auto dest: mig_inv_step)

end
