(* ===== verification/Migration_Properties.thy ===== *)
theory Migration_Properties
  imports Migration
begin

text \<open>
  Migrations of several processes at once: they exclude each other whatever connections the pools hand out, they
  all get through when every process keeps to one connection, and one process can lock all others out for good
  when its pool hands out two.
\<close>

text \<open>
  Migrations exclude each other. Whatever connections the pools hand out and whatever statements fail,
  at most one process is between its lock and its unlock, and a process that reports success leaves the schema
  behind.
\<close>

theorem migrations_exclusive:
  assumes "(migrate_step faults conns)\<^sup>*\<^sup>* migrators_start s"
  shows "(\<forall>p \<in> migrating s. \<forall>q \<in> migrating s. p = q) \<and> (mg_schema s \<or> (\<forall>p. mg_pc s p \<noteq> Returned None))"
proof -
  have "mig_inv s" by (rule mig_inv_reachable [OF assms mig_inv_start])
  then have i: "\<forall>p \<in> migrating s. \<exists>c n. mg_lock s = Some ((p, c), n)" "\<forall>p. mg_pc s p = Returned None \<longrightarrow> mg_schema s"
    unfolding mig_inv_def by blast+
  have "p = q" if "p \<in> migrating s" "q \<in> migrating s" for p q
    using bspec [OF i(1) that(1)] bspec [OF i(1) that(2)] by auto
  with i(2) show ?thesis by blast
qed

subsection \<open>One connection for each process\<close>

definition pinned :: "nat \<Rightarrow> (nat \<Rightarrow> nat) \<Rightarrow> nat \<Rightarrow> nat set" where
  "pinned n conn p = (if p < n then {conn p} else {})"

lemma in_pinned: "c \<in> pinned n conn p \<longleftrightarrow> p < n \<and> c = conn p" "pinned n conn p \<noteq> {} \<longleftrightarrow> p < n"
  by (simp_all add: pinned_def)

definition pinned_inv :: "nat \<Rightarrow> (nat \<Rightarrow> nat) \<Rightarrow> migrators \<Rightarrow> bool" where
  "pinned_inv n conn s \<longleftrightarrow>
     (\<forall>p. n \<le> p \<longrightarrow> mg_pc s p = Starting)
     \<and> (case mg_lock s of
          None \<Rightarrow> migrating s = {}
        | Some (c, k) \<Rightarrow> k = 1 \<and> migrating s = {fst c} \<and> c = (fst c, conn (fst c)))"

lemma migrating_goes:
  "migrating (goes s p c) =
     (if c = Locked \<or> (\<exists>r. c = Unlocking r) then insert p (migrating s) else migrating s - {p})"
  by (auto simp: migrating_def)

lemma migrating_lock [simp]: "migrating (s\<lparr>mg_lock := l\<rparr>) = migrating s" "migrating (s\<lparr>mg_schema := b\<rparr>) = migrating s"
  by (simp_all add: migrating_def)

lemma in_migrating: "mg_pc s p = Locked \<Longrightarrow> p \<in> migrating s" "mg_pc s p = Unlocking r \<Longrightarrow> p \<in> migrating s"
  "mg_pc s p = Starting \<Longrightarrow> p \<notin> migrating s" "mg_pc s p = Returned r \<Longrightarrow> p \<notin> migrating s"
  by (simp_all add: migrating_def)

lemma pinned_inv_step:
  assumes "migrate_step faults (pinned n conn) s t" "UnlockFails \<notin> faults" "pinned_inv n conn s"
  shows "pinned_inv n conn t"
  using assms(1)
proof cases
  case (Lock p c l)
  with assms(3) show ?thesis
    by (auto simp: pinned_inv_def in_pinned migrating_goes advisory_lock_def dest: in_migrating split: option.splits if_splits)
next
  case (Unlock p r c)
  with assms(3) in_migrating(2) [OF Unlock(2)] show ?thesis
    by (auto simp: pinned_inv_def in_pinned migrating_goes advisory_unlock_def split: option.splits if_splits)
qed (use assms(2,3) in \<open>auto simp: pinned_inv_def in_pinned migrating_goes dest: in_migrating split: option.splits\<close>)

definition to_go :: "mig_pc \<Rightarrow> nat" where
  "to_go c = (case c of Starting \<Rightarrow> 3 | Locked \<Rightarrow> 2 | Unlocking _ \<Rightarrow> 1 | Returned _ \<Rightarrow> 0)"

definition all_to_go :: "nat \<Rightarrow> migrators \<Rightarrow> nat" where
  "all_to_go n s = (\<Sum>p<n. to_go (mg_pc s p))"

lemma all_to_go_goes:
  assumes "p < n" "to_go c < to_go (mg_pc s p)"
  shows "all_to_go n (goes s p c) < all_to_go n s"
  unfolding all_to_go_def using assms by (intro sum_strict_mono_ex1) auto

lemma to_go_step: "migrate_step faults (pinned n conn) s t \<Longrightarrow> all_to_go n t < all_to_go n s"
proof (erule migrate_stepE)
  fix p c l
  assume "t = goes (s\<lparr>mg_lock := l\<rparr>) p Locked" "mg_pc s p = Starting" "c \<in> pinned n conn p"
  then show ?thesis using all_to_go_goes [of p n Locked "s\<lparr>mg_lock := l\<rparr>"]
    by (simp add: in_pinned to_go_def all_to_go_def)
next
  fix p
  assume "t = goes (s\<lparr>mg_schema := True\<rparr>) p (Unlocking None)" "mg_pc s p = Locked" "pinned n conn p \<noteq> {}"
  then show ?thesis using all_to_go_goes [of p n "Unlocking None" "s\<lparr>mg_schema := True\<rparr>"]
    by (simp add: in_pinned to_go_def all_to_go_def)
next
  fix p r c
  assume "t = goes (s\<lparr>mg_lock := advisory_unlock (p, c) (mg_lock s)\<rparr>) p (Returned r)" "mg_pc s p = Unlocking r" "c \<in> pinned n conn p"
  then show ?thesis using all_to_go_goes [of p n "Returned r" "s\<lparr>mg_lock := advisory_unlock (p, c) (mg_lock s)\<rparr>"]
    by (simp add: in_pinned to_go_def all_to_go_def)
qed (auto simp: in_pinned to_go_def intro!: all_to_go_goes)

lemma pinned_steps:
  assumes "(migrate_step faults (pinned n conn) ^^ k) migrators_start s" "UnlockFails \<notin> faults"
  shows "pinned_inv n conn s \<and> k + all_to_go n s \<le> 3 * n"
  using assms(1)
proof (induction k arbitrary: s)
  case 0
  then have "s = migrators_start" by simp
  then show ?case by (simp add: pinned_inv_def migrators_start_def migrating_def all_to_go_def to_go_def)
next
  case (Suc k)
  then obtain u where u: "(migrate_step faults (pinned n conn) ^^ k) migrators_start u" "migrate_step faults (pinned n conn) u s" by auto
  with Suc.IH [OF u(1)] pinned_inv_step [OF u(2) assms(2)] to_go_step [OF u(2)] show ?case by auto
qed

lemma pinned_enabled:
  assumes "pinned_inv n conn s" "p < n" "\<And>r. mg_pc s p \<noteq> Returned r"
  shows "\<exists>t. migrate_step {} (pinned n conn) s t"
proof (cases "mg_lock s")
  case None
  with assms(1) have "migrating s = {}" by (simp add: pinned_inv_def)
  with assms(3) have "mg_pc s p = Starting" by (cases "mg_pc s p") (auto dest: in_migrating)
  with None assms(2) show ?thesis
    using migrate_step.Lock [where s = s and p = p and c = "conn p" and conns = "pinned n conn"]
    by (auto simp: in_pinned advisory_lock_def)
next
  case (Some ck)
  with assms(1) have "fst (fst ck) \<in> migrating s" by (cases ck) (simp add: pinned_inv_def)
  moreover from this assms(1) have "fst (fst ck) < n"
    by (force simp: pinned_inv_def migrating_def not_less [symmetric])
  ultimately show ?thesis
    using migrate_step.Apply [of s "fst (fst ck)" "pinned n conn"] migrate_step.Unlock [of s "fst (fst ck)" _ "conn (fst (fst ck))" "pinned n conn"]
    by (auto simp: migrating_def in_pinned)
qed

text \<open>
  C10: with one connection for each process all migrations get through. Whatever locks time out and whatever
  schemas are refused, \<open>n\<close> processes take at most three steps each, some process can take a step that is no
  failure until all have returned, and then the lock is free.
\<close>

theorem migrations_get_through:
  assumes "(migrate_step faults (pinned n conn) ^^ k) migrators_start s" "UnlockFails \<notin> faults"
  shows "k \<le> 3 * n
    \<and> ((\<exists>t. migrate_step {} (pinned n conn) s t) \<or> mg_lock s = None \<and> (\<forall>p<n. \<exists>r. mg_pc s p = Returned r))"
proof (intro conjI)
  have i: "pinned_inv n conn s" "k + all_to_go n s \<le> 3 * n" using pinned_steps [OF assms] by simp_all
  then show "k \<le> 3 * n" by simp
  show "(\<exists>t. migrate_step {} (pinned n conn) s t) \<or> mg_lock s = None \<and> (\<forall>p<n. \<exists>r. mg_pc s p = Returned r)"
  proof (cases "\<forall>p<n. \<exists>r. mg_pc s p = Returned r")
    case False
    then show ?thesis using pinned_enabled [OF i(1)] by blast
  next
    case True
    have "p \<notin> migrating s" for p
      using True i(1) in_migrating(3,4) by (cases "p < n") (auto simp: pinned_inv_def not_less)
    then have "migrating s = {}" by blast
    with i(1) True show ?thesis by (auto simp: pinned_inv_def split: option.splits)
  qed
qed

subsection \<open>Two connections\<close>

lemma lock_stays_lost:
  assumes "(migrate_step faults conns)\<^sup>*\<^sup>* s t"
    and "mg_lock s = Some ((p, c), 1)" "mg_pc s p = Returned r" "\<And>q. q \<noteq> p \<Longrightarrow> mg_pc s q = Starting"
  shows "mg_lock t = Some ((p, c), 1) \<and> mg_pc t p = Returned r
    \<and> (\<forall>q. q \<noteq> p \<longrightarrow> mg_pc t q = Starting \<or> (\<exists>e. mg_pc t q = Returned (Some e)))"
  using assms(1)
proof (induction rule: rtranclp_induct)
  case base
  with assms(2-4) show ?case by simp
next
  case (step t u)
  from step(2) show ?case
  proof cases
    case (Lock q d l)
    with step.IH show ?thesis by (cases "q = p") (auto simp: advisory_lock_def split: if_splits)
  next
    case (Unlock q r' d)
    with step.IH show ?thesis by (cases "q = p") auto
  qed (use step.IH in \<open>auto split: if_splits; metis mig_pc.distinct mig_pc.inject\<close>)+
qed

text \<open>
  C11: one process can lock the others out. The lock, the schema and the unlock are statements on the pool: when
  it hands out one connection for the lock and another for the unlock, \<open>RunMigrations\<close> succeeds and the lock stays
  with the idle connection. Until that connection ends no other process gets past its lock, it can only fail.
\<close>

theorem migration_lock_leaks:
  assumes "a \<in> conns p" "b \<in> conns p" "a \<noteq> b"
  shows "\<exists>s. (migrate_step {} conns)\<^sup>*\<^sup>* migrators_start s \<and> mg_pc s p = Returned None
    \<and> (\<forall>faults t q. (migrate_step faults conns)\<^sup>*\<^sup>* s t \<longrightarrow> q \<noteq> p \<longrightarrow>
         mg_pc t q = Starting \<or> (\<exists>e. mg_pc t q = Returned (Some e)))"
proof -
  let ?s1 = "goes (migrators_start\<lparr>mg_lock := Some ((p, a), 1)\<rparr>) p Locked"
  let ?s2 = "goes (?s1\<lparr>mg_schema := True\<rparr>) p (Unlocking None)"
  let ?s3 = "goes (?s2\<lparr>mg_lock := advisory_unlock (p, b) (mg_lock ?s2)\<rparr>) p (Returned None)"
  have "migrate_step {} conns migrators_start ?s1"
    by (rule migrate_step.Lock [where c = a and conns = conns and p = p, OF _ assms(1)]) (simp_all add: migrators_start_def advisory_lock_def)
  moreover have "migrate_step {} conns ?s1 ?s2" by (rule migrate_step.Apply) (use assms(1) in auto)
  moreover have "migrate_step {} conns ?s2 ?s3" by (rule migrate_step.Unlock [where c = b and conns = conns and p = p, OF _ assms(2)]) simp
  ultimately have "(migrate_step {} conns)\<^sup>*\<^sup>* migrators_start ?s3"
    by (rule rtranclp.rtrancl_into_rtrancl [OF rtranclp.rtrancl_into_rtrancl [OF r_into_rtranclp]])
  moreover have "mg_lock ?s3 = Some ((p, a), 1)" "mg_pc ?s3 p = Returned None"
    "\<And>q. q \<noteq> p \<Longrightarrow> mg_pc ?s3 q = Starting"
    using assms(3) by (simp_all add: advisory_unlock_def migrators_start_def)
  ultimately show ?thesis using lock_stays_lost by blast
qed

subsection \<open>Concrete runs\<close>

text \<open>Two processes, the first past its lock.\<close>

definition first_locked :: migrators where
  "first_locked = goes (migrators_start\<lparr>mg_lock := Some ((0, 0), 1)\<rparr>) 0 Locked"

lemma first_locked_step: "0 \<in> conns 0 \<Longrightarrow> migrate_step faults conns migrators_start first_locked"
  unfolding first_locked_def
  by (rule migrate_step.Lock [where c = 0]) (simp_all add: migrators_start_def advisory_lock_def)

theorem migrations_exclusive_witness: "0 \<in> migrating first_locked \<and> migrating first_locked \<subseteq> {0}"
proof -
  have "(migrate_step UNIV (\<lambda>p. {0, 1}))\<^sup>*\<^sup>* migrators_start first_locked" by (intro r_into_rtranclp first_locked_step) simp
  moreover have "0 \<in> migrating first_locked" by (simp add: first_locked_def migrating_def)
  ultimately show ?thesis using migrations_exclusive [of UNIV "\<lambda>p. {0, 1}" first_locked] by blast
qed

theorem migrations_get_through_witness:
  "(\<exists>t. migrate_step {} (pinned 2 (\<lambda>p. 0)) first_locked t) \<and> (1::nat) \<le> 3 * 2"
proof -
  have "(migrate_step {LockFails} (pinned 2 (\<lambda>p. 0)) ^^ 1) migrators_start first_locked"
    by (simp only: relpowp_1) (rule first_locked_step, simp add: pinned_def)
  from migrations_get_through [OF this] show ?thesis by (auto simp: first_locked_def)
qed

theorem migration_lock_leaks_witness:
  "\<exists>s. (migrate_step {} (\<lambda>p. {0, 1}))\<^sup>*\<^sup>* migrators_start s \<and> mg_pc s 0 = Returned None
    \<and> (\<nexists>t. (migrate_step UNIV (\<lambda>p. {0, 1}))\<^sup>*\<^sup>* s t \<and> mg_pc t 1 = Locked)"
proof -
  obtain s where s: "(migrate_step {} (\<lambda>p. {0, 1}))\<^sup>*\<^sup>* migrators_start s" "mg_pc s 0 = Returned None"
    "\<forall>faults t q. (migrate_step faults (\<lambda>p. {0, 1}))\<^sup>*\<^sup>* s t \<longrightarrow> q \<noteq> 0 \<longrightarrow>
         mg_pc t q = Starting \<or> (\<exists>e. mg_pc t q = Returned (Some e))"
    using migration_lock_leaks [of 0 "\<lambda>p. {0, 1}" 0 1] by auto
  have "mg_pc t 1 \<noteq> Locked" if "(migrate_step UNIV (\<lambda>p. {0, 1}))\<^sup>*\<^sup>* s t" for t
    using s(3) [rule_format, OF that, of 1] by auto
  with s(1,2) show ?thesis by blast
qed

end
