(* ===== verification/Commands.thy ===== *)
theory Commands
  imports Migration Scrape_Run Public_Api Gcp Azure Aws
begin

text \<open>
  The commands of \<^verbatim>\<open>cmd/server/main.go\<close>, the start of the server in \<^verbatim>\<open>internal/server/server.go\<close> (\<open>New\<close>,
  \<open>Start\<close>) and the decisions of \<^verbatim>\<open>internal/server/observability.go\<close>. A command gives its error, if any, and
  the events that can be seen from outside, the closing of what it opened by deferred calls included. What the
  libraries answer (pool, OpenTelemetry, the listener) is a record of arguments.
\<close>

subsection \<open>Telemetry\<close>

fun firstNonEmpty :: "string list \<Rightarrow> string" where
  "firstNonEmpty [] = ''''"
| "firstNonEmpty (v # vs) = (if v \<noteq> '''' then v else firstNonEmpty vs)"

definition stripScheme :: "string \<Rightarrow> string" where
  "stripScheme endpoint = (case index_sub endpoint ''://'' of Some i \<Rightarrow> drop (i + 3) endpoint | None \<Rightarrow> endpoint)"

text \<open>An exporter: the endpoint it dials, and whether without TLS.\<close>

type_synonym exporter = "string \<times> bool"

definition telemetry_exporter :: "env \<Rightarrow> exporter option" where
  "telemetry_exporter env =
     (let endpoint = firstNonEmpty [env ''OTEL_EXPORTER_OTLP_TRACES_ENDPOINT'', env ''OTEL_EXPORTER_OTLP_ENDPOINT''] in
      if endpoint = '''' then None
      else Some (stripScheme endpoint,
             equal_fold (env ''OTEL_EXPORTER_OTLP_INSECURE'') ''true'' \<or> has_prefix endpoint ''http://''))"

record otel_world =
  ow_exporter :: "exporter \<Rightarrow> string option"
  ow_resource :: "string option"

definition InitTelemetry :: "otel_world \<Rightarrow> env \<Rightarrow> string + exporter option" where
  "InitTelemetry ow env =
     (case telemetry_exporter env of
        None \<Rightarrow> Inr None
      | Some x \<Rightarrow>
          (case ow_exporter ow x of
             Some e \<Rightarrow> Inl (''otlp exporter: '' @ e)
           | None \<Rightarrow>
               (case ow_resource ow of Some e \<Rightarrow> Inl (''otel resource: '' @ e) | None \<Rightarrow> Inr (Some x))))"

subsection \<open>The server\<close>

text \<open>What is fixed when the server starts; the library's part of a site is given.\<close>

definition server_site :: "config \<Rightarrow> env \<Rightarrow> int \<Rightarrow> 'b site \<Rightarrow> 'b site" where
  "server_site cfg env poolMax lib =
     (case trusted_proxies (env ''TRUSTED_PROXIES'') of
        (nets, ips) \<Rightarrow>
          lib\<lparr>st_cfg := cfg, st_proxies := nets, st_ips := ips,
              st_cap := nat (inflightLimit (cfg_MaxInflightRequests cfg) poolMax)\<rparr>)"

definition server_New :: "db \<Rightarrow> metrics \<Rightarrow> 'b server" where
  "server_New d m = \<lparr>sv_limiters = no_limiters, sv_inflight = 0, sv_db = d, sv_metrics = m, sv_log = []\<rparr>"

text \<open>The tickers of \<open>New\<close>: idle limiters every minute, stuck runs every fifteen.\<close>

definition minute :: int where "minute = 60 * 1000000000"

definition evict_tick :: "int \<Rightarrow> 'b server \<Rightarrow> 'b server" where
  "evict_tick t sv = sv\<lparr>sv_limiters := evictIdleLimiters t (10 * minute) (sv_limiters sv)\<rparr>"

definition reap_tick :: "int \<Rightarrow> 'b server \<Rightarrow> 'b server" where
  "reap_tick t sv = sv\<lparr>sv_db := snd (ReapStaleScrapeRuns t (360 * minute) (sv_db sv))\<rparr>"

subsection \<open>Opening the database\<close>

datatype event =
    TelemetryUp | PoolOpened pool_config | SchemaApplied | MetricsListening string | Listening string nat
  | Scraped string | Seeded | PoolClosed | TelemetryDown

type_synonym command = "string option \<times> event list"

record boot =
  bt_pool :: pool_world
  bt_migrations :: "string option"
  bt_otel :: otel_world
  bt_schema :: "string option"
  bt_serve :: "string option"

text \<open>
  The beginning of every command: \<open>db.New\<close>, the deferred \<open>Close\<close>, \<open>RunMigrations\<close>. The result of
  \<open>RunMigrations\<close> is an argument here; \<open>Migration\<close> says how processes come to it.
\<close>

definition with_database :: "boot \<Rightarrow> config \<Rightarrow> pool_options list \<Rightarrow> (pool_config \<Rightarrow> command) \<Rightarrow> command" where
  "with_database bt cfg opts body =
     (case db_New (bt_pool bt) (cfg_DatabaseURL cfg) opts of
        Inl e \<Rightarrow> (Some (''failed to connect to database: '' @ e), [])
      | Inr pool \<Rightarrow>
          (case bt_migrations bt of
             Some e \<Rightarrow> (Some (''failed to run migrations: '' @ e), [PoolOpened pool, PoolClosed])
           | None \<Rightarrow>
               (case body pool of
                  (err, events) \<Rightarrow> (err, PoolOpened pool # SchemaApplied # events @ [PoolClosed]))))"

subsection \<open>serve\<close>

definition Start :: "boot \<Rightarrow> config \<Rightarrow> nat \<Rightarrow> command" where
  "Start bt cfg cap =
     (let addr = cfg_MetricsAddr cfg in
      (bt_serve bt,
       (if addr \<noteq> '''' \<and> \<not> equal_fold addr ''off'' then [MetricsListening addr] else [])
       @ [Listening ('':'' @ cfg_Port cfg) cap]))"

definition serveCmd :: "boot \<Rightarrow> (string \<Rightarrow> string + string) \<Rightarrow> env \<Rightarrow> config \<Rightarrow> command" where
  "serveCmd bt url_sslmode env cfg =
     (case Validate url_sslmode cfg of
        Some e \<Rightarrow> (Some e, [])
      | None \<Rightarrow>
          (case InitTelemetry (bt_otel bt) env of
             Inl e \<Rightarrow> (Some (''failed to initialize telemetry: '' @ e), [])
           | Inr _ \<Rightarrow>
               (case with_database bt cfg [\<lparr>po_MaxConns = cfg_DBMaxConns cfg, po_MinConns = cfg_DBMinConns cfg\<rparr>]
                       (\<lambda>pool.
                          case bt_schema bt of
                            Some e \<Rightarrow> (Some (''failed to create server: failed to create graphql schema: '' @ e), [])
                          | None \<Rightarrow> Start bt cfg (nat (inflightLimit (cfg_MaxInflightRequests cfg) (pc_MaxConns pool)))) of
                  (err, events) \<Rightarrow> (err, TelemetryUp # events @ [TelemetryDown]))))"

subsection \<open>scrape\<close>

text \<open>The scrapers of a run, each with the answers its vendor gives.\<close>

record vendor_worlds =
  vw_aws :: aws_world
  vw_azure :: azure_world
  vw_gcp :: gcp_world

definition scraper_of :: "config \<Rightarrow> vendor_worlds \<Rightarrow> string \<Rightarrow> scraper" where
  "scraper_of cfg vw name =
     (if name = ''AWS'' then AWSScraper cfg (vw_aws vw)
      else if name = ''Azure'' then AzureScraper (vw_azure vw)
      else GCPScraper cfg (vw_gcp vw))"

text \<open>
  The runs share an error group. They are given in the order they end, each with the database it starts on,
  whose script holds what the other runs and processes do meanwhile, and with the time of the clock at its end.
\<close>

definition vendor_run :: "config \<Rightarrow> vendor_worlds \<Rightarrow> int \<Rightarrow> string \<times> int \<times> db \<Rightarrow> (string + bool) \<times> bool \<times> db" where
  "vendor_run cfg vw retain r =
     (case r of (name, t, d) \<Rightarrow> runOneScrape (scraper_of cfg vw name) (cfg_EnablePriceSnapshots cfg) t retain d)"

definition scrapeCmd ::
  "boot \<Rightarrow> config \<Rightarrow> vendor_worlds \<Rightarrow> int \<Rightarrow> string \<Rightarrow> (string \<times> int \<times> db) list \<Rightarrow> command" where
  "scrapeCmd bt cfg vw retain vendor runs =
     with_database bt cfg []
       (\<lambda>pool.
          case vendors_of vendor (cfg_GCPAPIKey cfg) of
            Inl e \<Rightarrow> (Some e, [])
          | Inr names \<Rightarrow>
              (command_result (map (\<lambda>r. (fst r, fst (vendor_run cfg vw retain r))) runs),
               map (\<lambda>r. Scraped (fst r)) runs))"

subsection \<open>seed\<close>

definition seedCmd :: "boot \<Rightarrow> config \<Rightarrow> (string + product list) \<Rightarrow> db \<Rightarrow> command" where
  "seedCmd bt cfg decoded d =
     with_database bt cfg []
       (\<lambda>pool. case SeedFromFile decoded d of (r, d') \<Rightarrow> ((case r of Inl e \<Rightarrow> Some e | Inr _ \<Rightarrow> None), [Seeded]))"

text \<open>The process: exit status 1 for a command that ends with an error.\<close>

definition main_exit :: "command \<Rightarrow> nat" where
  "main_exit c = (case fst c of None \<Rightarrow> 0 | Some _ \<Rightarrow> 1)"

end
