(* ===== verification/Command_Properties.thy ===== *)
theory Command_Properties
  imports Commands Run_Effect Gcp_Properties Azure_Properties Aws_Properties
begin

text \<open>
  What the commands promise: they close what they open, the server listens only when everything before it went
  well, and an exit status of 0 of \<open>scrape\<close> means data.
\<close>

subsection \<open>Resources\<close>

text \<open>Walking the events with a stack of what is open; \<open>None\<close> when something is closed that is not on top.\<close>

fun unwind :: "event list \<Rightarrow> event list \<Rightarrow> event list option" where
  "unwind st [] = Some st"
| "unwind st (TelemetryUp # es) = unwind (TelemetryUp # st) es"
| "unwind st (PoolOpened p # es) = unwind (PoolOpened p # st) es"
| "unwind st (PoolClosed # es) = (case st of PoolOpened p # st' \<Rightarrow> unwind st' es | _ \<Rightarrow> None)"
| "unwind st (TelemetryDown # es) = (case st of TelemetryUp # st' \<Rightarrow> unwind st' es | _ \<Rightarrow> None)"
| "unwind st (_ # es) = unwind st es"

definition resource_event :: "event \<Rightarrow> bool" where
  "resource_event e = (case e of TelemetryUp \<Rightarrow> True | PoolOpened _ \<Rightarrow> True | PoolClosed \<Rightarrow> True | TelemetryDown \<Rightarrow> True | _ \<Rightarrow> False)"

lemma unwind_other: "list_all (\<lambda>e. \<not> resource_event e) es \<Longrightarrow> unwind st (es @ fs) = unwind st fs"
  by (induction es) (auto simp: resource_event_def split: event.splits)

lemma unwind_database:
  assumes "\<And>pool. list_all (\<lambda>e. \<not> resource_event e) (snd (body pool))"
  shows "unwind st (snd (with_database bt cfg opts body) @ fs) = unwind st fs"
proof -
  have "unwind (PoolOpened pool # st) (snd (body pool) @ PoolClosed # fs) = unwind st fs" for pool
    by (simp add: unwind_other [OF assms])
  then show ?thesis by (auto simp: with_database_def split: sum.split option.split prod.split) (metis snd_conv)
qed

lemma start_events: "list_all (\<lambda>e. \<not> resource_event e) (snd (Start bt cfg cap))"
  by (simp add: Start_def Let_def resource_event_def)

text \<open>
  Every command closes what it opened. On every path, whatever fails, the events of \<open>serve\<close>, \<open>scrape\<close> and \<open>seed\<close>
  close the pool and the telemetry exactly as often as they opened them, and in the reverse order.
\<close>

theorem commands_release_resources:
  "unwind [] (snd (serveCmd bt url_sslmode env cfg)) = Some []
   \<and> unwind [] (snd (scrapeCmd bt cfg vw retain vendor runs)) = Some []
   \<and> unwind [] (snd (seedCmd bt cfg decoded d)) = Some []"
proof (intro conjI)
  let ?opts = "[\<lparr>po_MaxConns = cfg_DBMaxConns cfg, po_MinConns = cfg_DBMinConns cfg\<rparr>]"
  let ?body = "\<lambda>pool. case bt_schema bt of
      Some e \<Rightarrow> (Some (''failed to create server: failed to create graphql schema: '' @ e), [])
    | None \<Rightarrow> Start bt cfg (nat (inflightLimit (cfg_MaxInflightRequests cfg) (pc_MaxConns pool)))"
  have "unwind [TelemetryUp] (snd (with_database bt cfg ?opts ?body) @ [TelemetryDown]) = Some []"
    by (subst unwind_database) (auto simp: start_events split: option.split)
  then show "unwind [] (snd (serveCmd bt url_sslmode env cfg)) = Some []"
    by (auto simp: serveCmd_def split: option.split sum.split prod.split)
  show "unwind [] (snd (scrapeCmd bt cfg vw retain vendor runs)) = Some []"
    unfolding scrapeCmd_def
    by (subst unwind_database [where fs = "[]", simplified])
      (auto simp: resource_event_def list_all_iff split: sum.split)
  show "unwind [] (snd (seedCmd bt cfg decoded d)) = Some []"
    unfolding seedCmd_def
    by (subst unwind_database [where fs = "[]", simplified])
      (auto simp: resource_event_def split: sum.split prod.split)
qed

subsection \<open>The server\<close>

lemma database_events:
  assumes "e \<in> set (snd (with_database bt cfg opts body))" "\<not> resource_event e" "e \<noteq> SchemaApplied"
  shows "\<exists>pool. db_New (bt_pool bt) (cfg_DatabaseURL cfg) opts = Inr pool \<and> bt_migrations bt = None \<and> e \<in> set (snd (body pool))"
  using assms by (auto simp: with_database_def resource_event_def split: sum.splits option.splits prod.splits)

text \<open>
  C12: the server listens only when it is ready: the configuration passed \<open>Validate\<close>, the pool was opened, the schema is
  in place and the GraphQL schema was built; and the limit on \<open>/graphql\<close> it listens with fits the pool. Whatever
  pool sizes were configured, a pool that \<open>pgxpool\<close> gives at least one connection has at least one and at most
  \<open>2 ^ 31 - 1\<close>; when the limit was not set by hand, a pool of three or more connections keeps two of them free and a smaller one
  admits one request at a time; a limit set by hand is taken as it is, and a negative one means none (\<open>0\<close>).
\<close>

theorem server_listens_when_ready:
  assumes "Listening addr cap \<in> set (snd (serveCmd bt url_sslmode env cfg))"
    and "\<And>url c. pw_parse (bt_pool bt) url = Inr c \<Longrightarrow> pc_MaxConns c \<in> {1..maxInt32}"
  shows "Validate url_sslmode cfg = None \<and> bt_migrations bt = None \<and> bt_schema bt = None
    \<and> (\<exists>pool. db_New (bt_pool bt) (cfg_DatabaseURL cfg) [\<lparr>po_MaxConns = cfg_DBMaxConns cfg, po_MinConns = cfg_DBMinConns cfg\<rparr>] = Inr pool
         \<and> pc_MaxConns pool \<in> {1..maxInt32}
         \<and> (cfg_MaxInflightRequests cfg = 0 \<longrightarrow> 1 \<le> cap
              \<and> (if 3 \<le> pc_MaxConns pool then int cap + 2 = pc_MaxConns pool else cap = 1))
         \<and> (0 < cfg_MaxInflightRequests cfg \<longrightarrow> int cap = cfg_MaxInflightRequests cfg)
         \<and> (cfg_MaxInflightRequests cfg < 0 \<longrightarrow> cap = 0))"
proof -
  let ?opts = "[\<lparr>po_MaxConns = cfg_DBMaxConns cfg, po_MinConns = cfg_DBMinConns cfg\<rparr>]"
  let ?body = "\<lambda>pool. case bt_schema bt of
      Some e \<Rightarrow> (Some (''failed to create server: failed to create graphql schema: '' @ e), [])
    | None \<Rightarrow> Start bt cfg (nat (inflightLimit (cfg_MaxInflightRequests cfg) (pc_MaxConns pool)))"
  have v: "Validate url_sslmode cfg = None" "Listening addr cap \<in> set (snd (with_database bt cfg ?opts ?body))"
    using assms(1) by (auto simp: serveCmd_def split: option.splits sum.splits prod.splits)
  obtain pool where pool: "db_New (bt_pool bt) (cfg_DatabaseURL cfg) ?opts = Inr pool" "bt_migrations bt = None"
      "Listening addr cap \<in> set (snd (?body pool))"
    using database_events [OF v(2)] by (auto simp: resource_event_def)
  from pool(3) have s: "bt_schema bt = None" "cap = nat (inflightLimit (cfg_MaxInflightRequests cfg) (pc_MaxConns pool))"
    by (auto simp: Start_def Let_def split: option.splits if_splits)
  from pool(1) obtain c where c: "pw_parse (bt_pool bt) (cfg_DatabaseURL cfg) = Inr c" "pool = pool_sizes ?opts c"
    by (auto simp: db_New_def Let_def split: sum.splits option.splits)
  from assms(2) [OF c(1)] have m: "pc_MaxConns pool \<in> {1..maxInt32}"
    by (auto simp: c(2) pool_sizes_def Let_def to_int32_id)
  have "(cfg_MaxInflightRequests cfg = 0 \<longrightarrow> 1 \<le> cap
        \<and> (if 3 \<le> pc_MaxConns pool then int cap + 2 = pc_MaxConns pool else cap = 1))
      \<and> (0 < cfg_MaxInflightRequests cfg \<longrightarrow> int cap = cfg_MaxInflightRequests cfg)
      \<and> (cfg_MaxInflightRequests cfg < 0 \<longrightarrow> cap = 0)"
    using s(2) m by (auto simp: inflightLimit_def Let_def)
  with v(1) pool(1,2) s(1) m show ?thesis by blast
qed

subsection \<open>The scrape command\<close>

lemma run_reports_data:
  assumes "runOneScrape sc snaps appNow retain d = (Inr True, fresh, d')"
  shows "fst (AcquireScrapeLock (to_lower (sc_name sc)) d) = Inr False
    \<or> fresh \<and> (\<exists>r t d1 failed s. begin_run (to_lower (sc_name sc)) d = Some (r, t, d1)
         \<and> sc_scrape sc (scrape_handler r snaps) \<lparr>rs_db = d1, rs_total = 0\<rparr> = (None, failed, s) \<and> 0 < rs_total s)"
proof (cases "begin_run (to_lower (sc_name sc)) d")
  case None
  with assms show ?thesis
    by (auto simp: begin_run_def runOneScrape_def locked_run_def split: prod.splits sum.splits bool.splits)
next
  case (Some x)
  then obtain r t d1 where b: "begin_run (to_lower (sc_name sc)) d = Some (r, t, d1)" by (cases x) auto
  obtain err failed s where sc: "sc_scrape sc (scrape_handler r snaps) \<lparr>rs_db = d1, rs_total = 0\<rparr> = (err, failed, s)"
    by (cases "sc_scrape sc (scrape_handler r snaps) \<lparr>rs_db = d1, rs_total = 0\<rparr>") auto
  have "fst (after_scrape (sc_name sc) (to_lower (sc_name sc)) r t appNow retain (err, failed, s)) = Inr True
      \<and> fst (snd (after_scrape (sc_name sc) (to_lower (sc_name sc)) r t appNow retain (err, failed, s))) = fresh"
    using runOneScrape_begun [OF b, of snaps appNow retain] sc assms by (auto split: prod.splits)
  then have "fresh \<and> err = None \<and> 0 < rs_total s"
    by (auto simp: after_scrape_def Let_def emptyScrapeError_def split: option.splits prod.splits if_splits)
  with b sc show ?thesis by blast
qed

lemma command_result_None:
  assumes "command_result results = None" "(v, r) \<in> set results"
  shows "r = Inr True"
proof -
  have l: "filter (\<lambda>(v, r). isl r) results = []"
  proof (rule ccontr)
    assume "filter (\<lambda>(v, r). isl r) results \<noteq> []"
    then obtain w x rest where f: "filter (\<lambda>(v, r). isl r) results = (w, x) # rest" by (cases "filter (\<lambda>(v, r). isl r) results") auto
    then have "(w, x) \<in> set (filter (\<lambda>(v, r). isl r) results)" by simp
    then obtain e where "x = Inl e" by (cases x) auto
    with assms(1) f show False by (simp add: command_result_def)
  qed
  with assms(1) have "filter (\<lambda>(v, r). r = Inr False) results = []" by (auto simp: command_result_def Let_def split: if_splits)
  with l assms(2) show ?thesis by (cases r) (auto simp: filter_empty_conv)
qed

text \<open>
  C7: an exit status of 0 means data. When \<open>scrape\<close> ends with status 0, every vendor it was asked for either was
  being scraped by another process, or ended its own scrape without an error after it ingested at least one product.
\<close>

theorem scrape_success_means_data:
  assumes "main_exit (scrapeCmd bt cfg vw retain vendor runs) = 0"
    and "mset (map fst runs) = mset (projr (vendors_of vendor (cfg_GCPAPIKey cfg)))"
  shows "\<exists>names. vendors_of vendor (cfg_GCPAPIKey cfg) = Inr names \<and> names \<noteq> []
    \<and> (\<forall>name \<in> set names. \<exists>now_t d. (name, now_t, d) \<in> set runs
         \<and> (let sc = scraper_of cfg vw name; v = to_lower (sc_name sc) in
            fst (AcquireScrapeLock v d) = Inr False
            \<or> (\<exists>r t d1 failed s. begin_run v d = Some (r, t, d1)
                 \<and> sc_scrape sc (scrape_handler r (cfg_EnablePriceSnapshots cfg)) \<lparr>rs_db = d1, rs_total = 0\<rparr> = (None, failed, s)
                 \<and> 0 < rs_total s)))"
proof -
  from assms(1) obtain names where n: "vendors_of vendor (cfg_GCPAPIKey cfg) = Inr names"
    and c: "command_result (map (\<lambda>r. (fst r, fst (vendor_run cfg vw retain r))) runs) = None"
    by (auto simp: main_exit_def scrapeCmd_def with_database_def split: option.splits sum.splits)
  have "names \<noteq> []" using n by (auto simp: vendors_of_def split: if_splits)
  moreover have "\<exists>now_t d. (name, now_t, d) \<in> set runs
         \<and> (let sc = scraper_of cfg vw name; v = to_lower (sc_name sc) in
            fst (AcquireScrapeLock v d) = Inr False
            \<or> (\<exists>r t d1 failed s. begin_run v d = Some (r, t, d1)
                 \<and> sc_scrape sc (scrape_handler r (cfg_EnablePriceSnapshots cfg)) \<lparr>rs_db = d1, rs_total = 0\<rparr> = (None, failed, s)
                 \<and> 0 < rs_total s))" if "name \<in> set names" for name
  proof -
    have "name \<in> set (map fst runs)" using assms(2) n that by (metis mset_eq_setD sum.sel(2))
    then obtain now_t d where r: "(name, now_t, d) \<in> set runs" by auto
    then have "(name, fst (vendor_run cfg vw retain (name, now_t, d))) \<in> set (map (\<lambda>r. (fst r, fst (vendor_run cfg vw retain r))) runs)"
      by force
    from command_result_None [OF c this] obtain fresh d'
      where "runOneScrape (scraper_of cfg vw name) (cfg_EnablePriceSnapshots cfg) now_t retain d = (Inr True, fresh, d')"
      by (cases "runOneScrape (scraper_of cfg vw name) (cfg_EnablePriceSnapshots cfg) now_t retain d") (auto simp: vendor_run_def)
    from run_reports_data [OF this] r show ?thesis unfolding Let_def by blast
  qed
  ultimately show ?thesis using n by blast
qed

subsection \<open>Concrete commands\<close>

definition small_pool :: pool_world where
  "small_pool = \<lparr>pw_parse = (\<lambda>url. Inr \<lparr>pc_MaxConns = 4, pc_MinConns = 0\<rparr>), pw_connect = (\<lambda>c. None), pw_ping = None\<rparr>"

definition good_boot :: boot where
  "good_boot = \<lparr>bt_pool = small_pool, bt_migrations = None,
     bt_otel = \<lparr>ow_exporter = (\<lambda>x. None), ow_resource = None\<rparr>, bt_schema = None, bt_serve = None\<rparr>"

definition local_env :: env where
  "local_env k = (if k = ''DATABASE_URL'' then ''host=db'' else if k = ''DB_MAX_CONNS'' then ''20'' else '''')"

theorem server_listens_when_ready_witness:
  "Validate Inr (Load (\<lambda>s. None) local_env) = None
   \<and> (\<exists>pool. db_New small_pool ''host=db'' [\<lparr>po_MaxConns = 20, po_MinConns = 0\<rparr>] = Inr pool \<and> 18 + 2 = pc_MaxConns pool)"
proof -
  let ?cfg = "Load (\<lambda>s. None) local_env"
  have l: "Listening '':4000'' 18 \<in> set (snd (serveCmd good_boot Inr local_env ?cfg))" by code_simp
  have c: "cfg_MaxInflightRequests ?cfg = 0" "cfg_DBMaxConns ?cfg = 20" "cfg_DBMinConns ?cfg = 0"
    "cfg_DatabaseURL ?cfg = ''host=db''" by code_simp+
  have p: "\<And>url c. pw_parse (bt_pool good_boot) url = Inr c \<Longrightarrow> pc_MaxConns c \<in> {1..maxInt32}"
    by (auto simp: good_boot_def small_pool_def maxInt32_def)
  have "Validate Inr ?cfg = None \<and> (\<exists>pool. db_New (bt_pool good_boot) (cfg_DatabaseURL ?cfg)
      [\<lparr>po_MaxConns = cfg_DBMaxConns ?cfg, po_MinConns = cfg_DBMinConns ?cfg\<rparr>] = Inr pool
      \<and> (if 3 \<le> pc_MaxConns pool then int 18 + 2 = pc_MaxConns pool else (18 :: nat) = 1))"
    using server_listens_when_ready [OF l] p c(1) by meson
  then show ?thesis by (auto simp: c good_boot_def split: if_splits)
qed

definition silent_vendors :: vendor_worlds where
  "silent_vendors = \<lparr>vw_aws = silent_aws, vw_azure = firewall_world, vw_gcp = silent_gcp\<rparr>"

text \<open>A database whose AWS lock is held by another process.\<close>

definition locked_db :: db where
  "locked_db = (fresh_db 10 [])\<lparr>locks := [scrape_lock_key ''aws'']\<rparr>"

theorem scrape_success_means_data_witness:
  "fst (AcquireScrapeLock ''aws'' locked_db) = Inr False \<or> (\<exists>r t d1. begin_run ''aws'' locked_db = Some (r, t, d1))"
proof -
  let ?cfg = "Load (\<lambda>s. None) local_env"
  have n: "to_lower (sc_name (scraper_of ?cfg silent_vendors ''AWS'')) = ''aws''"
    by (simp add: scraper_of_def AWSScraper_def) code_simp
  moreover have "fst (AcquireScrapeLock ''aws'' locked_db) = Inr False" by code_simp
  ultimately have r: "fst (vendor_run ?cfg silent_vendors 50 (''AWS'', 100, locked_db)) = Inr True"
    by (auto simp: vendor_run_def runOneScrape_def split: prod.splits)
  have v: "vendors_of ''aws'' (cfg_GCPAPIKey ?cfg) = Inr [''AWS'']" by code_simp
  have "with_database good_boot ?cfg [] body = (fst (body c), PoolOpened c # SchemaApplied # snd (body c) @ [PoolClosed])"
    if "c = \<lparr>pc_MaxConns = 4, pc_MinConns = 0\<rparr>" for body c
    using that by (simp add: with_database_def db_New_def good_boot_def small_pool_def pool_sizes_def split: prod.split)
  with r v have "main_exit (scrapeCmd good_boot ?cfg silent_vendors 50 ''aws'' [(''AWS'', 100, locked_db)]) = 0"
    by (simp add: main_exit_def scrapeCmd_def command_result_def)
  from scrape_success_means_data [OF this] v n show ?thesis by (auto simp: Let_def)
qed

end
