(* ===== verification/Schema.thy ===== *)
theory Schema
  imports Resolver
begin

text \<open>
  The types \<open>NewSchema\<close> declares in \<^verbatim>\<open>internal/graphql/schema.go\<close>, as data, and how they fit the code around
  them: the arguments a declared type lets through against what the parsers of the filters read, and the fields of
  the declared objects against the fields of the structs that are resolved by their JSON names
  (\<^verbatim>\<open>internal/db/queries.go\<close>). Checking arguments against their types is the GraphQL library's: \<open>accepts\<close>
  is the rule of the GraphQL specification.
\<close>

subsection \<open>The declarations\<close>

datatype gql_type = Scalar string | NonNull gql_type | ListOf gql_type | Named string

type_synonym input_field = "string \<times> gql_type"
type_synonym object_field = "string \<times> input_field list \<times> gql_type"

datatype gql_def = InputObject "input_field list" | Object "object_field list"

definition gql_String :: gql_type where "gql_String = Scalar ''String''"
definition gql_Int :: gql_type where "gql_Int = Scalar ''Int''"

definition attributeType :: "object_field list" where
  "attributeType = [(''key'', [], NonNull gql_String), (''value'', [], NonNull gql_String)]"

definition priceFilterInput :: "input_field list" where
  "priceFilterInput =
     [(''purchaseOption'', gql_String), (''unit'', gql_String), (''description'', gql_String),
      (''description_regex'', gql_String), (''startUsageAmount'', gql_String), (''endUsageAmount'', gql_String),
      (''termLength'', gql_String), (''termPurchaseOption'', gql_String), (''termOfferingClass'', gql_String)]"

definition priceType :: "object_field list" where
  "priceType =
     [(''priceHash'', [], NonNull gql_String), (''purchaseOption'', [], gql_String), (''unit'', [], NonNull gql_String),
      (''USD'', [], NonNull gql_String), (''startUsageAmount'', [], gql_String), (''endUsageAmount'', [], gql_String),
      (''description'', [], gql_String), (''termLength'', [], gql_String), (''termPurchaseOption'', [], gql_String),
      (''termOfferingClass'', [], gql_String)]"

definition attributeFilterInput :: "input_field list" where
  "attributeFilterInput = [(''key'', NonNull gql_String), (''value'', gql_String), (''value_regex'', gql_String)]"

definition productFilterInput :: "input_field list" where
  "productFilterInput =
     [(''vendorName'', gql_String), (''service'', gql_String), (''productFamily'', gql_String), (''region'', gql_String),
      (''sku'', gql_String), (''attributeFilters'', ListOf (Named ''AttributeFilter''))]"

definition productType :: "object_field list" where
  "productType =
     [(''productHash'', [], NonNull gql_String), (''vendorName'', [], NonNull gql_String),
      (''service'', [], NonNull gql_String), (''productFamily'', [], gql_String), (''region'', [], gql_String),
      (''sku'', [], NonNull gql_String), (''attributes'', [], ListOf (Named ''Attribute'')),
      (''prices'', [(''filter'', Named ''PriceFilter'')], ListOf (Named ''Price''))]"

definition queryType :: "object_field list" where
  "queryType =
     [(''products'', [(''filter'', NonNull (Named ''ProductFilter'')), (''limit'', gql_Int), (''offset'', gql_Int)],
       ListOf (Named ''Product''))]"

definition NewSchema :: "(string \<times> gql_def) list" where
  "NewSchema =
     [(''Attribute'', Object attributeType), (''PriceFilter'', InputObject priceFilterInput), (''Price'', Object priceType),
      (''AttributeFilter'', InputObject attributeFilterInput), (''ProductFilter'', InputObject productFilterInput),
      (''Product'', Object productType), (''Query'', Object queryType)]"

text \<open>The JSON names of the fields of \<open>db.Price\<close> and \<open>db.Product\<close>, which the library resolves them by.\<close>

definition price_json_fields :: "price \<Rightarrow> (string \<times> string) list" where
  "price_json_fields pr =
     [(''priceHash'', pr_hash pr), (''purchaseOption'', pr_purchaseOption pr), (''unit'', pr_unit pr), (''USD'', pr_USD pr),
      (''startUsageAmount'', pr_startUsage pr), (''endUsageAmount'', pr_endUsage pr), (''description'', pr_description pr),
      (''termLength'', pr_termLength pr), (''termPurchaseOption'', pr_termPurchaseOption pr),
      (''termOfferingClass'', pr_termOfferingClass pr)]"

definition product_json_fields :: "product \<Rightarrow> (string \<times> string) list" where
  "product_json_fields p =
     [(''productHash'', p_hash p), (''sku'', p_sku p), (''vendorName'', p_vendor p), (''region'', p_region p),
      (''service'', p_service p), (''productFamily'', p_family p)]"

subsection \<open>Typed arguments\<close>

definition required :: "gql_type \<Rightarrow> bool" where
  "required t = (case t of NonNull _ \<Rightarrow> True | _ \<Rightarrow> False)"

definition in_int32 :: "int \<Rightarrow> bool" where
  "in_int32 n \<longleftrightarrow> - 2147483648 \<le> n \<and> n \<le> 2147483647"

lemma gval_list_smaller: "x \<in> set vs \<Longrightarrow> size x < size (GList vs)"
  by (induction vs) auto

lemma gval_map_smaller: "(k, x) \<in> set m \<Longrightarrow> size x < size (GMap m)"
  by (induction m) auto

function accepts :: "(string \<times> gql_def) list \<Rightarrow> gql_type \<Rightarrow> gval \<Rightarrow> bool" where
  "accepts S (NonNull t) v = (v \<noteq> GNull \<and> accepts S t v)"
| "accepts S (Scalar n) v =
     (case v of GNull \<Rightarrow> True | GStr s \<Rightarrow> n = ''String'' | GInt i \<Rightarrow> n = ''Int'' \<and> in_int32 i | _ \<Rightarrow> False)"
| "accepts S (ListOf t) v = (case v of GNull \<Rightarrow> True | GList vs \<Rightarrow> (\<forall>x \<in> set vs. accepts S t x) | _ \<Rightarrow> False)"
| "accepts S (Named n) v =
     (case v of
        GNull \<Rightarrow> True
      | GMap m \<Rightarrow>
          (case map_of S n of
             Some (InputObject fs) \<Rightarrow>
               distinct (map fst m)
               \<and> (\<forall>kx \<in> set m. case map_of fs (fst kx) of None \<Rightarrow> False | Some t \<Rightarrow> accepts S t (snd kx))
               \<and> list_all (\<lambda>(k, t). required t \<longrightarrow> k \<in> set (map fst m)) fs
           | _ \<Rightarrow> False)
      | _ \<Rightarrow> False)"
  by pat_completeness auto
termination
  by (relation "measures [\<lambda>(S, t, v). size v, \<lambda>(S, t, v). size t]")
    (auto dest: gval_list_smaller gval_map_smaller)

lemma accepts_string [simp]: "accepts S gql_String v \<longleftrightarrow> v = GNull \<or> (\<exists>s. v = GStr s)"
  by (cases v) (auto simp: gql_String_def)

text \<open>Objects: every declared field without a resolver is a field of its struct, and every field is declared.\<close>

lemma objects_match_structs:
  "map fst priceType = map fst (price_json_fields pr)"
  "set (map fst productType) = set (map fst (product_json_fields p)) \<union> {''attributes'', ''prices''}"
  by (simp_all add: priceType_def price_json_fields_def productType_def product_json_fields_def) auto

lemma typed_map:
  assumes "accepts S (Named n) (GMap m)" "map_of S n = Some (InputObject fs)"
  shows "(k, x) \<in> set m \<Longrightarrow> \<exists>t. map_of fs k = Some t \<and> accepts S t x"
    and "k \<notin> fst ` set fs \<Longrightarrow> map_of m k = None"
    and "(k, NonNull t) \<in> set fs \<Longrightarrow> \<exists>x. map_of m k = Some x"
proof -
  from assms have d: "\<forall>kx \<in> set m. case map_of fs (fst kx) of None \<Rightarrow> False | Some t \<Rightarrow> accepts S t (snd kx)"
    and r: "list_all (\<lambda>(k, t). required t \<longrightarrow> k \<in> set (map fst m)) fs" by simp_all
  show t: "(k, x) \<in> set m \<Longrightarrow> \<exists>t. map_of fs k = Some t \<and> accepts S t x" for k x
    using d by (force split: option.splits)
  show "k \<notin> fst ` set fs \<Longrightarrow> map_of m k = None"
    using t by (metis map_of_eq_None_iff map_of_SomeD not_None_eq option.distinct(1))
  show "(k, NonNull t) \<in> set fs \<Longrightarrow> \<exists>x. map_of m k = Some x"
  proof -
    assume "(k, NonNull t) \<in> set fs"
    with r have "k \<in> set (map fst m)" by (auto simp: list_all_iff required_def)
    then show ?thesis by (metis map_of_eq_None_iff not_None_eq set_map)
  qed
qed

lemma schema_lookup:
  "map_of NewSchema ''PriceFilter'' = Some (InputObject priceFilterInput)"
  "map_of NewSchema ''AttributeFilter'' = Some (InputObject attributeFilterInput)"
  "map_of NewSchema ''ProductFilter'' = Some (InputObject productFilterInput)"
  by (simp_all add: NewSchema_def)

lemma get_string_None: "map_of m k = None \<Longrightarrow> get_string m k = None"
  by (simp add: get_string_def)

lemma price_filter_kept:
  assumes "accepts NewSchema (Named ''PriceFilter'') (GMap m)"
  shows "get_string (price_map_of (parsePriceFilter m)) = get_string m"
proof
  fix k
  show "get_string (price_map_of (parsePriceFilter m)) k = get_string m k"
  proof (cases "k \<in> fst ` set priceFilterInput")
    case True
    then have "k \<in> set [''purchaseOption'', ''unit'', ''description'', ''description_regex'', ''startUsageAmount'',
      ''endUsageAmount'', ''termLength'', ''termPurchaseOption'', ''termOfferingClass'']"
      by (simp add: priceFilterInput_def)
    then show ?thesis
      unfolding list.set insert_iff empty_iff price_map_of_def parsePriceFilter_def
      by (elim disjE) (simp_all add: get_put_append put_string_get)
  next
    case False
    with typed_map(2) [OF assms schema_lookup(1)] have "get_string m k = None" by (blast intro: get_string_None)
    moreover have "k \<noteq> ''purchaseOption''" "k \<noteq> ''unit''" "k \<noteq> ''description''" "k \<noteq> ''description_regex''"
      "k \<noteq> ''startUsageAmount''" "k \<noteq> ''endUsageAmount''" "k \<noteq> ''termLength''" "k \<noteq> ''termPurchaseOption''"
      "k \<noteq> ''termOfferingClass''"
      using False unfolding priceFilterInput_def by force+
    ultimately show ?thesis
      by (simp add: price_map_of_def get_put_append put_string_get)
  qed
qed

definition same_strings :: "gval \<Rightarrow> gval \<Rightarrow> bool" where
  "same_strings v w \<longleftrightarrow> (\<exists>m m'. v = GMap m \<and> w = GMap m' \<and> get_string m = get_string m')"

lemma attribute_kept:
  assumes "accepts NewSchema (Named ''AttributeFilter'') v" "v \<noteq> GNull"
  shows "\<exists>af. parse_attribute v = [af] \<and> same_strings v (attribute_map af)"
proof -
  obtain m where v: "v = GMap m" using assms by (cases v) auto
  note t = typed_map [OF assms(1) [unfolded v] schema_lookup(2)]
  obtain x where x: "map_of m ''key'' = Some x" using t(3) by (auto simp: attributeFilterInput_def)
  with t(1) [of "''key''" x] obtain s where "x = GStr s" by (auto simp: attributeFilterInput_def dest: map_of_SomeD)
  with x have s: "get_string m ''key'' = Some s" by (simp add: get_string_def)
  have "get_string m k = get_string ((''key'', GStr s) # put_string ''value'' (get_string m ''value'')
     @ put_string ''value_regex'' (get_string m ''value_regex'')) k" for k
  proof (cases "k \<in> {''key'', ''value'', ''value_regex''}")
    case True
    then show ?thesis
      using s unfolding insert_iff empty_iff
      by (elim disjE) (simp_all add: get_string_simps get_put_append put_string_get)
  next
    case False
    then have "k \<notin> fst ` set attributeFilterInput" by (simp add: attributeFilterInput_def)
    with t(2) have "get_string m k = None" by (blast intro: get_string_None)
    with False show ?thesis by (simp add: get_string_simps get_put_append put_string_get)
  qed
  then have "get_string m = get_string ((''key'', GStr s) # put_string ''value'' (get_string m ''value'')
     @ put_string ''value_regex'' (get_string m ''value_regex''))" by blast
  then show ?thesis by (simp add: v parse_attribute_def s same_strings_def attribute_map_def)
qed

lemma attributes_kept:
  "\<forall>v \<in> set vs. accepts NewSchema (Named ''AttributeFilter'') v
    \<Longrightarrow> list_all2 (\<lambda>v af. same_strings v (attribute_map af)) (filter (\<lambda>v. v \<noteq> GNull) vs) (concat (map parse_attribute vs))"
proof (induction vs)
  case (Cons v vs)
  show ?case
  proof (cases "v = GNull")
    case True
    with Cons show ?thesis by (simp add: parse_attribute_def)
  next
    case False
    with Cons attribute_kept [of v] show ?thesis by auto
  qed
qed simp

definition attribute_list :: "gmap \<Rightarrow> gval list" where
  "attribute_list m = (case map_of m ''attributeFilters'' of Some (GList vs) \<Rightarrow> vs | _ \<Rightarrow> [])"

lemma attribute_list_typed:
  assumes "accepts NewSchema (Named ''ProductFilter'') (GMap m)"
  shows "\<forall>x \<in> set (attribute_list m). accepts NewSchema (Named ''AttributeFilter'') x"
proof (cases "\<exists>vs. map_of m ''attributeFilters'' = Some (GList vs)")
  case True
  then obtain vs where vs: "map_of m ''attributeFilters'' = Some (GList vs)" by blast
  have "map_of productFilterInput ''attributeFilters'' = Some (ListOf (Named ''AttributeFilter''))"
    by (simp add: productFilterInput_def)
  with typed_map(1) [OF assms schema_lookup(3) map_of_SomeD [OF vs]]
  have "accepts NewSchema (ListOf (Named ''AttributeFilter'')) (GList vs)" by simp
  with vs show ?thesis unfolding attribute_list_def accepts.simps(3) by simp
next
  case False
  then have "attribute_list m = []" by (auto simp: attribute_list_def split: option.split gval.split)
  then show ?thesis by simp
qed

lemma product_filter_kept:
  assumes "accepts NewSchema (Named ''ProductFilter'') (GMap m)"
  shows "get_string (filter_map_of (parseProductFilter m)) = get_string m"
proof
  fix k
  note t = typed_map [OF assms schema_lookup(3)]
  show "get_string (filter_map_of (parseProductFilter m)) k = get_string m k"
  proof (cases "k \<in> {''vendorName'', ''service'', ''productFamily'', ''region'', ''sku''}")
    case True
    then show ?thesis
      unfolding insert_iff empty_iff filter_map_of_def parseProductFilter_def empty_productFilter_def
      by (elim disjE) (simp_all add: get_put_append get_string_simps)
  next
    case False
    have "get_string m k = None"
    proof (cases "k = ''attributeFilters''")
      case True
      have "map_of m k \<noteq> Some (GStr s)" for s
        using t(1) [of k "GStr s"] True by (auto simp: productFilterInput_def dest: map_of_SomeD)
      then show ?thesis by (auto simp: get_string_def split: option.split gval.split)
    next
      case other: False
      with False have "k \<notin> fst ` set productFilterInput" by (simp add: productFilterInput_def)
      with t(2) show ?thesis by (blast intro: get_string_None)
    qed
    with False show ?thesis by (simp add: filter_map_of_def get_put_append get_string_simps)
  qed
qed

lemma attribute_filters_kept:
  assumes "accepts NewSchema (Named ''ProductFilter'') (GMap m)"
  shows "list_all2 (\<lambda>x af. same_strings x (attribute_map af)) (filter (\<lambda>x. x \<noteq> GNull) (attribute_list m))
    (f_attrs (parseProductFilter m))"
proof -
  have "f_attrs (parseProductFilter m) = concat (map parse_attribute (attribute_list m))"
    by (auto simp: parseProductFilter_def attribute_list_def split: option.split gval.split)
  with attributes_kept [OF attribute_list_typed [OF assms]] show ?thesis by simp
qed

text \<open>
  C13: what the schema lets a client ask for is what the lookup is asked for. For arguments of the declared types the
  type assertions of the resolvers hold, and the parsers of the filters drop nothing: every string of a product
  filter or a price filter, under whatever declared name, is found in the parsed filter under that name, and each attribute filter
  that is not null gives one attribute filter with its strings, in order.
\<close>

theorem declared_filters_kept:
  assumes "accepts NewSchema (NonNull (Named ''ProductFilter'')) v"
    and "accepts NewSchema (Named ''PriceFilter'') w" "w \<noteq> GNull"
  shows "\<exists>m n. v = GMap m \<and> w = GMap n
    \<and> get_string (filter_map_of (parseProductFilter m)) = get_string m
    \<and> list_all2 (\<lambda>x af. same_strings x (attribute_map af)) (filter (\<lambda>x. x \<noteq> GNull) (attribute_list m))
        (f_attrs (parseProductFilter m))
    \<and> get_string (price_map_of (parsePriceFilter n)) = get_string n"
proof -
  obtain m where v: "v = GMap m" using assms(1) by (cases v) auto
  obtain n where w: "w = GMap n" using assms(2,3) by (cases w) auto
  from assms(1) v have "accepts NewSchema (Named ''ProductFilter'') (GMap m)" by simp
  with v w assms(2) product_filter_kept attribute_filters_kept price_filter_kept show ?thesis by blast
qed

definition sample_filter_arg :: gval where
  "sample_filter_arg = GMap [(''vendorName'', GStr ''aws''), (''service'', GStr ''AmazonEC2''),
     (''attributeFilters'', GList [GMap [(''key'', GStr ''instanceType''), (''value'', GStr ''t3.micro'')], GNull])]"

theorem declared_filters_kept_witness:
  "\<exists>m. sample_filter_arg = GMap m \<and> get_string (filter_map_of (parseProductFilter m)) = get_string m
     \<and> get_string m ''service'' = Some ''AmazonEC2''"
proof -
  have "accepts NewSchema (NonNull (Named ''ProductFilter'')) sample_filter_arg" by code_simp
  moreover have "accepts NewSchema (Named ''PriceFilter'') (GMap [(''purchaseOption'', GStr ''on_demand'')])" by code_simp
  ultimately obtain m where "sample_filter_arg = GMap m" "get_string (filter_map_of (parseProductFilter m)) = get_string m"
    using declared_filters_kept by blast
  moreover from this(1) have "get_string m ''service'' = Some ''AmazonEC2''"
    by (auto simp: sample_filter_arg_def get_string_def)
  ultimately show ?thesis by blast
qed

end
