(* ===== verification/Server_Life.thy ===== *)
theory Server_Life
  imports Commands Store_Invariants
begin

text \<open>
  The server over its whole life: any sequence of requests, on any route, and of ticks of its two tickers. A
  relation between the states of the server that every elementary change keeps is kept by the whole stack of
  middlewares, and so by every sequence: the locale \<open>server_relation\<close>. It is used for the growth of counters and
  log, which hold whatever the executor does, and for the well-formedness of the limiters and the tables, which
  need an executor that keeps the tables.
\<close>

datatype server_event = Request request happening | EvictTick int | ReapTick int

definition server_step ::
  "(string \<Rightarrow> string) \<Rightarrow> 'b site \<Rightarrow> catalog_fs \<Rightarrow> (int \<Rightarrow> string) \<Rightarrow> server_event \<Rightarrow> 'b server \<Rightarrow> 'b server" where
  "server_step deflate site fs rfc3339 e sv =
     (case e of
        Request rq hp \<Rightarrow> ran_srv (server_handler deflate site fs rfc3339 rq hp sv)
      | EvictTick t \<Rightarrow> evict_tick t sv
      | ReapTick t \<Rightarrow> reap_tick t sv)"

subsection \<open>Relations kept by every change\<close>

locale server_relation =
  fixes site :: "'b site" and R :: "'b server \<Rightarrow> 'b server \<Rightarrow> bool"
  assumes stays: "R sv sv"
    and then_R: "R s1 s2 \<Longrightarrow> R s2 s3 \<Longrightarrow> R s1 s3"
    and slots_free: "R s1 (s2\<lparr>sv_inflight := n\<rparr>) = R s1 s2" "R (s1\<lparr>sv_inflight := n\<rparr>) s2 = R s1 s2"
    and limit: "rate_admit (st_new_bucket site) (st_allow site) perSec t ip (sv_limiters sv) = (ok, ls) \<Longrightarrow> R sv (sv\<lparr>sv_limiters := ls\<rparr>)"
    and run: "run_items site ex i batch (sv_db sv, b, sv_metrics sv) = (rs, d, b', m) \<Longrightarrow> R sv (sv\<lparr>sv_db := d, sv_metrics := m\<rparr>)"
    and status: "gather_status t (sv_metrics sv) (sv_db sv) = (vs, m, d) \<Longrightarrow> R sv (sv\<lparr>sv_metrics := m, sv_db := d\<rparr>)"
    and counted: "R sv (sv\<lparr>sv_metrics := recordHTTPMetrics l k c n (sv_metrics sv)\<rparr>)"
    and logged: "R sv (sv\<lparr>sv_log := sv_log sv @ [entry]\<rparr>)"
    and evict: "R sv (evict_tick t sv)"
    and reap: "R sv (reap_tick t sv)"
begin

definition serves :: "'b Http.handler \<Rightarrow> bool" where
  "serves h \<longleftrightarrow> (\<forall>rq hp sv. R sv (ran_srv (h rq hp sv)))"

lemma servesD: "serves h \<Longrightarrow> R sv (ran_srv (h rq hp sv))"
  by (simp add: serves_def)

lemma serves_graphql: "serves (handleGraphQL site)"
  by (auto simp: serves_def handleGraphQL_def execute_batch_def Let_def stays run split: option.split sum.split prod.split)

lemma serves_inflight: "serves h \<Longrightarrow> serves (inflightMiddleware site h)"
proof -
  assume "serves h"
  then have "R (sv\<lparr>sv_inflight := n\<rparr>) (ran_srv (h rq hp (sv\<lparr>sv_inflight := n\<rparr>)))" for rq hp sv n
    by (simp add: serves_def)
  then have "R sv (ran_srv (h rq hp (sv\<lparr>sv_inflight := n\<rparr>)))" for rq hp sv n by (simp add: slots_free(2))
  with \<open>serves h\<close> show ?thesis
    by (auto simp: serves_def inflightMiddleware_def release_slot_def stays slots_free(1) split: slot_wait.split)
qed

lemma serves_auth: "serves h \<Longrightarrow> serves (authMiddleware site h)"
  by (auto simp: serves_def authMiddleware_def Let_def stays)

lemma serves_rate: "serves h \<Longrightarrow> serves (rateLimitMiddleware site h)"
  by (auto simp: serves_def rateLimitMiddleware_def Let_def split: prod.split intro: limit then_R)

lemma serves_recover: "serves h \<Longrightarrow> serves (recoverMiddleware h)"
  by (simp add: serves_def recoverMiddleware_def Let_def)

lemma serves_request_id: "serves h \<Longrightarrow> serves (requestIDMiddleware site h)"
  by (auto simp: serves_def requestIDMiddleware_def Let_def intro!: then_R [OF _ logged])

lemma serves_instrument: "serves h \<Longrightarrow> serves (instrument l h)"
  by (auto simp: serves_def instrument_def Let_def intro!: then_R [OF _ counted])

lemma serves_gzip: "serves h \<Longrightarrow> serves (gzipMiddleware deflate h)"
  by (simp add: serves_def gzipMiddleware_def Let_def)

lemma serves_security: "serves h \<Longrightarrow> serves (securityHeadersMiddleware h)"
  by (simp add: serves_def securityHeadersMiddleware_def prefix_ops_def)

lemma serves_cors: "serves h \<Longrightarrow> serves (corsMiddleware origins h)"
  by (simp add: serves_def corsMiddleware_def prefix_ops_def Let_def stays)

lemma serves_small:
  "serves handleLiveness" "serves handleReadiness" "serves handleRoot" "serves (handleCatalog fs)" "serves (handleStatus rfc3339)"
  by (auto simp: serves_def route_defs Let_def stays status split: sum.split prod.split)

lemma serves_public: "serves (publicHandler site fs rfc3339)"
proof -
  have g: "serves (graphql_endpoint site)"
    unfolding graphql_endpoint_def
    by (intro serves_instrument serves_request_id serves_recover serves_rate serves_auth serves_inflight serves_graphql)
  note i = serves_small [THEN serves_instrument]
  show ?thesis
    unfolding serves_def publicHandler_def Let_def
    by (auto intro!: servesD [OF g] servesD [OF i(1)] servesD [OF i(2)] servesD [OF i(3)] servesD [OF i(4)] servesD [OF i(5)])
qed

lemma serves_all: "serves (server_handler deflate site fs rfc3339)"
  unfolding server_handler_def Let_def
  by (simp add: serves_cors serves_security serves_gzip serves_public)

lemma steps_related: "R sv (fold (server_step deflate site fs rfc3339) es sv)"
proof (induction es arbitrary: sv)
  case (Cons e es)
  have "R sv (server_step deflate site fs rfc3339 e sv)"
    by (cases e) (simp_all add: server_step_def servesD [OF serves_all] evict reap)
  with Cons show ?case by (auto intro: then_R)
qed (simp add: stays)

end

subsection \<open>Counters and log only grow\<close>

definition le_map :: "('k \<rightharpoonup> nat) \<Rightarrow> ('k \<rightharpoonup> nat) \<Rightarrow> bool" where
  "le_map m m' \<longleftrightarrow> (\<forall>k. case m k of None \<Rightarrow> True | Some x \<Rightarrow> (case m' k of None \<Rightarrow> False | Some y \<Rightarrow> x \<le> y))"

definition metrics_grow :: "metrics \<Rightarrow> metrics \<Rightarrow> bool" where
  "metrics_grow m m' \<longleftrightarrow>
     le_map (http_requests_total m) (http_requests_total m')
     \<and> le_map (http_request_duration_seconds m) (http_request_duration_seconds m')
     \<and> le_map (http_response_bytes_total m) (http_response_bytes_total m')
     \<and> le_map (graphql_queries_total m) (graphql_queries_total m')"

definition server_grows :: "'b server \<Rightarrow> 'b server \<Rightarrow> bool" where
  "server_grows s t \<longleftrightarrow> metrics_grow (sv_metrics s) (sv_metrics t) \<and> (\<exists>entries. sv_log t = sv_log s @ entries)"

lemma le_map_refl [simp]: "le_map m m"
  by (simp add: le_map_def split: option.split)

lemma le_map_trans: "le_map m1 m2 \<Longrightarrow> le_map m2 m3 \<Longrightarrow> le_map m1 m3"
  unfolding le_map_def by (fastforce split: option.splits)

lemma le_map_bump [simp]: "le_map m (bump k n m)"
  by (simp add: le_map_def bump_def split: option.split)

lemma grow_refl [simp]: "metrics_grow m m"
  by (simp add: metrics_grow_def)

lemma grow_trans: "metrics_grow m1 m2 \<Longrightarrow> metrics_grow m2 m3 \<Longrightarrow> metrics_grow m1 m3"
  unfolding metrics_grow_def by (blast intro: le_map_trans)

lemma grow_query: "metrics_grow m (RecordGraphQLQuery l m)"
  by (simp add: metrics_grow_def RecordGraphQLQuery_def)

lemma grow_http: "metrics_grow m (recordHTTPMetrics l k c n m)"
  by (simp add: metrics_grow_def recordHTTPMetrics_def Let_def)

lemma run_items_grow: "run_items site ex i batch (d, b, m) = (rs, d', b', m') \<Longrightarrow> metrics_grow m m'"
proof (induction batch arbitrary: i d b m rs)
  case (Cons req reqs)
  from Cons.prems show ?case
    by (auto split: if_splits option.splits prod.splits dest!: Cons.IH intro: grow_trans [OF grow_query])
qed simp

lemma status_grow:
  assumes "gather_status t m d = (vs, m', d')"
  shows "metrics_grow m m'"
proof -
  have s: "metrics_grow m0 (snd (snd (fold success_row rows (a, b, m1))))" if "metrics_grow m0 m1" for m0 m1 rows a b
    using that
    by (induction rows arbitrary: a b m1)
      (auto simp: success_row_def SetProductsTotal_def metrics_grow_def)
  have l: "metrics_grow m0 (snd (snd (fold latest_row rows (a, b, m1))))" if "metrics_grow m0 m1" for m0 m1 rows a b
    using that
    by (induction rows arbitrary: a b m1)
      (auto simp: latest_row_def SetScrapeLastSuccess_def metrics_grow_def split: option.split)
  obtain r1 d1 where 1: "exec sql_newest_success d = (r1, d1)" by fastforce
  obtain r2 d2 where 2: "exec sql_newest_runs d1 = (r2, d2)" by fastforce
  obtain a b m1 where 3: "fold success_row (rows_of r1) (status_init m) = (a, b, m1)" by (cases "fold success_row (rows_of r1) (status_init m)") auto
  have "metrics_grow m m1"
    using s [of m m "rows_of r1" "fst (status_init m)" "fst (snd (status_init m))"] 3 by (simp add: status_init_def)
  from l [OF this, of "rows_of r2" a b] 1 2 3 assms show ?thesis
    by (auto simp: gather_status_def split: prod.splits)
qed

interpretation growing: server_relation site server_grows for site
proof
  fix s1 s2 s3 :: "'a server"
  show "server_grows s1 s2 \<Longrightarrow> server_grows s2 s3 \<Longrightarrow> server_grows s1 s3"
    by (auto simp: server_grows_def intro: grow_trans)
qed (auto simp: server_grows_def grow_http evict_tick_def reap_tick_def dest: run_items_grow status_grow)

subsection \<open>The limiters and the tables stay well formed\<close>

definition server_ok :: "'b server \<Rightarrow> bool" where
  "server_ok sv \<longleftrightarrow> lru_ok (sv_limiters sv) \<and> st.holds (sv_db sv)"

definition keeps_ok :: "'b server \<Rightarrow> 'b server \<Rightarrow> bool" where
  "keeps_ok s t \<longleftrightarrow> (server_ok s \<longrightarrow> server_ok t)"

lemma admit_ok: "rate_admit nb al perSec t ip ls = (ok, ls') \<Longrightarrow> lru_ok ls \<Longrightarrow> lru_ok ls'"
proof (cases "getLimiter nb perSec t ip ls")
  case (Pair x ls1)
  assume a: "rate_admit nb al perSec t ip ls = (ok, ls')" "lru_ok ls"
  have "lru_ok ls1" using getLimiter_ok [OF a(2), of nb perSec t ip] Pair by simp
  with a Pair allow_bucket_ok [of ls1 al t ip "the x"] show ?thesis
    by (auto simp: rate_admit_def split: if_splits option.splits)
qed

lemma run_items_holds:
  assumes "\<And>i req d b r d' b'. st_do site i req d b = Some (r, d', b') \<Longrightarrow> st.holds d \<Longrightarrow> st.holds d'"
    and "run_items site ex i batch (d, b, m) = (rs, d', b', m')" "st.holds d"
  shows "st.holds d'"
  using assms(2,3)
proof (induction batch arbitrary: i d b m rs)
  case (Cons req reqs)
  then show ?case
    by (auto split: if_splits option.splits prod.splits dest: assms(1))
qed simp

lemma read_holds: "st.holds d \<Longrightarrow> (\<And>d. snd (q d) = d) \<Longrightarrow> st.holds (snd (exec q d))"
  by (rule st.exec_holds) simp_all

lemma status_holds:
  assumes "gather_status t m d = (vs, m', d')" "st.holds d"
  shows "st.holds d'"
proof -
  have r: "snd (sql_newest_success d) = d" "snd (sql_newest_runs d) = d" for d
    by (simp_all add: sql_newest_success_def sql_newest_runs_def)
  from read_holds [OF read_holds [OF assms(2) r(1)] r(2)] assms(1) show ?thesis
    by (auto simp: gather_status_def split: prod.splits)
qed

lemma tables_relation:
  assumes "\<And>i req d b r d' b'. st_do site i req d b = Some (r, d', b') \<Longrightarrow> st.holds d \<Longrightarrow> st.holds d'"
  shows "server_relation site keeps_ok"
proof
  fix sv :: "'a server" and t :: int
  have "st.holds d \<Longrightarrow> st.holds (snd (ReapStaleScrapeRuns t k d))" for d k
    by (rule st.ReapStaleScrapeRuns_holds) (auto intro: ok_reap_runs)
  then show "keeps_ok sv (reap_tick t sv)" by (simp add: keeps_ok_def server_ok_def reap_tick_def)
  show "keeps_ok sv (evict_tick t sv)" by (simp add: keeps_ok_def server_ok_def evict_tick_def evictIdle_ok)
  fix ex i batch b rs d b' m
  assume "run_items site ex i batch (sv_db sv, b, sv_metrics sv) = (rs, d, b', m)"
  from run_items_holds [OF assms this] show "keeps_ok sv (sv\<lparr>sv_db := d, sv_metrics := m\<rparr>)"
    by (simp add: keeps_ok_def server_ok_def)
qed (auto simp: keeps_ok_def server_ok_def dest: status_holds admit_ok)

subsection \<open>No slot stays taken\<close>

definition rests :: "'b Http.handler \<Rightarrow> bool" where
  "rests h \<longleftrightarrow> (\<forall>rq hp sv. sv_inflight sv = 0 \<longrightarrow> sv_inflight (ran_srv (h rq hp sv)) = 0)"

definition calm :: "'b Http.handler \<Rightarrow> bool" where
  "calm h \<longleftrightarrow> (\<forall>rq hp sv. sv_inflight (ran_srv (h rq hp sv)) = sv_inflight sv)"

lemma calm_graphql: "calm (handleGraphQL site)"
  by (auto simp: calm_def handleGraphQL_def execute_batch_def Let_def split: option.split sum.split prod.split)

lemma rests_inflight: "calm h \<Longrightarrow> rests (inflightMiddleware site h)"
  by (auto simp: rests_def calm_def inflightMiddleware_def release_slot_def)

lemma rests_wrapped:
  "rests h \<Longrightarrow> rests (authMiddleware site h)" "rests h \<Longrightarrow> rests (rateLimitMiddleware site h)"
  "rests h \<Longrightarrow> rests (recoverMiddleware h)" "rests h \<Longrightarrow> rests (requestIDMiddleware site h)"
  "rests h \<Longrightarrow> rests (instrument l h)" "rests h \<Longrightarrow> rests (gzipMiddleware deflate h)"
  "rests h \<Longrightarrow> rests (securityHeadersMiddleware h)" "rests h \<Longrightarrow> rests (corsMiddleware origins h)"
  by (auto simp: rests_def authMiddleware_def rateLimitMiddleware_def recoverMiddleware_def requestIDMiddleware_def
      instrument_def gzipMiddleware_def securityHeadersMiddleware_def corsMiddleware_def prefix_ops_def Let_def split: prod.split)

lemma rests_small:
  "rests handleLiveness" "rests handleReadiness" "rests handleRoot" "rests (handleCatalog fs)" "rests (handleStatus rfc3339)"
  by (auto simp: rests_def route_defs Let_def split: sum.split prod.split)

lemma rests_all: "rests (server_handler deflate site fs rfc3339)"
proof -
  have g: "rests (graphql_endpoint site)"
    unfolding graphql_endpoint_def by (intro rests_wrapped rests_inflight calm_graphql)
  have D: "rests h \<Longrightarrow> sv_inflight sv = 0 \<Longrightarrow> sv_inflight (ran_srv (h rq hp sv)) = 0" for h :: "'a Http.handler" and rq hp sv
    by (simp add: rests_def)
  note i = rests_small [THEN rests_wrapped(5), THEN D]
  have "rests (publicHandler site fs rfc3339)"
    unfolding rests_def publicHandler_def Let_def
    by (auto intro!: D [OF g] i(1) i(2) i(3) i(4) i(5))
  then show ?thesis unfolding server_handler_def Let_def by (simp add: rests_wrapped)
qed

lemma steps_rest: "sv_inflight sv = 0 \<Longrightarrow> sv_inflight (fold (server_step deflate site fs rfc3339) es sv) = 0"
proof (induction es arbitrary: sv)
  case (Cons e es)
  have "sv_inflight (ran_srv (server_handler deflate site fs rfc3339 rq hp sv)) = 0" for rq hp
    using rests_all [of deflate site fs rfc3339] Cons.prems by (simp add: rests_def)
  then have "sv_inflight (server_step deflate site fs rfc3339 e sv) = 0"
    using Cons.prems by (cases e) (simp_all add: server_step_def evict_tick_def reap_tick_def)
  with Cons show ?case by simp
qed simp

text \<open>
  C6: the server stays well formed for as long as it runs. From its start on, after any sequence of requests, on any
  routes and with any outcome, panics included, and of ticks of the two tickers, whatever other processes do to the
  database meanwhile: the rate limiter's map and list agree and hold at most 10000 clients, the tables are well
  formed, no slot is taken, and no counter has gone down, provided the GraphQL executor keeps the tables well formed.
\<close>

theorem server_stays_well_formed:
  assumes "\<And>i req d b r d' b'. st_do site i req d b = Some (r, d', b') \<Longrightarrow>
      store_ok d \<and> script_all action_ok d \<Longrightarrow> store_ok d' \<and> script_all action_ok d'"
    and "store_ok d" "script_all action_ok d"
  shows "let sv = fold (server_step deflate site fs rfc3339) events (server_New d m) in
    lru_ok (sv_limiters sv) \<and> length (rateLRU (sv_limiters sv)) \<le> 10000
    \<and> store_ok (sv_db sv) \<and> sv_inflight sv = 0 \<and> metrics_grow m (sv_metrics sv)"
proof -
  let ?sv = "fold (server_step deflate site fs rfc3339) events (server_New d m)"
  have h: "st.holds d \<longleftrightarrow> store_ok d \<and> script_all action_ok d" for d by (simp add: st.holds_def)
  have "server_relation site keeps_ok" using tables_relation [of site] assms(1) unfolding h by blast
  from server_relation.steps_related [OF this]
  have k: "server_ok s \<Longrightarrow> server_ok (fold (server_step deflate site fs rfc3339) events s)" for s by (simp add: keeps_ok_def)
  have "server_ok ?sv"
    by (rule k) (use assms(2,3) in \<open>simp add: server_ok_def h server_New_def lru_ok_def no_limiters_def\<close>)
  then have "lru_ok (sv_limiters ?sv)" "store_ok (sv_db ?sv)" by (simp_all add: server_ok_def h)
  moreover have "metrics_grow (sv_metrics s) (sv_metrics (fold (server_step deflate site fs rfc3339) events s))" for s
    using growing.steps_related [of s deflate site fs rfc3339 events] by (simp add: server_grows_def)
  then have "metrics_grow m (sv_metrics ?sv)" by (metis (no_types, lifting) server_New_def server.select_convs(4))
  moreover have "sv_inflight ?sv = 0" by (rule steps_rest) (simp add: server_New_def)
  ultimately show ?thesis unfolding Let_def by (simp add: lru_ok_def maxRateLimiters_def)
qed

text \<open>The executor on the resolvers of the model keeps the tables: a lookup only reads.\<close>

lemma QueryProducts_holds: "st.holds d \<Longrightarrow> QueryProducts pg f d = (r, d') \<Longrightarrow> st.holds d'"
  using read_holds [of d "lookup_stmt pg f"]
  by (auto simp: QueryProducts_lookup split: option.splits sum.splits prod.splits)

lemma resolve_products_holds:
  "st.holds d \<Longrightarrow> resolve_products (QueryProducts pg) b a d = (r, b', d') \<Longrightarrow> st.holds d'"
  by (auto simp: resolve_products_def Let_def split: option.splits prod.splits sum.splits dest: QueryProducts_holds)

lemma resolve_all_holds:
  "st.holds d \<Longrightarrow> resolve_all (QueryProducts pg) b as d = (rs, b', d') \<Longrightarrow> st.holds d'"
  by (induction as arbitrary: b d rs) (auto split: prod.splits dest: resolve_products_holds)

lemma serial_do_holds: "serial_do pg asked i req d b = Some (r, d', b') \<Longrightarrow> st.holds d \<Longrightarrow> st.holds d'"
  by (auto simp: serial_do_def split: prod.splits dest: resolve_all_holds)

text \<open>The server with this executor: a request for products, an unknown route, and both tickers.\<close>

definition aws_field :: products_args where
  "aws_field = \<lparr>arg_filter = [(''vendorName'', GStr ''aws''), (''service'', GStr ''s'')], arg_limit = None, arg_offset = None\<rparr>"

definition resolving_site :: "unit site" where
  "resolving_site = (sample_site plain_config)\<lparr>st_do := serial_do (\<lambda>c p. None) (\<lambda>req. [aws_field])\<rparr>"

definition sample_events :: "server_event list" where
  "sample_events =
     [Request (sample_query_request ''k'') sample_happening, EvictTick 100,
      Request ((sample_query_request ''k'')\<lparr>rq_path := ''/nowhere'', rq_method := ''GET''\<rparr>) sample_happening, ReapTick 200]"

theorem server_stays_well_formed_witness:
  "let sv = fold (server_step id resolving_site (\<lambda>_. Inr []) show_int) sample_events (server_New (fresh_db 0 []) no_metrics) in
    length (rateLRU (sv_limiters sv)) \<le> 10000 \<and> store_ok (sv_db sv) \<and> sv_inflight sv = 0"
proof -
  have "store_ok d' \<and> script_all action_ok d'"
    if "st_do resolving_site i req d b = Some (r, d', b')" "store_ok d \<and> script_all action_ok d" for i req d b r d' b'
    using that serial_do_holds [of _ _ i req d b r d' b'] by (simp add: resolving_site_def st.holds_def)
  moreover have "store_ok (fresh_db 0 [])" "script_all action_ok (fresh_db 0 [])" by code_simp+
  ultimately show ?thesis
    using server_stays_well_formed [of resolving_site "fresh_db 0 []" id "\<lambda>_. Inr []" show_int sample_events no_metrics]
    unfolding Let_def by blast
qed

end
