(* ===== verification/Shutdown.thy ===== *)
theory Shutdown
  imports Pricing_Types
begin

text \<open>
  The end of the server process: \<open>Start\<close> and \<open>Stop\<close> of \<^verbatim>\<open>internal/server/server.go\<close>, \<open>Close\<close> of
  \<^verbatim>\<open>internal/db/db.go\<close> and the deferred calls of \<open>serveCmd\<close> in \<^verbatim>\<open>cmd/server/main.go\<close>, as a step
  relation over three kinds of goroutines: the one that serves and then runs the deferred calls, the one that
  waits for the signal, and one for each request. As documented, \<open>ListenAndServe\<close> returns as soon as \<open>Shutdown\<close>
  is called, \<open>Shutdown\<close> itself once no request is active, and the pool's \<open>Close\<close> refuses new connections and
  waits for those in use.
\<close>

subsection \<open>The process\<close>

datatype request_phase = Running | Querying | Answered | Cut

text \<open>The main goroutine: in \<open>ListenAndServe\<close>, then through the deferred calls to the end.\<close>

datatype main_pc = Serving | Returning | Closing_pool | Pool_shut | Flushed | Exited

text \<open>The goroutine that waits on \<open>done\<close>.\<close>

datatype signal_pc = Waiting | Signalled | Stopped | Draining | Drained

datatype stop_fault = ListenFails | DrainTimesOut

record server_process =
  sp_main :: main_pc
  sp_sig :: signal_pc
  sp_tickers :: bool
  sp_listening :: bool
  sp_pool :: bool
  sp_requests :: "nat \<Rightarrow> request_phase option"

definition process_start :: server_process where
  "process_start = \<lparr>sp_main = Serving, sp_sig = Waiting, sp_tickers = True, sp_listening = True, sp_pool = True,
     sp_requests = (\<lambda>r. None)\<rparr>"

definition Server_Stop :: "server_process \<Rightarrow> server_process" where
  "Server_Stop s = s\<lparr>sp_tickers := False\<rparr>"

definition DB_Close :: "server_process \<Rightarrow> server_process" where
  "DB_Close s = s\<lparr>sp_pool := False\<rparr>"

definition in_phase :: "request_phase \<Rightarrow> server_process \<Rightarrow> nat set" where
  "in_phase ph s = {r. sp_requests s r = Some ph}"

definition active :: "server_process \<Rightarrow> nat set" where
  "active s = in_phase Running s \<union> in_phase Querying s"

definition move :: "nat \<Rightarrow> request_phase \<Rightarrow> server_process \<Rightarrow> server_process" where
  "move r ph s = s\<lparr>sp_requests := (sp_requests s)(r \<mapsto> ph)\<rparr>"

text \<open>With the process every request that is still active ends, without its answer.\<close>

definition cut_phase :: "request_phase option \<Rightarrow> request_phase option" where
  "cut_phase ph = (if ph = Some Running \<or> ph = Some Querying then Some Cut else ph)"

definition process_exit :: "server_process \<Rightarrow> server_process" where
  "process_exit s = s\<lparr>sp_main := Exited, sp_tickers := False, sp_listening := False, sp_requests := cut_phase \<circ> sp_requests s\<rparr>"

inductive process_step :: "stop_fault set \<Rightarrow> server_process \<Rightarrow> server_process \<Rightarrow> bool" for faults where
  Accept: "sp_main s \<noteq> Exited \<Longrightarrow> sp_listening s \<Longrightarrow> sp_requests s r = None \<Longrightarrow> process_step faults s (move r Running s)"
| Acquire: "sp_main s \<noteq> Exited \<Longrightarrow> sp_pool s \<Longrightarrow> r \<in> in_phase Running s \<Longrightarrow> process_step faults s (move r Querying s)"
| Release: "sp_main s \<noteq> Exited \<Longrightarrow> r \<in> in_phase Querying s \<Longrightarrow> process_step faults s (move r Running s)"
| Answer: "sp_main s \<noteq> Exited \<Longrightarrow> r \<in> in_phase Running s \<Longrightarrow> process_step faults s (move r Answered s)"
| Signal: "sp_main s \<noteq> Exited \<Longrightarrow> sp_sig s = Waiting \<Longrightarrow> process_step faults s (s\<lparr>sp_sig := Signalled\<rparr>)"
| Stop: "sp_main s \<noteq> Exited \<Longrightarrow> sp_sig s = Signalled \<Longrightarrow> process_step faults s (Server_Stop (s\<lparr>sp_sig := Stopped\<rparr>))"
| Shutdown: "sp_main s \<noteq> Exited \<Longrightarrow> sp_sig s = Stopped \<Longrightarrow>
    process_step faults s (s\<lparr>sp_sig := Draining, sp_listening := False\<rparr>)"
| Drain: "sp_main s \<noteq> Exited \<Longrightarrow> sp_sig s = Draining \<Longrightarrow> active s = {} \<Longrightarrow> process_step faults s (s\<lparr>sp_sig := Drained\<rparr>)"
| Drain_timeout: "sp_main s \<noteq> Exited \<Longrightarrow> sp_sig s = Draining \<Longrightarrow> DrainTimesOut \<in> faults \<Longrightarrow>
    process_step faults s (s\<lparr>sp_sig := Drained\<rparr>)"
| Listen_fails: "sp_main s = Serving \<Longrightarrow> sp_listening s \<Longrightarrow> ListenFails \<in> faults \<Longrightarrow>
    process_step faults s (s\<lparr>sp_main := Returning, sp_listening := False\<rparr>)"
| Listen_returns: "sp_main s = Serving \<Longrightarrow> \<not> sp_listening s \<Longrightarrow> process_step faults s (s\<lparr>sp_main := Returning\<rparr>)"
| Close: "sp_main s = Returning \<Longrightarrow> process_step faults s (DB_Close (s\<lparr>sp_main := Closing_pool\<rparr>))"
| Closed: "sp_main s = Closing_pool \<Longrightarrow> in_phase Querying s = {} \<Longrightarrow> process_step faults s (s\<lparr>sp_main := Pool_shut\<rparr>)"
| Flush: "sp_main s = Pool_shut \<Longrightarrow> process_step faults s (s\<lparr>sp_main := Flushed\<rparr>)"
| Exit: "sp_main s = Flushed \<Longrightarrow> process_step faults s (process_exit s)"

inductive_cases process_stepE: "process_step faults s t"

lemmas process_defs = Server_Stop_def DB_Close_def move_def process_exit_def in_phase_def active_def

lemma move_simps [simp]:
  "sp_main (move r ph s) = sp_main s" "sp_sig (move r ph s) = sp_sig s" "sp_pool (move r ph s) = sp_pool s"
  "sp_tickers (move r ph s) = sp_tickers s" "sp_listening (move r ph s) = sp_listening s"
  "sp_requests (move r ph s) q = (if q = r then Some ph else sp_requests s q)"
  by (simp_all add: move_def)

lemma frame_simps [simp]:
  "in_phase ph (s\<lparr>sp_main := m\<rparr>) = in_phase ph s" "active (s\<lparr>sp_main := m\<rparr>) = active s"
  "in_phase ph (s\<lparr>sp_sig := g\<rparr>) = in_phase ph s" "active (s\<lparr>sp_sig := g\<rparr>) = active s"
  "in_phase ph (s\<lparr>sp_listening := l\<rparr>) = in_phase ph s" "active (s\<lparr>sp_listening := l\<rparr>) = active s"
  "in_phase ph (Server_Stop s) = in_phase ph s" "active (Server_Stop s) = active s"
  "in_phase ph (DB_Close s) = in_phase ph s" "active (DB_Close s) = active s"
  by (simp_all add: process_defs)

lemma call_simps [simp]:
  "sp_main (Server_Stop s) = sp_main s" "sp_sig (Server_Stop s) = sp_sig s" "sp_pool (Server_Stop s) = sp_pool s"
  "\<not> sp_tickers (Server_Stop s)" "sp_listening (Server_Stop s) = sp_listening s" "sp_requests (Server_Stop s) = sp_requests s"
  "sp_main (DB_Close s) = sp_main s" "sp_sig (DB_Close s) = sp_sig s" "\<not> sp_pool (DB_Close s)"
  "sp_tickers (DB_Close s) = sp_tickers s" "sp_listening (DB_Close s) = sp_listening s" "sp_requests (DB_Close s) = sp_requests s"
  by (simp_all add: Server_Stop_def DB_Close_def)

lemma phase_move [simp]:
  "in_phase ph (move r ph' s) = (if ph = ph' then insert r (in_phase ph s) else in_phase ph s - {r})"
  "active (move r ph s) = (if ph = Running \<or> ph = Querying then insert r (active s) else active s - {r})"
  by (auto simp: in_phase_def active_def)

lemma finite_move [simp]: "finite (dom (sp_requests (move r ph s))) = finite (dom (sp_requests s))"
  by (simp add: move_def)

lemma exit_simps [simp]:
  "sp_main (process_exit s) = Exited" "sp_sig (process_exit s) = sp_sig s" "sp_pool (process_exit s) = sp_pool s"
  "\<not> sp_tickers (process_exit s)" "\<not> sp_listening (process_exit s)"
  "sp_requests (process_exit s) r = cut_phase (sp_requests s r)"
  "dom (sp_requests (process_exit s)) = dom (sp_requests s)"
  "in_phase Querying (process_exit s) = {}" "active (process_exit s) = {}"
  by (auto simp: process_exit_def in_phase_def active_def cut_phase_def split: if_splits)

subsection \<open>What holds on the way down\<close>

definition process_inv :: "stop_fault set \<Rightarrow> server_process \<Rightarrow> bool" where
  "process_inv faults s \<longleftrightarrow>
     (sp_pool s \<longleftrightarrow> sp_main s \<in> {Serving, Returning})
     \<and> (sp_sig s \<in> {Stopped, Draining, Drained} \<longrightarrow> \<not> sp_tickers s)
     \<and> (sp_sig s \<in> {Draining, Drained} \<or> sp_main s \<noteq> Serving \<longrightarrow> \<not> sp_listening s)
     \<and> (ListenFails \<notin> faults \<longrightarrow> \<not> sp_listening s \<longrightarrow> sp_sig s \<in> {Draining, Drained})"

definition requests_inv :: "stop_fault set \<Rightarrow> server_process \<Rightarrow> bool" where
  "requests_inv faults s \<longleftrightarrow>
     finite (in_phase Querying s)
     \<and> (sp_main s \<in> {Pool_shut, Flushed, Exited} \<longrightarrow> in_phase Querying s = {})
     \<and> (DrainTimesOut \<notin> faults \<longrightarrow> sp_sig s = Drained \<longrightarrow> active s = {})
     \<and> (sp_main s \<noteq> Exited \<longrightarrow> in_phase Cut s = {})"

lemma inv_start: "process_inv faults process_start" "requests_inv faults process_start"
  by (simp_all add: process_inv_def requests_inv_def process_start_def in_phase_def active_def)

lemma process_inv_step: "process_step faults s t \<Longrightarrow> process_inv faults s \<Longrightarrow> process_inv faults t"
  by (erule process_stepE) (simp_all add: process_inv_def)

lemma requests_inv_move:
  assumes "requests_inv faults s" "sp_main s \<noteq> Exited" "ph \<noteq> Cut" "active s \<noteq> {} \<or> sp_sig s \<noteq> Drained"
    and "ph = Querying \<Longrightarrow> sp_main s = Serving \<or> sp_main s = Returning"
  shows "requests_inv faults (move r ph s)"
  unfolding requests_inv_def
proof (intro conjI impI)
  show "finite (in_phase Querying (move r ph s))" "in_phase Cut (move r ph s) = {}"
    using assms(1-3) by (simp_all add: requests_inv_def)
  show "in_phase Querying (move r ph s) = {}" if "sp_main (move r ph s) \<in> {Pool_shut, Flushed, Exited}"
    using that assms(1,5) by (auto simp: requests_inv_def)
  show "active (move r ph s) = {}" if "DrainTimesOut \<notin> faults" "sp_sig (move r ph s) = Drained"
    using that assms(1,4) by (simp add: requests_inv_def)
qed

lemma requests_inv_step:
  assumes "process_step faults s t" "process_inv faults s" "requests_inv faults s"
  shows "requests_inv faults t"
  using assms(1)
proof cases
  case (Accept r)
  with assms(2) have "sp_sig s \<noteq> Drained" by (auto simp: process_inv_def)
  with Accept show ?thesis by (auto intro: requests_inv_move [OF assms(3)])
next
  case (Acquire r)
  with assms(2) have "sp_main s = Serving \<or> sp_main s = Returning" "active s \<noteq> {}" by (auto simp: process_inv_def active_def)
  with Acquire show ?thesis by (auto intro: requests_inv_move [OF assms(3)])
next
  case (Release r)
  then have "active s \<noteq> {}" by (auto simp: active_def)
  with Release show ?thesis by (auto intro: requests_inv_move [OF assms(3)])
next
  case (Answer r)
  then have "active s \<noteq> {}" by (auto simp: active_def)
  with Answer show ?thesis by (auto intro: requests_inv_move [OF assms(3)])
qed (use assms(3) in \<open>simp_all add: requests_inv_def\<close>)

lemma inv_reachable:
  assumes "(process_step faults)\<^sup>*\<^sup>* s t" "process_inv faults s" "requests_inv faults s"
  shows "process_inv faults t \<and> requests_inv faults t"
  using assms by (induction rule: rtranclp_induct) (auto dest: process_inv_step requests_inv_step)

end
