(* ===== verification/Shutdown_Properties.thy ===== *)
theory Shutdown_Properties
  imports Shutdown
begin

text \<open>
  What the end of the server keeps and what it loses: no query is torn off and every background goroutine ends
  before the pool does, but the process does not wait for \<open>Shutdown\<close>, so requests that are still running are cut.
\<close>

subsection \<open>Ways to the end\<close>

text \<open>Runs in which nothing fails and no deadline passes.\<close>

abbreviation quiet_run :: "server_process \<Rightarrow> server_process \<Rightarrow> bool" where
  "quiet_run \<equiv> (process_step {})\<^sup>*\<^sup>*"

lemma quiet_then: "process_step {} s t \<Longrightarrow> quiet_run t u \<Longrightarrow> quiet_run s u"
  by (rule converse_rtranclp_into_rtranclp)

lemma quiet_step: "process_step {} s t \<Longrightarrow> process_step faults s t"
  by (erule process_stepE) (auto intro: process_step.intros)

lemma quiet_inv:
  assumes "quiet_run s t" "process_inv faults s \<and> requests_inv faults s"
  shows "process_inv faults t \<and> requests_inv faults t"
proof -
  have "(process_step faults)\<^sup>*\<^sup>* s t" using assms(1) by (rule rtranclp_mono [THEN predicate2D, rotated]) (auto intro: quiet_step)
  with assms(2) inv_reachable show ?thesis by blast
qed

lemma started_inv: "(process_step faults)\<^sup>*\<^sup>* process_start s \<Longrightarrow> process_inv faults s \<and> requests_inv faults s"
  using inv_reachable inv_start by blast

text \<open>The signal is handled while the server serves: the tickers are stopped, then the listener is closed.\<close>

lemma quiet_signal:
  assumes "sp_main s \<noteq> Exited" "sp_sig s \<noteq> Drained"
  shows "\<exists>t. quiet_run s t \<and> sp_main t = sp_main s \<and> sp_sig t = Draining \<and> sp_requests t = sp_requests s"
proof -
  have stopped: "\<exists>t. quiet_run s t \<and> sp_main t = sp_main s \<and> sp_sig t = Draining \<and> sp_requests t = sp_requests s"
    if "sp_main s \<noteq> Exited" "sp_sig s = Stopped" for s
    using quiet_then [OF process_step.Shutdown [OF that] rtranclp.rtrancl_refl] by force
  have signalled: "\<exists>t. quiet_run s t \<and> sp_main t = sp_main s \<and> sp_sig t = Draining \<and> sp_requests t = sp_requests s"
    if s: "sp_main s \<noteq> Exited" "sp_sig s = Signalled" for s
    using stopped [of "Server_Stop (s\<lparr>sp_sig := Stopped\<rparr>)"] s quiet_then [OF process_step.Stop [OF s]] by auto
  have waiting: "\<exists>t. quiet_run s t \<and> sp_main t = sp_main s \<and> sp_sig t = Draining \<and> sp_requests t = sp_requests s"
    if s: "sp_main s \<noteq> Exited" "sp_sig s = Waiting" for s
    using signalled [of "s\<lparr>sp_sig := Signalled\<rparr>"] s quiet_then [OF process_step.Signal [OF s]] by auto
  show ?thesis using assms stopped signalled waiting by (cases "sp_sig s") auto
qed

text \<open>Every request that holds a connection gives it back; none that runs is disturbed.\<close>

lemma quiet_release:
  assumes "finite Q" "in_phase Querying s = Q" "sp_main s \<noteq> Exited"
  shows "\<exists>t. quiet_run s t \<and> sp_main t = sp_main s \<and> sp_sig t = sp_sig s
    \<and> in_phase Querying t = {} \<and> in_phase Running s \<subseteq> in_phase Running t"
  using assms
proof (induction Q arbitrary: s)
  case empty
  then show ?case by blast
next
  case (insert r Q)
  let ?u = "move r Running s"
  from insert have r: "r \<in> in_phase Querying s" by blast
  have "in_phase Querying ?u = Q" using insert by auto
  with insert.IH [of ?u] insert.prems(2) obtain t where
    "quiet_run ?u t" "sp_main t = sp_main s" "sp_sig t = sp_sig s" "in_phase Querying t = {}"
    "insert r (in_phase Running s) \<subseteq> in_phase Running t" by auto
  with quiet_then [OF process_step.Release [OF insert.prems(2) r]] show ?case by blast
qed

lemma quiet_flush:
  assumes "sp_main s = Pool_shut"
  shows "\<exists>t. quiet_run s t \<and> sp_main t = Exited \<and> sp_sig t = sp_sig s \<and> in_phase Running s \<subseteq> in_phase Cut t"
proof -
  let ?f = "s\<lparr>sp_main := Flushed\<rparr>"
  have "process_step {} ?f (process_exit ?f)" by (rule process_step.Exit) simp
  then have "quiet_run s (process_exit ?f)"
    by (rule quiet_then [OF process_step.Flush [OF assms] r_into_rtranclp])
  moreover have "in_phase Running s \<subseteq> in_phase Cut (process_exit ?f)" by (auto simp: in_phase_def cut_phase_def)
  ultimately show ?thesis by (intro exI [of _ "process_exit ?f"]) simp
qed

lemma quiet_close:
  assumes "sp_main s = Closing_pool" "finite (in_phase Querying s)"
  shows "\<exists>t. quiet_run s t \<and> sp_main t = Exited \<and> sp_sig t = sp_sig s \<and> in_phase Running s \<subseteq> in_phase Cut t"
proof -
  obtain u where u: "quiet_run s u" "sp_main u = Closing_pool" "sp_sig u = sp_sig s"
      "in_phase Querying u = {}" "in_phase Running s \<subseteq> in_phase Running u"
    using quiet_release [OF assms(2) refl] assms(1) by auto
  have p: "process_step {} u (u\<lparr>sp_main := Pool_shut\<rparr>)" by (rule process_step.Closed [OF u(2,4)])
  obtain t where "quiet_run (u\<lparr>sp_main := Pool_shut\<rparr>) t" "sp_main t = Exited" "sp_sig t = sp_sig u"
      "in_phase Running u \<subseteq> in_phase Cut t"
    using quiet_flush [of "u\<lparr>sp_main := Pool_shut\<rparr>"] by auto
  with quiet_then [OF p] u show ?thesis by (metis order.trans rtranclp_trans)
qed

lemma quiet_exit:
  assumes "sp_main s = Returning" "finite (in_phase Querying s)"
  shows "\<exists>t. quiet_run s t \<and> sp_main t = Exited \<and> sp_sig t = sp_sig s \<and> in_phase Running s \<subseteq> in_phase Cut t"
  using quiet_close [of "DB_Close (s\<lparr>sp_main := Closing_pool\<rparr>)"] quiet_then [OF process_step.Close [OF assms(1)]] assms(2)
  by auto

lemma quiet_return:
  assumes "process_inv faults s" "requests_inv faults s" "sp_main s = Serving" "\<not> sp_listening s"
  shows "\<exists>t. quiet_run s t \<and> sp_main t = Exited \<and> sp_sig t = sp_sig s \<and> in_phase Running s \<subseteq> in_phase Cut t"
proof -
  have "finite (in_phase Querying s)" using assms(2) by (simp add: requests_inv_def)
  then obtain t where "quiet_run (s\<lparr>sp_main := Returning\<rparr>) t" "sp_main t = Exited" "sp_sig t = sp_sig s"
      "in_phase Running s \<subseteq> in_phase Cut t"
    using quiet_exit [of "s\<lparr>sp_main := Returning\<rparr>"] by auto
  with quiet_then [OF process_step.Listen_returns [OF assms(3,4)]] show ?thesis by blast
qed

lemma quiet_cut:
  assumes "process_inv faults s" "requests_inv faults s" "sp_main s = Serving" "sp_sig s \<noteq> Drained"
  shows "\<exists>t. quiet_run s t \<and> sp_main t = Exited \<and> sp_sig t = Draining \<and> in_phase Running s \<subseteq> in_phase Cut t"
proof -
  obtain u where u: "quiet_run s u" "sp_main u = Serving" "sp_sig u = Draining" "sp_requests u = sp_requests s"
    using quiet_signal [of s] assms(3,4) by auto
  have inv: "process_inv faults u" "requests_inv faults u" using quiet_inv [OF u(1)] assms(1,2) by blast+
  with u(3) have "\<not> sp_listening u" by (simp add: process_inv_def)
  from quiet_return [OF inv u(2) this] u(3) obtain t where
    "quiet_run u t" "sp_main t = Exited" "sp_sig t = Draining" "in_phase Running u \<subseteq> in_phase Cut t" by auto
  moreover have "in_phase Running u = in_phase Running s" using u(4) by (simp add: in_phase_def)
  ultimately show ?thesis using u(1) by (metis rtranclp_trans)
qed

text \<open>
  C9: the order of the end. Whatever is received, whatever fails and whatever deadline passes: when the pool is shut, no request
  uses a connection of it, so no query is torn off; unless the listener failed, the pool is closed only after the
  tickers were stopped and the listener was closed; when \<open>Shutdown\<close> has returned within its deadline no request is
  active; and from every state the process can reach, its end can be reached without any further failure.
\<close>

theorem shutdown_in_order:
  assumes "(process_step faults)\<^sup>*\<^sup>* process_start s"
  shows "(sp_main s \<in> {Pool_shut, Flushed, Exited} \<longrightarrow> in_phase Querying s = {})
    \<and> (ListenFails \<in> faults \<or> sp_pool s \<or> \<not> sp_tickers s \<and> \<not> sp_listening s)
    \<and> (DrainTimesOut \<in> faults \<or> sp_sig s \<noteq> Drained \<or> active s = {})
    \<and> (\<exists>t. (process_step {})\<^sup>*\<^sup>* s t \<and> sp_main t = Exited)"
proof -
  note inv = started_inv [OF assms]
  from inv have f: "finite (in_phase Querying s)" by (simp add: requests_inv_def)
  have "\<exists>t. quiet_run s t \<and> sp_main t = Exited"
  proof (cases "sp_main s")
    case Serving
    then show ?thesis
      using quiet_cut [of faults s] quiet_return [of faults s] inv by (cases "sp_sig s = Drained") (auto simp: process_inv_def)
  next
    case Returning
    with quiet_exit [OF _ f] show ?thesis by blast
  next
    case Closing_pool
    with quiet_close [OF _ f] show ?thesis by blast
  next
    case Pool_shut
    with quiet_flush show ?thesis by blast
  next
    case Flushed
    then show ?thesis using r_into_rtranclp [of "process_step {}", OF process_step.Exit [OF Flushed]] by force
  qed blast
  with inv show ?thesis by (auto simp: process_inv_def requests_inv_def)
qed

text \<open>
  C8: the shutdown is not graceful. \<open>ListenAndServe\<close> returns as soon as \<open>Shutdown\<close> has closed the listener and
  nothing waits for \<open>Shutdown\<close> itself, so the process may end first. From every state in which the server serves,
  reached without a failure, there is such a run, again without a failure or a missed deadline: \<open>Shutdown\<close> is
  still waiting when the process ends, and every request that was running is cut.
\<close>

theorem shutdown_cuts_requests:
  assumes "(process_step {})\<^sup>*\<^sup>* process_start s" "sp_main s = Serving" "in_phase Running s \<noteq> {}"
  shows "\<exists>t. (process_step {})\<^sup>*\<^sup>* s t \<and> sp_main t = Exited \<and> sp_sig t = Draining \<and> in_phase Running s \<subseteq> in_phase Cut t"
proof -
  note inv = started_inv [OF assms(1)]
  with assms(3) have "sp_sig s \<noteq> Drained" by (auto simp: requests_inv_def active_def)
  with quiet_cut inv assms(2) show ?thesis by blast
qed

subsection \<open>Concrete runs\<close>

text \<open>A server with a request, and one whose request holds a connection when the signal comes.\<close>

definition one_running :: server_process where "one_running = move 0 Running process_start"

lemma one_running_step: "process_step faults process_start one_running"
  unfolding one_running_def by (rule process_step.Accept) (simp_all add: process_start_def)

definition querying_at_signal :: server_process where
  "querying_at_signal = (move 0 Querying one_running)\<lparr>sp_sig := Signalled\<rparr>"

theorem shutdown_in_order_witness:
  "in_phase Querying querying_at_signal = {0} \<and> (\<exists>t. (process_step {})\<^sup>*\<^sup>* querying_at_signal t \<and> sp_main t = Exited)"
proof -
  have one: "sp_main one_running = Serving" "sp_sig one_running = Waiting" "sp_pool one_running" "in_phase Running one_running = {0}"
    by (simp_all add: one_running_def process_start_def in_phase_def)
  have "process_step {} one_running (move 0 Querying one_running)" by (rule process_step.Acquire) (simp_all add: one)
  moreover have "process_step {} (move 0 Querying one_running) querying_at_signal"
    unfolding querying_at_signal_def by (rule process_step.Signal) (simp_all add: one)
  ultimately have "(process_step {})\<^sup>*\<^sup>* process_start querying_at_signal"
    using one_running_step by (meson r_into_rtranclp rtranclp.rtrancl_into_rtrancl)
  from shutdown_in_order [OF this] have "\<exists>t. (process_step {})\<^sup>*\<^sup>* querying_at_signal t \<and> sp_main t = Exited" by blast
  moreover have "in_phase Querying querying_at_signal = {0}"
    by (simp add: querying_at_signal_def one_running_def process_start_def in_phase_def)
  ultimately show ?thesis by blast
qed

theorem shutdown_cuts_requests_witness:
  "\<exists>t. (process_step {})\<^sup>*\<^sup>* one_running t \<and> sp_main t = Exited \<and> sp_requests t 0 = Some Cut"
proof -
  have "sp_main one_running = Serving" "in_phase Running one_running = {0}"
    by (simp_all add: one_running_def process_start_def in_phase_def)
  with shutdown_cuts_requests [OF r_into_rtranclp [of "process_step {}", OF one_running_step]]
  obtain t where "(process_step {})\<^sup>*\<^sup>* one_running t" "sp_main t = Exited" "{0} \<subseteq> in_phase Cut t" by auto
  then show ?thesis by (auto simp: in_phase_def)
qed

end
