(* ===== verification/Spec2Isabelle.thy ===== *)
theory Spec2Isabelle
  imports Crash_Recovery Api_Properties Inflight Gcp_Properties Azure_Properties Aws_Properties Migration_Properties
    Command_Properties Schema Server_Life Shutdown_Properties
begin

text \<open>
  A verification development for the c3x pricing API: the Go program that scrapes the price lists of
  AWS, Azure and GCP into PostgreSQL (\<^verbatim>\<open>cmd/server/main.go\<close>, \<^verbatim>\<open>internal/scraper\<close>,
  \<^verbatim>\<open>internal/db\<close>) and serves them over GraphQL (\<^verbatim>\<open>internal/graphql\<close>, \<^verbatim>\<open>internal/server\<close>). The
  program has one writer per vendor, serialised by an advisory lock, and any number of readers.

  \<^bold>\<open>How the program is modelled.\<close> Go values are HOL values as \<open>C3x_Prelude\<close> lays down: integers
  are \<open>int\<close> with the bounds written out where they matter, strings are byte lists, maps that are
  iterated are association lists (every iteration order is covered), errors are left summands, nil
  pointers are \<open>None\<close>. Each Go function is a definition of the same name; branches, early returns and
  deferred calls are those of the code. What a function does to the database, the server's state or a
  response writer is explicit state passing.

  \<^bold>\<open>The store.\<close>
  \<^item> \<open>Pricing_Types\<close>: the structs and constants of \<^verbatim>\<open>internal/db/queries.go\<close>.
  \<^item> \<open>Database\<close>: the tables of \<^verbatim>\<open>schema.sql\<close> and every SQL statement as the change its text makes.
    A \<open>script\<close> in the state says what other processes do before each statement and whether it
    fails: a theorem about all states is one about all schedules and all failures.
  \<^item> \<open>Product_Store\<close>: the operations of \<open>*db.DB\<close> (\<open>UpsertProducts\<close>, \<open>MarkSeen\<close>,
    \<open>DeleteStaleProducts\<close>, run records, lock, seeding). \<open>Store_Invariants\<close>: well-formedness of the
    tables, and the locale \<open>rely\<close> that carries a predicate through all operations under interference.
  \<^item> \<open>Sql_Select\<close>: the \<open>SELECT\<close> on products as PostgreSQL executes it, a reader of the statement's text that
    binds the arguments and evaluates the clauses on the table. \<open>Product_Query\<close>: \<open>buildProductQuery\<close> as text with
    arguments, what that text means to the reader, and the paginated lookup, which executes it. \<open>Regex_Filter\<close>: \<open>MatchRegexPattern\<close> with its cache and \<open>FilterPrices\<close>.

  \<^bold>\<open>The scrape run.\<close>
  \<^item> \<open>Scrape_Run\<close>: \<open>runOneScrape\<close>, its guards, its handler, stale cleanup and the command's result.
  \<^item> \<open>Scrape_Safety\<close>, \<open>Run_Properties\<close>, \<open>Run_Effect\<close>: seen products survive, incomplete runs delete
    nothing, the lock excludes, tables stay well formed, and the exact effect of an undisturbed run.
    \<open>Crash_Recovery\<close>: what the cleanup deletes when a crash recovery empties the seen-set during the run.

  \<^bold>\<open>The scrapers\<close> (\<^verbatim>\<open>internal/scraper\<close>).
  \<^item> \<open>Go_Float\<close>: \<open>float64\<close> as the rationals it represents, its rounding, parsing and printing.
  \<^item> \<open>Scraper_Core\<close>: requests and their answers, \<open>retryWithBackoff\<close>, decoding JSON into structs, the error
    group of goroutines. \<open>Scraper_Contract\<close>: what \<open>runOneScrape\<close> needs of a scraper, as the locale
    \<open>scraper_contract\<close>, with what a run makes of it.
  \<^item> \<open>Gcp\<close>, \<open>Gcp_Properties\<close>: the whole of \<^verbatim>\<open>gcp.go\<close>; the interpretation of the contract, the exactness of
    prices and of the synthesised machine types.
  \<^item> \<open>Azure\<close>, \<open>Azure_Properties\<close>: the whole of \<^verbatim>\<open>azure.go\<close>; which rows of the price list are stored, and
    that a successful run has stored all of it.
  \<^item> \<open>Json_Stream\<close>: \<open>json.Decoder\<close> read token by token. \<open>Aws\<close>: the whole of \<^verbatim>\<open>aws.go\<close> and
    \<^verbatim>\<open>aws_regions.go\<close>; a failing type assertion ends the process, so it is an outcome of its own
    (\<open>Panicked\<close>) and a scrape is one that \<open>aws_survives\<close>. \<open>Aws_Properties\<close>: the streaming reader against
    the tree of the file, files cut short, and that a run which could not read everything deletes nothing.

  \<^bold>\<open>The API.\<close>
  \<^item> \<open>Resolver\<close>: the GraphQL resolvers, the guard on broad filters and the request budget with all
    interleavings of its two operations. \<open>Query_Guard\<close>: query depth and introspection.
  \<^item> \<open>Rate_Limit\<close>: the limiters per client and their eviction. \<open>Net_Addr\<close>: addresses and networks.
  \<^item> \<open>Config\<close>: \<^verbatim>\<open>internal/config/config.go\<close>. \<open>Sha256\<close>: the hash, with \<open>ProductHash\<close> and \<open>PriceHash\<close>.
    \<open>Json_String\<close>, \<open>Json_Value\<close>: the JSON the program reads and prints, where a number decoded into an
    \<open>interface{}\<close> is a \<open>float64\<close>. \<open>Url_Redact\<close>: the access log's redaction. \<open>Go_Strings\<close>: the functions of \<^verbatim>\<open>strings\<close> and \<^verbatim>\<open>strconv\<close>.
  \<^item> \<open>Http\<close>: handlers, response writers and the middlewares of \<^verbatim>\<open>internal/server/server.go\<close>.
    \<open>Graphql_Handler\<close>: \<open>handleGraphQL\<close>. \<open>Handler_Contract\<close>: the contract of every handler as locales,
    interpreted on the route. \<open>Graphql_Safety\<close>: authentication, guards and budget end to end.
  \<^item> \<open>Gzip\<close>: the compressing writer. \<open>Inflight\<close>: the semaphore as a step relation over all requests.
    \<open>Public_Api\<close>: the other routes, \<open>/status\<close>, the catalogue bundle, the whole stack of middlewares.
    \<open>Api_Properties\<close>: what \<open>/status\<close> reports, the rate limiter's key, the catalogue's entity tag.
  \<^item> \<open>Schema\<close>: the types \<open>NewSchema\<close> declares, as data, against what the parsers of the filters read.

  \<^bold>\<open>The processes.\<close>
  \<^item> \<open>Migration\<close>, \<open>Migration_Properties\<close>: the sizes of the connection pool, and \<open>RunMigrations\<close> of any number of
    processes as a step relation in which every statement runs on the connection the pool hands out.
  \<^item> \<open>Commands\<close>, \<open>Command_Properties\<close>: \<open>serve\<close>, \<open>scrape\<close> and \<open>seed\<close> with their early returns and deferred calls as
    events, the telemetry's options, the start of the server and its tickers; resources are released, the
    server listens only when ready, and exit status 0 of \<open>scrape\<close> means data.
  \<^item> \<open>Server_Life\<close>: any sequence of requests and ticks. The locale \<open>server_relation\<close> carries a relation through
    all middlewares; it gives the growth of the counters and the well-formedness of limiters and tables.
  \<^item> \<open>Shutdown\<close>, \<open>Shutdown_Properties\<close>: the signal, \<open>Stop\<close>, the closing of the listener and of the pool, and the end
    of the process as interleaved steps with the requests that still run: what is kept, and what is cut.

  \<^bold>\<open>Loops and bounds.\<close> Every loop is a total function. Index loops and the walks over fragments carry
  measures; no fuel is used in the components above. Waiting (timers, the channel, sleeping) is an
  input of the step it ends.

  \<^bold>\<open>Parameters.\<close> Code outside the repository is an argument: Go's regular expressions, PostgreSQL's
  regular expressions, the token bucket of \<^verbatim>\<open>golang.org/x/time/rate\<close>, the GraphQL parser and executor,
  the compressor and decompressor of \<^verbatim>\<open>compress/gzip\<close>, the answers of the vendors, and the parts of \<^verbatim>\<open>net/url\<close> named in \<open>Url_Redact\<close>. What a theorem
  needs of one is a hypothesis of it or an assumption of an interpreted locale.

  \<^bold>\<open>Not modelled.\<close> The sockets of \<open>Start\<close>, the spans of OpenTelemetry, the Prometheus exposition
  format, log records other than the access log, \<open>Hijack\<close>, and flag parsing: all are calls into libraries; what
  they answer is an argument where the program acts on it. \<open>Scrape\<close>, the variant of the scrapers that collects every
  product in memory and that no command calls, is left out too.
\<close>

end
